(* ===== verification/Go_Prelude.thy ===== *)
theory Go_Prelude
  imports
    Main
    "HOL-Library.Char_ord"
    "HOL-Library.List_Lexorder"
    "HOL-Library.Product_Lexorder"
    "HOL-Library.Sublist"
    "HOL-Library.Multiset"
begin

section \<open>The part of Go the development shares\<close>

text \<open>
  Byte strings with the functions of Go's package strings, stable sorting, the association
  lists that stand for Go maps which are iterated, machine durations, and the structured error
  value of \<open>src/internal/domain/errors.go\<close>.

  A Go string is a list of bytes (\<^typ>\<open>string\<close>). Case mapping and white space are those of the
  ASCII fast paths of package strings; a byte above 127 is neither a letter with a case nor
  white space here. Comparison of strings is byte-wise lexicographic order, which is the order
  of \<open>HOL-Library.List_Lexorder\<close> over \<open>HOL-Library.Char_ord\<close>.
\<close>

named_theorems go_string \<open>simplification rules for string functions\<close>

subsection \<open>Package strings\<close>

definition is_space :: "char \<Rightarrow> bool" where
  "is_space c \<longleftrightarrow> c = CHR '' '' \<or> c = CHR 0x09 \<or> c = CHR 0x0A \<or> c = CHR 0x0B \<or> c = CHR 0x0C \<or> c = CHR 0x0D"

definition trim_left :: "string \<Rightarrow> string" where
  "trim_left s = dropWhile is_space s"

definition trim_space :: "string \<Rightarrow> string" where
  "trim_space s = rev (trim_left (rev (trim_left s)))"

definition lower_char :: "char \<Rightarrow> char" where
  "lower_char c = (let n = (of_char c :: nat) in if 65 \<le> n \<and> n \<le> 90 then char_of (n + 32) else c)"

definition upper_char :: "char \<Rightarrow> char" where
  "upper_char c = (let n = (of_char c :: nat) in if 97 \<le> n \<and> n \<le> 122 then char_of (n - 32) else c)"

definition to_lower :: "string \<Rightarrow> string" where
  "to_lower s = map lower_char s"

definition to_upper :: "string \<Rightarrow> string" where
  "to_upper s = map upper_char s"

definition equal_fold :: "string \<Rightarrow> string \<Rightarrow> bool" where
  "equal_fold s t \<longleftrightarrow> to_lower s = to_lower t"

fun has_prefix :: "string \<Rightarrow> string \<Rightarrow> bool" where
  "has_prefix s [] = True"
| "has_prefix [] (p # ps) = False"
| "has_prefix (c # s) (p # ps) = (c = p \<and> has_prefix s ps)"

definition has_suffix :: "string \<Rightarrow> string \<Rightarrow> bool" where
  "has_suffix s p = has_prefix (rev s) (rev p)"

fun contains :: "string \<Rightarrow> string \<Rightarrow> bool" where
  "contains [] p = (p = [])"
| "contains (c # s) p = (has_prefix (c # s) p \<or> contains s p)"

text \<open>
  \<open>cut_at s sep\<close> splits \<open>s\<close> around the first occurrence of \<open>sep\<close>, as \<open>strings.SplitN(s, sep, 2)\<close>
  does when it returns two parts; \<open>None\<close> is the one-part result.
\<close>

fun cut_at :: "string \<Rightarrow> string \<Rightarrow> (string \<times> string) option" where
  "cut_at [] sep = (if sep = [] then Some ([], []) else None)"
| "cut_at (c # s) sep =
     (if has_prefix (c # s) sep then Some ([], drop (length sep) (c # s))
      else (case cut_at s sep of None \<Rightarrow> None | Some (a, b) \<Rightarrow> Some (c # a, b)))"

text \<open>\<open>strings.Split\<close> on a one-byte separator.\<close>

fun split_on :: "char \<Rightarrow> string \<Rightarrow> string list" where
  "split_on d [] = [[]]"
| "split_on d (c # s) =
     (if c = d then [] # split_on d s
      else (case split_on d s of [] \<Rightarrow> [[c]] | w # ws \<Rightarrow> (c # w) # ws))"

fun join :: "string list \<Rightarrow> string \<Rightarrow> string" where
  "join [] sep = []"
| "join [s] sep = s"
| "join (s # t # ss) sep = s @ sep @ join (t # ss) sep"

subsection \<open>Numbers as text\<close>

definition digit_char :: "nat \<Rightarrow> char" where
  "digit_char d = char_of (48 + d)"

function nat_str :: "nat \<Rightarrow> string" where
  "nat_str n = (if n < 10 then [digit_char n] else nat_str (n div 10) @ [digit_char (n mod 10)])"
  by pat_completeness auto
termination
  by (relation "measure id") auto

declare nat_str.simps [simp del]

definition itoa :: "int \<Rightarrow> string" where
  "itoa i = (if i < 0 then CHR ''-'' # nat_str (nat (- i)) else nat_str (nat i))"

definition is_digit :: "char \<Rightarrow> bool" where
  "is_digit c \<longleftrightarrow> (48::nat) \<le> of_char c \<and> (of_char c :: nat) \<le> 57"

definition digit_val :: "char \<Rightarrow> nat" where
  "digit_val c = of_char c - 48"

definition nat_of_digits :: "string \<Rightarrow> nat" where
  "nat_of_digits s = foldl (\<lambda>n c. 10 * n + digit_val c) 0 s"

text \<open>
  \<open>strconv.ParseInt(s, 10, 64)\<close> and \<open>strconv.Atoi\<close>: an optional sign, at least one digit, digits
  only, and a value of 64 bits; \<open>None\<close> is the error.
\<close>

definition parse_int64 :: "string \<Rightarrow> int option" where
  "parse_int64 s =
     (let neg = (case s of c # _ \<Rightarrow> c = CHR ''-'' | [] \<Rightarrow> False);
          ds = (case s of c # t \<Rightarrow> if c = CHR ''-'' \<or> c = CHR ''+'' then t else s | [] \<Rightarrow> []);
          v = (if neg then - int (nat_of_digits ds) else int (nat_of_digits ds))
      in if ds \<noteq> [] \<and> list_all is_digit ds \<and> - (2 ^ 63) \<le> v \<and> v < 2 ^ 63 then Some v else None)"

text \<open>\<open>strconv.ParseUint(s, 10, 64)\<close>: no sign is accepted.\<close>

definition parse_uint64 :: "string \<Rightarrow> nat option" where
  "parse_uint64 s =
     (if s \<noteq> [] \<and> list_all is_digit s \<and> nat_of_digits s < 2 ^ 64 then Some (nat_of_digits s) else None)"

definition is_hex :: "char \<Rightarrow> bool" where
  "is_hex c \<longleftrightarrow> (let n = (of_char c :: nat) in
     48 \<le> n \<and> n \<le> 57 \<or> 65 \<le> n \<and> n \<le> 70 \<or> 97 \<le> n \<and> n \<le> 102)"

definition hex_val :: "char \<Rightarrow> nat" where
  "hex_val c = (let n = (of_char c :: nat) in
     if n \<le> 57 then n - 48 else if n \<le> 70 then n - 55 else n - 87)"

definition nat_of_hex :: "string \<Rightarrow> nat" where
  "nat_of_hex s = foldl (\<lambda>n c. 16 * n + hex_val c) 0 s"

definition parse_hex64 :: "string \<Rightarrow> nat option" where
  "parse_hex64 s =
     (if s \<noteq> [] \<and> list_all is_hex s \<and> nat_of_hex s < 2 ^ 64 then Some (nat_of_hex s) else None)"

definition hex_char :: "nat \<Rightarrow> char" where
  "hex_char d = (if d < 10 then char_of (48 + d) else char_of (87 + d))"

text \<open>\<open>strconv.Quote\<close>, the verb \<open>%q\<close> of package fmt, on printable text and the named escapes.\<close>

definition quote_char :: "char \<Rightarrow> string" where
  "quote_char c =
     (if c = CHR 0x22 \<or> c = CHR 0x5C then [CHR 0x5C, c]
      else if c = CHR 0x0A then [CHR 0x5C, CHR ''n'']
      else if c = CHR 0x0D then [CHR 0x5C, CHR ''r'']
      else if c = CHR 0x09 then [CHR 0x5C, CHR ''t''] else [c])"

definition go_quote :: "string \<Rightarrow> string" where
  "go_quote s = [CHR 0x22] @ concat (map quote_char s) @ [CHR 0x22]"

subsection \<open>Durations\<close>

text \<open>
  A \<open>time.Time\<close> is an integer number of nanoseconds; the zero time is \<open>zero_time\<close>. A
  \<open>time.Duration\<close> is a 64-bit count of nanoseconds: arithmetic on it wraps, and \<open>Time.Sub\<close>
  saturates at both ends of its range.
\<close>

type_synonym time = int
type_synonym duration = int

definition wrap64 :: "int \<Rightarrow> int" where
  "wrap64 x = (x + 2 ^ 63) mod 2 ^ 64 - 2 ^ 63"

definition time_sub :: "time \<Rightarrow> time \<Rightarrow> duration" where
  "time_sub t u = max (- (2 ^ 63)) (min (2 ^ 63 - 1) (t - u))"

definition second :: duration where
  "second = 1000000000"

definition zero_time :: time where
  "zero_time = - 62135596800 * 1000000000"

subsection \<open>Domain errors (errors.go)\<close>

datatype error_category =
    CategoryValidation | CategoryNotFound | CategoryConflict | CategoryUnauthorized
  | CategoryForbidden | CategorySecurity | CategoryInternal

text \<open>
  The machine-readable part of \<open>DomainError\<close>. The human-readable message and details are texts
  for display and take no part in any decision of the program, so they are left out.
\<close>

record domain_error =
  err_code :: string
  err_category :: error_category
  err_cycle_path :: "string list"
  err_field :: string

definition new_domain_error :: "string \<Rightarrow> error_category \<Rightarrow> domain_error" where
  "new_domain_error c k = \<lparr>err_code = c, err_category = k, err_cycle_path = [], err_field = []\<rparr>"

definition new_validation_error :: "string \<Rightarrow> domain_error" where
  "new_validation_error c = new_domain_error c CategoryValidation"

definition new_not_found_error :: "string \<Rightarrow> domain_error" where
  "new_not_found_error c = new_domain_error c CategoryNotFound"

definition new_conflict_error :: "string \<Rightarrow> domain_error" where
  "new_conflict_error c = new_domain_error c CategoryConflict"

definition new_security_error :: "string \<Rightarrow> domain_error" where
  "new_security_error c = new_domain_error c CategorySecurity"

definition new_internal_error :: "string \<Rightarrow> domain_error" where
  "new_internal_error c = new_domain_error c CategoryInternal"

text \<open>A function that only returns an error returns \<open>None\<close> for Go's \<open>nil\<close>.\<close>

type_synonym go_error = "domain_error option"
type_synonym 'a result = "domain_error + 'a"

text \<open>The first error of a loop that validates each element and returns at the first failure.\<close>

fun first_error :: "('a \<Rightarrow> go_error) \<Rightarrow> 'a list \<Rightarrow> go_error" where
  "first_error f [] = None"
| "first_error f (x # xs) = (case f x of None \<Rightarrow> first_error f xs | Some e \<Rightarrow> Some e)"

subsection \<open>Go maps that are iterated\<close>

text \<open>
  A Go map whose entries are ranged over is an association list with distinct keys. The order
  of the list is the iteration order; Go leaves it open, and the lemmas hold for every order.
\<close>

type_synonym ('k, 'v) gomap = "('k \<times> 'v) list"

definition gm_get :: "('k, 'v) gomap \<Rightarrow> 'k \<Rightarrow> 'v option" where
  "gm_get m k = map_of m k"

fun gm_put :: "('k, 'v) gomap \<Rightarrow> 'k \<Rightarrow> 'v \<Rightarrow> ('k, 'v) gomap" where
  "gm_put [] k v = [(k, v)]"
| "gm_put ((k', v') # m) k v = (if k' = k then (k, v) # m else (k', v') # gm_put m k v)"

definition gm_del :: "('k, 'v) gomap \<Rightarrow> 'k \<Rightarrow> ('k, 'v) gomap" where
  "gm_del m k = filter (\<lambda>(k', v). k' \<noteq> k) m"

definition gm_ok :: "('k, 'v) gomap \<Rightarrow> bool" where
  "gm_ok m \<longleftrightarrow> distinct (map fst m)"

text \<open>Reading a missing key gives the zero value.\<close>

definition gm_get_or :: "'v \<Rightarrow> ('k, 'v) gomap \<Rightarrow> 'k \<Rightarrow> 'v" where
  "gm_get_or z m k = (case gm_get m k of None \<Rightarrow> z | Some v \<Rightarrow> v)"

subsection \<open>Lemmas on strings\<close>

lemma trim_left_idem [simp]: "trim_left (trim_left s) = trim_left s"
  by (simp add: trim_left_def dropWhile_idem)

lemma trim_left_Nil [simp]: "trim_left [] = []"
  by (simp add: trim_left_def)

lemma trim_space_Nil [simp]: "trim_space [] = []"
  by (simp add: trim_space_def)

lemma dropWhile_rev_dropWhile:
  "dropWhile P (rev (dropWhile P (rev (dropWhile P s)))) = rev (dropWhile P (rev (dropWhile P s)))"
proof (cases "dropWhile P s")
  case Nil
  show ?thesis unfolding Nil by simp
next
  case (Cons x xs)
  then have nx: "\<not> P x" by (simp add: dropWhile_eq_Cons_conv)
  have "dropWhile P (rev xs @ [x]) = dropWhile P (rev xs) @ [x]"
    using nx by (induction xs rule: rev_induct) auto
  with Cons nx show ?thesis by simp
qed

lemma trim_space_idem [simp]: "trim_space (trim_space s) = trim_space s"
  by (simp add: trim_space_def trim_left_def dropWhile_rev_dropWhile dropWhile_idem)

lemma lower_char_idem [simp]: "lower_char (lower_char c) = lower_char c"
  by (simp add: lower_char_def Let_def)

lemma to_lower_idem [simp]: "to_lower (to_lower s) = to_lower s"
  by (simp add: to_lower_def comp_def)

lemma is_space_lower [simp]: "is_space (lower_char c) = is_space c"
proof (cases "65 \<le> (of_char c :: nat) \<and> (of_char c :: nat) \<le> 90")
  case False
  then have "lower_char c = c" by (auto simp: lower_char_def Let_def)
  then show ?thesis by simp
next
  case True
  then have up: "65 \<le> (of_char c :: nat)" "(of_char c :: nat) \<le> 90" by simp_all
  have sp: "is_space d \<Longrightarrow> (of_char d :: nat) \<le> 32" for d
    by (auto simp: is_space_def)
  have "(of_char (lower_char c) :: nat) = of_char c + 32"
    using up by (simp add: lower_char_def Let_def)
  with sp[of c] sp[of "lower_char c"] up show ?thesis by auto
qed

lemma trim_left_to_lower: "trim_left (to_lower s) = to_lower (trim_left s)"
  by (simp add: trim_left_def to_lower_def dropWhile_map comp_def)

lemma to_lower_rev: "to_lower (rev s) = rev (to_lower s)"
  by (simp add: to_lower_def rev_map)

lemma trim_space_to_lower: "trim_space (to_lower s) = to_lower (trim_space s)"
  by (simp add: trim_space_def trim_left_to_lower flip: to_lower_rev)

lemma has_prefix_iff: "has_prefix s p \<longleftrightarrow> prefix p s"
  by (induction s p rule: has_prefix.induct) auto

lemma has_prefix_append [simp]: "has_prefix (p @ s) p"
  by (simp add: has_prefix_iff)

lemma contains_iff: "contains s p \<longleftrightarrow> sublist p s"
proof (induction s)
  case Nil
  show ?case by simp
next
  case (Cons c s)
  then show ?case by (simp add: has_prefix_iff sublist_Cons_right)
qed

lemma cut_at_Some: "cut_at s sep = Some (a, b) \<Longrightarrow> s = a @ sep @ b"
proof (induction s arbitrary: a b)
  case Nil
  then show ?case by (simp split: if_splits)
next
  case (Cons c s)
  show ?case
  proof (cases "has_prefix (c # s) sep")
    case True
    then obtain t where "c # s = sep @ t" by (auto simp: has_prefix_iff prefix_def)
    moreover from Cons.prems True have "a = []" and "b = drop (length sep) (c # s)" by simp_all
    ultimately show ?thesis by simp
  next
    case False
    with Cons show ?thesis by (auto split: option.splits)
  qed
qed

lemma cut_at_None_iff: "cut_at s sep = None \<longleftrightarrow> \<not> contains s sep"
  by (induction s) (auto split: option.splits)

lemmas string_defs = trim_space_def trim_left_def is_space_def to_lower_def to_upper_def
  lower_char_def upper_char_def Let_def

subsection \<open>Lemmas on association lists\<close>

lemma gm_get_put [simp]: "gm_get (gm_put m k v) k' = (if k' = k then Some v else gm_get m k')"
  by (induction m k v rule: gm_put.induct) (auto simp: gm_get_def)

lemma gm_get_del [simp]: "gm_get (gm_del m k) k' = (if k' = k then None else gm_get m k')"
  by (induction m) (auto simp: gm_get_def gm_del_def)

lemma gm_keys_put: "set (map fst (gm_put m k v)) = insert k (set (map fst m))"
  by (induction m k v rule: gm_put.induct) auto

lemma gm_ok_Nil [simp, intro]: "gm_ok []"
  by (simp add: gm_ok_def)

lemma gm_ok_put [simp, intro]: "gm_ok m \<Longrightarrow> gm_ok (gm_put m k v)"
proof (induction m k v rule: gm_put.induct)
  case (2 k' v' m k v)
  then show ?case using gm_keys_put[of m k v] by (auto simp: gm_ok_def)
qed (simp add: gm_ok_def)

lemma gm_ok_del [simp, intro]: "gm_ok m \<Longrightarrow> gm_ok (gm_del m k)"
  by (induction m) (auto simp: gm_ok_def gm_del_def)

lemma gm_get_Some_in: "gm_get m k = Some v \<Longrightarrow> (k, v) \<in> set m"
  by (simp add: gm_get_def map_of_SomeD)

lemma gm_get_iff: "gm_ok m \<Longrightarrow> gm_get m k = Some v \<longleftrightarrow> (k, v) \<in> set m"
  by (simp add: gm_ok_def gm_get_def)

lemma gm_get_Nil [simp]: "gm_get [] k = None"
  by (simp add: gm_get_def)

lemma gm_del_keys: "set (map fst (gm_del m k)) = set (map fst m) - {k}"
  by (auto simp: gm_del_def)

lemma gm_put_new: "gm_get m k = None \<Longrightarrow> gm_put m k v = m @ [(k, v)]"
  by (induction m k v rule: gm_put.induct) (auto simp: gm_get_def split: if_splits)

subsection \<open>Lemmas on errors and sorting\<close>

lemma first_error_None: "first_error f xs = None \<longleftrightarrow> (\<forall>x\<in>set xs. f x = None)"
  by (induction xs) (auto split: option.splits)

lemma first_error_Some: "first_error f xs = Some e \<Longrightarrow> \<exists>x\<in>set xs. f x = Some e"
  by (induction xs) (auto split: option.splits)

lemma err_code_simps [simp]:
  "err_code (new_validation_error c) = c"
  "err_code (new_conflict_error c) = c"
  "err_code (new_security_error c) = c"
  "err_code (new_not_found_error c) = c"
  "err_code (new_internal_error c) = c"
  by (simp_all add: new_validation_error_def new_conflict_error_def new_security_error_def
      new_not_found_error_def new_internal_error_def new_domain_error_def)

lemma err_category_simps [simp]:
  "err_category (new_validation_error c) = CategoryValidation"
  "err_category (new_conflict_error c) = CategoryConflict"
  "err_category (new_security_error c) = CategorySecurity"
  by (simp_all add: new_validation_error_def new_conflict_error_def new_security_error_def
      new_domain_error_def)

lemma sorted_remdups_adj_distinct: "sorted (xs :: 'a::linorder list) \<Longrightarrow> distinct (remdups_adj xs)"
  by (induction xs rule: remdups_adj.induct) (auto simp: less_le)

end
