(* ===== verification/Domain_Enums.thy ===== *)
theory Domain_Enums
  imports Go_Prelude
begin

section \<open>String enumerations (enums.go)\<close>

text \<open>
  The enumerations of \<open>src/internal/domain/enums.go\<close>. Each is an open string type in Go, so a
  value may be any string: \<open>X_IsValid\<close> is the method \<open>IsValid\<close> of type X and \<open>ParseX\<close> the parser
  of user input, which trims and lower-cases before it looks the value up. The eleven parsers of
  the same shape share the locale \<open>string_enum\<close>; \<open>ParseProtocol\<close> has an alias and is treated alone.
\<close>

named_theorems enum_defs \<open>the constants of the enumerations\<close>

definition parse_enum :: "string list \<Rightarrow> string \<Rightarrow> string \<Rightarrow> string result" where
  "parse_enum valid err s =
     (let v = to_lower (trim_space s)
      in if v \<in> set valid then Inr v else Inl (new_validation_error err))"

subsection \<open>Protocols\<close>

definition ProtocolSS :: string where [enum_defs]: "ProtocolSS = ''ss''"
definition ProtocolVMess :: string where [enum_defs]: "ProtocolVMess = ''vmess''"
definition ProtocolVLESS :: string where [enum_defs]: "ProtocolVLESS = ''vless''"
definition ProtocolTrojan :: string where [enum_defs]: "ProtocolTrojan = ''trojan''"
definition ProtocolHysteria2 :: string where [enum_defs]: "ProtocolHysteria2 = ''hysteria2''"
definition ProtocolWireGuard :: string where [enum_defs]: "ProtocolWireGuard = ''wireguard''"
definition ProtocolTUIC :: string where [enum_defs]: "ProtocolTUIC = ''tuic''"
definition ProtocolHTTP :: string where [enum_defs]: "ProtocolHTTP = ''http''"
definition ProtocolSocks5 :: string where [enum_defs]: "ProtocolSocks5 = ''socks5''"
definition ProtocolAnyTLS :: string where [enum_defs]: "ProtocolAnyTLS = ''anytls''"

definition validProtocols :: "string list" where
  [enum_defs]: "validProtocols =
     [ProtocolSS, ProtocolVMess, ProtocolVLESS, ProtocolTrojan, ProtocolHysteria2,
      ProtocolWireGuard, ProtocolTUIC, ProtocolHTTP, ProtocolSocks5, ProtocolAnyTLS]"

definition Protocol_IsValid :: "string \<Rightarrow> bool" where
  "Protocol_IsValid p \<longleftrightarrow> p \<in> set validProtocols"

definition ParseProtocol :: "string \<Rightarrow> string result" where
  "ParseProtocol s =
     (let norm = to_lower (trim_space s);
          p = (if norm = ''socks'' then ''socks5'' else norm)
      in if Protocol_IsValid p then Inr p else Inl (new_validation_error ''invalid_protocol''))"

subsection \<open>ProbeVerdict\<close>

definition VerdictAvailable :: string where [enum_defs]: "VerdictAvailable = ''available''"
definition VerdictRestricted :: string where [enum_defs]: "VerdictRestricted = ''restricted''"
definition VerdictUnknown :: string where [enum_defs]: "VerdictUnknown = ''unknown''"
definition VerdictError :: string where [enum_defs]: "VerdictError = ''error''"
definition VerdictStale :: string where [enum_defs]: "VerdictStale = ''stale''"

definition validVerdicts :: "string list" where
  [enum_defs]: "validVerdicts =
     [VerdictAvailable, VerdictRestricted,
      VerdictUnknown, VerdictError, VerdictStale]"

definition ProbeVerdict_IsValid :: "string \<Rightarrow> bool" where
  "ProbeVerdict_IsValid v \<longleftrightarrow> v \<in> set validVerdicts"

definition ParseProbeVerdict :: "string \<Rightarrow> string result" where
  "ParseProbeVerdict s = parse_enum validVerdicts ''invalid_probe_verdict'' s"

subsection \<open>ProbeRunState\<close>

definition ProbeRunStateQueued :: string where [enum_defs]: "ProbeRunStateQueued = ''queued''"
definition ProbeRunStateRunning :: string where [enum_defs]: "ProbeRunStateRunning = ''running''"
definition ProbeRunStateSucceeded :: string where [enum_defs]: "ProbeRunStateSucceeded = ''succeeded''"
definition ProbeRunStateFailed :: string where [enum_defs]: "ProbeRunStateFailed = ''failed''"
definition ProbeRunStateCancelled :: string where [enum_defs]: "ProbeRunStateCancelled = ''cancelled''"
definition ProbeRunStateExpired :: string where [enum_defs]: "ProbeRunStateExpired = ''expired''"

definition validProbeRunStates :: "string list" where
  [enum_defs]: "validProbeRunStates =
     [ProbeRunStateQueued, ProbeRunStateRunning, ProbeRunStateSucceeded,
      ProbeRunStateFailed, ProbeRunStateCancelled, ProbeRunStateExpired]"

definition ProbeRunState_IsValid :: "string \<Rightarrow> bool" where
  "ProbeRunState_IsValid v \<longleftrightarrow> v \<in> set validProbeRunStates"

definition ParseProbeRunState :: "string \<Rightarrow> string result" where
  "ParseProbeRunState s = parse_enum validProbeRunStates ''invalid_probe_run_state'' s"

definition ProbeRunState_IsTerminal :: "string \<Rightarrow> bool" where
  "ProbeRunState_IsTerminal s \<longleftrightarrow>
     s = ProbeRunStateSucceeded \<or> s = ProbeRunStateFailed \<or>
     s = ProbeRunStateCancelled \<or> s = ProbeRunStateExpired"

subsection \<open>ProbeKind\<close>

definition ProbeKindBaseline :: string where [enum_defs]: "ProbeKindBaseline = ''baseline''"
definition ProbeKindGeo :: string where [enum_defs]: "ProbeKindGeo = ''geo''"
definition ProbeKindStreaming :: string where [enum_defs]: "ProbeKindStreaming = ''streaming''"
definition ProbeKindAI :: string where [enum_defs]: "ProbeKindAI = ''ai''"
definition ProbeKindSpeed :: string where [enum_defs]: "ProbeKindSpeed = ''speed''"
definition ProbeKindIPRisk :: string where [enum_defs]: "ProbeKindIPRisk = ''ip_risk''"

definition validProbeKinds :: "string list" where
  [enum_defs]: "validProbeKinds =
     [ProbeKindBaseline, ProbeKindGeo, ProbeKindStreaming,
      ProbeKindAI, ProbeKindSpeed, ProbeKindIPRisk]"

definition ProbeKind_IsValid :: "string \<Rightarrow> bool" where
  "ProbeKind_IsValid v \<longleftrightarrow> v \<in> set validProbeKinds"

definition ParseProbeKind :: "string \<Rightarrow> string result" where
  "ParseProbeKind s = parse_enum validProbeKinds ''invalid_probe_kind'' s"

subsection \<open>CompilerTarget\<close>

definition TargetMihomo :: string where [enum_defs]: "TargetMihomo = ''mihomo''"
definition TargetSingBox :: string where [enum_defs]: "TargetSingBox = ''singbox''"
definition TargetSurge :: string where [enum_defs]: "TargetSurge = ''surge''"
definition TargetQuantumultX :: string where [enum_defs]: "TargetQuantumultX = ''qx''"

definition validCompilerTargets :: "string list" where
  [enum_defs]: "validCompilerTargets =
     [TargetMihomo, TargetSingBox, TargetSurge, TargetQuantumultX]"

definition CompilerTarget_IsValid :: "string \<Rightarrow> bool" where
  "CompilerTarget_IsValid v \<longleftrightarrow> v \<in> set validCompilerTargets"

definition ParseCompilerTarget :: "string \<Rightarrow> string result" where
  "ParseCompilerTarget s = parse_enum validCompilerTargets ''invalid_compiler_target'' s"

subsection \<open>ConfigurationRevisionState\<close>

definition RevisionStateDraft :: string where [enum_defs]: "RevisionStateDraft = ''draft''"
definition RevisionStateActive :: string where [enum_defs]: "RevisionStateActive = ''active''"
definition RevisionStateArchived :: string where [enum_defs]: "RevisionStateArchived = ''archived''"

definition validRevisionStates :: "string list" where
  [enum_defs]: "validRevisionStates =
     [RevisionStateDraft, RevisionStateActive, RevisionStateArchived]"

definition ConfigurationRevisionState_IsValid :: "string \<Rightarrow> bool" where
  "ConfigurationRevisionState_IsValid v \<longleftrightarrow> v \<in> set validRevisionStates"

definition ParseRevisionState :: "string \<Rightarrow> string result" where
  "ParseRevisionState s = parse_enum validRevisionStates ''invalid_revision_state'' s"

subsection \<open>PublicationState\<close>

definition PublicationStateActive :: string where [enum_defs]: "PublicationStateActive = ''active''"
definition PublicationStateRevoked :: string where [enum_defs]: "PublicationStateRevoked = ''revoked''"
definition PublicationStateDraft :: string where [enum_defs]: "PublicationStateDraft = ''draft''"

definition validPublicationStates :: "string list" where
  [enum_defs]: "validPublicationStates =
     [PublicationStateActive, PublicationStateRevoked, PublicationStateDraft]"

definition PublicationState_IsValid :: "string \<Rightarrow> bool" where
  "PublicationState_IsValid v \<longleftrightarrow> v \<in> set validPublicationStates"

definition ParsePublicationState :: "string \<Rightarrow> string result" where
  "ParsePublicationState s = parse_enum validPublicationStates ''invalid_publication_state'' s"

subsection \<open>FetchOutcome\<close>

definition FetchOutcomeSuccess :: string where [enum_defs]: "FetchOutcomeSuccess = ''success''"
definition FetchOutcomeFailed :: string where [enum_defs]: "FetchOutcomeFailed = ''failed''"
definition FetchOutcomePartial :: string where [enum_defs]: "FetchOutcomePartial = ''partial''"

definition validFetchOutcomes :: "string list" where
  [enum_defs]: "validFetchOutcomes =
     [FetchOutcomeSuccess, FetchOutcomeFailed, FetchOutcomePartial]"

definition FetchOutcome_IsValid :: "string \<Rightarrow> bool" where
  "FetchOutcome_IsValid v \<longleftrightarrow> v \<in> set validFetchOutcomes"

definition ParseFetchOutcome :: "string \<Rightarrow> string result" where
  "ParseFetchOutcome s = parse_enum validFetchOutcomes ''invalid_fetch_outcome'' s"

subsection \<open>GroupType\<close>

definition GroupTypeSelect :: string where [enum_defs]: "GroupTypeSelect = ''select''"
definition GroupTypeURLTest :: string where [enum_defs]: "GroupTypeURLTest = ''urltest''"
definition GroupTypeFallback :: string where [enum_defs]: "GroupTypeFallback = ''fallback''"
definition GroupTypeLoadBalance :: string where [enum_defs]: "GroupTypeLoadBalance = ''loadbalance''"

definition validGroupTypes :: "string list" where
  [enum_defs]: "validGroupTypes =
     [GroupTypeSelect, GroupTypeURLTest,
      GroupTypeFallback, GroupTypeLoadBalance]"

definition GroupType_IsValid :: "string \<Rightarrow> bool" where
  "GroupType_IsValid v \<longleftrightarrow> v \<in> set validGroupTypes"

definition ParseGroupType :: "string \<Rightarrow> string result" where
  "ParseGroupType s = parse_enum validGroupTypes ''invalid_group_type'' s"

subsection \<open>RuleAction\<close>

definition RuleActionAllow :: string where [enum_defs]: "RuleActionAllow = ''allow''"
definition RuleActionReject :: string where [enum_defs]: "RuleActionReject = ''reject''"
definition RuleActionQuarantine :: string where [enum_defs]: "RuleActionQuarantine = ''quarantine''"

definition validRuleActions :: "string list" where
  [enum_defs]: "validRuleActions =
     [RuleActionAllow, RuleActionReject, RuleActionQuarantine]"

definition RuleAction_IsValid :: "string \<Rightarrow> bool" where
  "RuleAction_IsValid v \<longleftrightarrow> v \<in> set validRuleActions"

definition ParseRuleAction :: "string \<Rightarrow> string result" where
  "ParseRuleAction s = parse_enum validRuleActions ''invalid_rule_action'' s"

subsection \<open>ActorKind\<close>

definition ActorKindAdmin :: string where [enum_defs]: "ActorKindAdmin = ''admin''"
definition ActorKindSystem :: string where [enum_defs]: "ActorKindSystem = ''system''"
definition ActorKindWorker :: string where [enum_defs]: "ActorKindWorker = ''worker''"
definition ActorKindAnonymous :: string where [enum_defs]: "ActorKindAnonymous = ''anonymous''"

definition validActorKinds :: "string list" where
  [enum_defs]: "validActorKinds =
     [ActorKindAdmin, ActorKindSystem, ActorKindWorker, ActorKindAnonymous]"

definition ActorKind_IsValid :: "string \<Rightarrow> bool" where
  "ActorKind_IsValid v \<longleftrightarrow> v \<in> set validActorKinds"

definition ParseActorKind :: "string \<Rightarrow> string result" where
  "ParseActorKind s = parse_enum validActorKinds ''invalid_actor_kind'' s"

subsection \<open>AuditResult\<close>

definition AuditResultSuccess :: string where [enum_defs]: "AuditResultSuccess = ''success''"
definition AuditResultFailure :: string where [enum_defs]: "AuditResultFailure = ''failure''"

definition validAuditResults :: "string list" where
  [enum_defs]: "validAuditResults =
     [AuditResultSuccess, AuditResultFailure]"

definition AuditResult_IsValid :: "string \<Rightarrow> bool" where
  "AuditResult_IsValid v \<longleftrightarrow> v \<in> set validAuditResults"

definition ParseAuditResult :: "string \<Rightarrow> string result" where
  "ParseAuditResult s = parse_enum validAuditResults ''invalid_audit_result'' s"

subsection \<open>The contract the parsers share\<close>

text \<open>
  A string enumeration is a list of values, each already trimmed and in lower case, with the
  validity test and the parser of user input.
\<close>

locale string_enum =
  fixes valid :: "string list"
    and is_valid :: "string \<Rightarrow> bool"
    and parse :: "string \<Rightarrow> string result"
    and err :: string
  assumes is_valid_iff: "is_valid v \<longleftrightarrow> v \<in> set valid"
    and parse_eq: "parse s = parse_enum valid err s"
    and canonical: "v \<in> set valid \<Longrightarrow> to_lower (trim_space v) = v"
begin

lemma parse_valid: "is_valid v \<Longrightarrow> parse v = Inr v"
  by (simp add: is_valid_iff parse_eq parse_enum_def canonical)

lemma parse_sound: "parse s = Inr v \<Longrightarrow> is_valid v \<and> v = to_lower (trim_space s)"
  by (auto simp: is_valid_iff parse_eq parse_enum_def Let_def split: if_splits)

lemma parse_error_iff: "(\<exists>e. parse s = Inl e) \<longleftrightarrow> \<not> is_valid (to_lower (trim_space s))"
  by (auto simp: is_valid_iff parse_eq parse_enum_def Let_def)

lemma parse_normal: "parse (to_lower (trim_space s)) = parse s"
  by (simp add: parse_eq parse_enum_def trim_space_to_lower)

lemma parse_stable: "parse s = Inr v \<Longrightarrow> parse v = Inr v"
  using parse_sound parse_valid by blast

end

lemma enum_canonical:
  "list_all (\<lambda>v. to_lower (trim_space v) = v) valid \<Longrightarrow> v \<in> set valid \<Longrightarrow> to_lower (trim_space v) = v"
  by (simp add: list_all_iff)

interpretation verdict_enum: string_enum validVerdicts ProbeVerdict_IsValid ParseProbeVerdict "''invalid_probe_verdict''"
  by unfold_locales
    (simp_all add: ProbeVerdict_IsValid_def ParseProbeVerdict_def, erule enum_canonical[rotated],
      simp add: enum_defs string_defs)

interpretation run_state_enum: string_enum validProbeRunStates ProbeRunState_IsValid ParseProbeRunState "''invalid_probe_run_state''"
  by unfold_locales
    (simp_all add: ProbeRunState_IsValid_def ParseProbeRunState_def, erule enum_canonical[rotated],
      simp add: enum_defs string_defs)

interpretation kind_enum: string_enum validProbeKinds ProbeKind_IsValid ParseProbeKind "''invalid_probe_kind''"
  by unfold_locales
    (simp_all add: ProbeKind_IsValid_def ParseProbeKind_def, erule enum_canonical[rotated],
      simp add: enum_defs string_defs)

interpretation target_enum: string_enum validCompilerTargets CompilerTarget_IsValid ParseCompilerTarget "''invalid_compiler_target''"
  by unfold_locales
    (simp_all add: CompilerTarget_IsValid_def ParseCompilerTarget_def, erule enum_canonical[rotated],
      simp add: enum_defs string_defs)

interpretation revision_state_enum: string_enum validRevisionStates ConfigurationRevisionState_IsValid ParseRevisionState "''invalid_revision_state''"
  by unfold_locales
    (simp_all add: ConfigurationRevisionState_IsValid_def ParseRevisionState_def, erule enum_canonical[rotated],
      simp add: enum_defs string_defs)

interpretation publication_state_enum: string_enum validPublicationStates PublicationState_IsValid ParsePublicationState "''invalid_publication_state''"
  by unfold_locales
    (simp_all add: PublicationState_IsValid_def ParsePublicationState_def, erule enum_canonical[rotated],
      simp add: enum_defs string_defs)

interpretation fetch_outcome_enum: string_enum validFetchOutcomes FetchOutcome_IsValid ParseFetchOutcome "''invalid_fetch_outcome''"
  by unfold_locales
    (simp_all add: FetchOutcome_IsValid_def ParseFetchOutcome_def, erule enum_canonical[rotated],
      simp add: enum_defs string_defs)

interpretation group_type_enum: string_enum validGroupTypes GroupType_IsValid ParseGroupType "''invalid_group_type''"
  by unfold_locales
    (simp_all add: GroupType_IsValid_def ParseGroupType_def, erule enum_canonical[rotated],
      simp add: enum_defs string_defs)

interpretation rule_action_enum: string_enum validRuleActions RuleAction_IsValid ParseRuleAction "''invalid_rule_action''"
  by unfold_locales
    (simp_all add: RuleAction_IsValid_def ParseRuleAction_def, erule enum_canonical[rotated],
      simp add: enum_defs string_defs)

interpretation actor_kind_enum: string_enum validActorKinds ActorKind_IsValid ParseActorKind "''invalid_actor_kind''"
  by unfold_locales
    (simp_all add: ActorKind_IsValid_def ParseActorKind_def, erule enum_canonical[rotated],
      simp add: enum_defs string_defs)

interpretation audit_result_enum: string_enum validAuditResults AuditResult_IsValid ParseAuditResult "''invalid_audit_result''"
  by unfold_locales
    (simp_all add: AuditResult_IsValid_def ParseAuditResult_def, erule enum_canonical[rotated],
      simp add: enum_defs string_defs)

subsection \<open>Properties\<close>

lemma Protocol_canonical: "Protocol_IsValid p \<Longrightarrow> to_lower (trim_space p) = p"
  unfolding Protocol_IsValid_def
  by (erule enum_canonical[rotated]) (simp add: enum_defs string_defs)

lemma ParseProtocol_sound: "ParseProtocol s = Inr p \<Longrightarrow> Protocol_IsValid p"
  by (auto simp: ParseProtocol_def Let_def split: if_splits)

end
