(* ===== verification/Sha256.thy ===== *)
theory Sha256
  imports Go_Prelude "HOL-Library.Word"
begin

section \<open>SHA-256, as crypto/sha256 computes it\<close>

text \<open>
  The digest function the program takes from Go's standard library (FIPS 180-4), over bytes as
  \<^typ>\<open>8 word\<close>. Only its length and its being a function matter to the lemmas.
\<close>

unbundle bit_operations_syntax

type_synonym byte = "8 word"

definition bytes_of :: "string \<Rightarrow> byte list" where
  "bytes_of s = map of_char s"

text \<open>
  The constants are the first 32 bits of the fractional parts of roots of the first primes: square
  roots for the initial state and cube roots for the rounds. \<open>root_digits\<close> finds the bits of an
  integer root from the highest down.
\<close>

fun root_digits :: "nat \<Rightarrow> int \<Rightarrow> int \<Rightarrow> nat \<Rightarrow> int" where
  "root_digits k n r 0 = r"
| "root_digits k n r (Suc b) = root_digits k n (if (r + 2 ^ b) ^ k \<le> n then r + 2 ^ b else r) b"

definition frac_root :: "nat \<Rightarrow> nat \<Rightarrow> 32 word" where
  "frac_root k p = of_int (root_digits k (int p * 2 ^ (32 * k)) 0 40)"

definition primes_below :: "nat \<Rightarrow> nat list" where
  "primes_below n = filter (\<lambda>p. list_all (\<lambda>d. p mod d \<noteq> 0) [2..<p]) [2..<n]"

definition sha256_K :: "32 word list" where
  "sha256_K = map (frac_root 3) (primes_below 312)"

definition sha256_H0 :: "32 word list" where
  "sha256_H0 = map (frac_root 2) (primes_below 20)"

definition rotr32 :: "nat \<Rightarrow> 32 word \<Rightarrow> 32 word" where
  "rotr32 n w = drop_bit n w OR push_bit (32 - n) w"

definition be32 :: "byte list \<Rightarrow> 32 word" where
  "be32 bs = foldl (\<lambda>w b. push_bit 8 w OR ucast b) 0 bs"

definition bytes_be :: "nat \<Rightarrow> nat \<Rightarrow> byte list" where
  "bytes_be k n = map (\<lambda>i. of_nat (n div 256 ^ (k - 1 - i))) [0..<k]"

definition sha256_pad :: "byte list \<Rightarrow> byte list" where
  "sha256_pad m =
     (let l = length m; z = (119 - l mod 64) mod 64
      in m @ [0x80] @ replicate z 0 @ bytes_be 8 (8 * l))"

fun chunks :: "nat \<Rightarrow> nat \<Rightarrow> 'a list \<Rightarrow> 'a list list" where
  "chunks 0 k xs = []"
| "chunks (Suc n) k xs = take k xs # chunks n k (drop k xs)"

definition sigma0 :: "32 word \<Rightarrow> 32 word" where
  "sigma0 x = rotr32 7 x XOR rotr32 18 x XOR drop_bit 3 x"

definition sigma1 :: "32 word \<Rightarrow> 32 word" where
  "sigma1 x = rotr32 17 x XOR rotr32 19 x XOR drop_bit 10 x"

fun schedule :: "nat \<Rightarrow> 32 word list \<Rightarrow> 32 word list" where
  "schedule 0 ws = ws"
| "schedule (Suc n) ws =
     (let t = length ws
      in schedule n (ws @ [sigma1 (ws ! (t - 2)) + ws ! (t - 7) + sigma0 (ws ! (t - 15)) + ws ! (t - 16)]))"

fun sha256_round :: "32 word list \<Rightarrow> 32 word \<times> 32 word \<Rightarrow> 32 word list" where
  "sha256_round [a, b, c, d, e, f, g, h] (k, w) =
     (let s1 = rotr32 6 e XOR rotr32 11 e XOR rotr32 25 e;
          ch = (e AND f) XOR (NOT e AND g);
          t1 = h + s1 + ch + k + w;
          s0 = rotr32 2 a XOR rotr32 13 a XOR rotr32 22 a;
          maj = (a AND b) XOR (a AND c) XOR (b AND c);
          t2 = s0 + maj
      in [t1 + t2, a, b, c, d + t1, e, f, g])"
| "sha256_round vs kw = vs"

definition sha256_block :: "32 word list \<Rightarrow> byte list \<Rightarrow> 32 word list" where
  "sha256_block hs block =
     (let ws = schedule 48 (map be32 (chunks 16 4 block))
      in map2 (+) hs (foldl sha256_round hs (zip sha256_K ws)))"

definition bytes_of_word32 :: "32 word \<Rightarrow> byte list" where
  "bytes_of_word32 w = bytes_be 4 (unat w)"

definition sha256 :: "byte list \<Rightarrow> byte list" where
  "sha256 m =
     (let p = sha256_pad m
      in concat (map bytes_of_word32 (foldl sha256_block sha256_H0 (chunks (length p div 64) 64 p))))"

lemma length_bytes_be [simp]: "length (bytes_be k n) = k"
  by (simp add: bytes_be_def)

lemma length_sha256_round: "length vs = 8 \<Longrightarrow> length (sha256_round vs kw) = 8"
  by (cases "(vs, kw)" rule: sha256_round.cases) (simp_all add: Let_def)

lemma length_foldl_round: "length vs = 8 \<Longrightarrow> length (foldl sha256_round vs kws) = 8"
  by (induction kws arbitrary: vs) (simp_all add: length_sha256_round)

lemma length_sha256_block: "length hs = 8 \<Longrightarrow> length (sha256_block hs b) = 8"
  by (simp add: sha256_block_def Let_def length_foldl_round)

lemma length_foldl_block: "length hs = 8 \<Longrightarrow> length (foldl sha256_block hs bs) = 8"
  by (induction bs arbitrary: hs) (simp_all add: length_sha256_block)

lemma length_concat_words: "length (concat (map bytes_of_word32 ws)) = 4 * length ws"
  by (induction ws) (simp_all add: bytes_of_word32_def)

lemma length_sha256 [simp]: "length (sha256 m) = 32"
proof -
  have "length sha256_H0 = 8" by (simp add: sha256_H0_def primes_below_def upt_rec)
  then show ?thesis by (simp add: sha256_def Let_def length_concat_words length_foldl_block)
qed

end
