(* ===== verification/Identifiers.thy ===== *)
theory Identifiers
  imports Sha256 "HOL-Library.Multiset"
begin

section \<open>Identifiers (id.go)\<close>

text \<open>
  UUIDv7 identifiers and node logical IDs of \<open>src/internal/domain/id.go\<close>, and the identifier of a
  derived group of \<open>src/internal/resolver/graph.go\<close>. The random bytes and the clock that
  \<open>NewUUIDv7\<close> reads are arguments: \<open>None\<close> for the bytes is a failure of the random source.
\<close>

subsection \<open>Regular expressions of fixed width\<close>

definition matches_all :: "(char \<Rightarrow> bool) list \<Rightarrow> string \<Rightarrow> bool" where
  "matches_all ps s = list_all2 (\<lambda>p c. p c) ps s"

definition is_char :: "char \<Rightarrow> char \<Rightarrow> bool" where
  "is_char d c \<longleftrightarrow> c = d"

definition is_variant :: "char \<Rightarrow> bool" where
  "is_variant c \<longleftrightarrow> c \<in> set ''89abAB''"

definition uuidv7Regex :: "(char \<Rightarrow> bool) list" where
  "uuidv7Regex =
     replicate 8 is_hex @ [is_char (CHR ''-'')] @ replicate 4 is_hex @ [is_char (CHR ''-'')] @
     [is_char (CHR ''7'')] @ replicate 3 is_hex @ [is_char (CHR ''-'')] @
     [is_variant] @ replicate 3 is_hex @ [is_char (CHR ''-'')] @ replicate 12 is_hex"

definition IsValidUUIDv7 :: "string \<Rightarrow> bool" where
  "IsValidUUIDv7 s = matches_all uuidv7Regex s"

definition ValidateUUIDv7 :: "string \<Rightarrow> go_error" where
  "ValidateUUIDv7 s = (if IsValidUUIDv7 s then None else Some (new_validation_error ''invalid_uuidv7''))"

subsection \<open>Generation\<close>

definition hex_byte :: "byte \<Rightarrow> string" where
  "hex_byte b = [hex_char (unat b div 16), hex_char (unat b mod 16)]"

definition hex_string :: "byte list \<Rightarrow> string" where
  "hex_string bs = concat (map hex_byte bs)"

text \<open>The text of the sixteen bytes: \<open>fmt.Sprintf("%08x-%04x-%04x-%04x-%012x", ...)\<close>.\<close>

definition format_uuid :: "byte list \<Rightarrow> string" where
  "format_uuid raw =
     hex_string (take 4 raw) @ ''-'' @ hex_string (take 2 (drop 4 raw)) @ ''-'' @
     hex_string (take 2 (drop 6 raw)) @ ''-'' @ hex_string (take 2 (drop 8 raw)) @ ''-'' @
     hex_string (take 6 (drop 10 raw))"

definition set_version :: "byte list \<Rightarrow> byte list" where
  "set_version raw =
     (let raw = raw[6 := (raw ! 6 AND 0x0f) OR 0x70]
      in raw[8 := (raw ! 8 AND 0x3f) OR 0x80])"

definition NewUUIDv7 :: "byte list option \<Rightarrow> 64 word \<Rightarrow> string option" where
  "NewUUIDv7 rand ms =
     (case rand of
        None \<Rightarrow> None
      | Some raw \<Rightarrow>
          (let raw = raw[0 := ucast (drop_bit 40 ms)];
               raw = raw[1 := ucast (drop_bit 32 ms)];
               raw = raw[2 := ucast (drop_bit 24 ms)];
               raw = raw[3 := ucast (drop_bit 16 ms)];
               raw = raw[4 := ucast (drop_bit 8 ms)];
               raw = raw[5 := ucast ms]
           in Some (format_uuid (set_version raw))))"

definition ExtractTimeFromUUIDv7 :: "string \<Rightarrow> time result" where
  "ExtractTimeFromUUIDv7 s =
     (if \<not> IsValidUUIDv7 s then Inl (new_validation_error ''invalid_uuidv7'')
      else let hexPart = take 8 s @ take 4 (drop 9 s)
           in case parse_hex64 hexPart of
                None \<Rightarrow> Inl (new_validation_error ''invalid_uuidv7_timestamp'')
              | Some ms \<Rightarrow> Inr (1000000 * int ms))"

definition deterministicDerivedUUID :: "string \<Rightarrow> string \<Rightarrow> string" where
  "deterministicDerivedUUID parentID childID =
     (let hash = sha256 (bytes_of (''derived-group:'' @ parentID @ '':'' @ childID))
      in format_uuid (set_version (take 16 hash)))"

subsection \<open>Node logical IDs\<close>

definition IsValidLogicalID :: "string \<Rightarrow> bool" where
  "IsValidLogicalID s =
     (let t = (if has_prefix s ''node_'' then drop 5 s else s)
      in 16 \<le> length t \<and> length t \<le> 64 \<and> list_all is_hex t)"

definition sensitiveKeys :: "string list" where
  "sensitiveKeys =
     [''password'', ''secret'', ''token'', ''key'', ''private_key'', ''private-key'', ''public_key'',
      ''public-key'', ''preshared_key'', ''pre_shared_key'', ''pre-shared-key'', ''psk'',
      ''obfs-password'', ''obfs_password'', ''uuid'', ''auth'', ''username'', ''user'']"

definition nodeCanonical :: "string \<Rightarrow> string \<Rightarrow> int \<Rightarrow> (string, string) gomap \<Rightarrow> string" where
  "nodeCanonical protocol server port transportParams =
     (let normProtocol = to_lower (trim_space protocol);
          normServer = to_lower (trim_space server);
          keys = filter (\<lambda>k. k \<notin> set sensitiveKeys)
                   (map (\<lambda>(k, v). to_lower (trim_space k)) transportParams);
          paramParts = map (\<lambda>k. k @ ''='' @ trim_space (gm_get_or [] transportParams k)) (sort keys)
      in normProtocol @ ''|'' @ normServer @ ''|'' @ itoa port @ ''|'' @ join paramParts ''&'')"

definition ComputeNodeLogicalID :: "string \<Rightarrow> string \<Rightarrow> int \<Rightarrow> (string, string) gomap \<Rightarrow> string" where
  "ComputeNodeLogicalID protocol server port transportParams =
     (let sum = sha256 (bytes_of (nodeCanonical protocol server port transportParams))
      in ''node_'' @ hex_string (take 16 sum))"

subsection \<open>Hexadecimal text\<close>

lemma hex_char_is_hex [simp]: "d < 16 \<Longrightarrow> is_hex (hex_char d)"
  by (auto simp: is_hex_def hex_char_def Let_def)

lemma hex_val_hex_char [simp]: "d < 16 \<Longrightarrow> hex_val (hex_char d) = d"
  by (auto simp: hex_val_def hex_char_def Let_def)

lemma unat_byte_div_16 [simp]: "unat (b :: byte) div 16 < 16"
  using unsigned_less[of b, where 'a = nat] by simp

lemma hex_byte_is_hex: "list_all is_hex (hex_byte b)"
  by (simp add: hex_byte_def)

lemma hex_string_is_hex: "list_all is_hex (hex_string bs)"
  by (induction bs) (simp_all add: hex_string_def hex_byte_is_hex)

lemma length_hex_string [simp]: "length (hex_string bs) = 2 * length bs"
  by (induction bs) (simp_all add: hex_string_def hex_byte_def)

lemma hex_string_append: "hex_string (xs @ ys) = hex_string xs @ hex_string ys"
  by (simp add: hex_string_def)

definition be_value :: "nat \<Rightarrow> byte list \<Rightarrow> nat" where
  "be_value n bs = foldl (\<lambda>n b. 256 * n + unat b) n bs"

lemma nat_of_hex_hex_string: "nat_of_hex (hex_string bs) = be_value 0 bs"
proof -
  have "foldl (\<lambda>n c. 16 * n + hex_val c) n (hex_string bs) = be_value n bs" for n
  proof (induction bs arbitrary: n)
    case Nil
    show ?case by (simp add: hex_string_def be_value_def)
  next
    case (Cons b bs)
    have "16 * (16 * n + unat b div 16) + unat b mod 16 = 256 * n + unat b" by simp
    then have "foldl (\<lambda>n c. 16 * n + hex_val c) n (hex_string (b # bs)) = be_value (256 * n + unat b) bs"
      using Cons.IH by (simp add: hex_string_def hex_byte_def add.commute)
    then show ?case by (simp add: be_value_def)
  qed
  then show ?thesis by (simp add: nat_of_hex_def)
qed

subsection \<open>Every generated identifier is a valid UUIDv7\<close>

lemma matches_hex: "list_all is_hex s \<Longrightarrow> length s = n \<Longrightarrow> matches_all (replicate n is_hex) s"
  by (auto simp: matches_all_def list_all2_conv_all_nth list_all_length)

lemma matches_all_append:
  "matches_all ps s \<Longrightarrow> matches_all qs t \<Longrightarrow> matches_all (ps @ qs) (s @ t)"
  by (simp add: matches_all_def list_all2_appendI)

lemma list_update_Cons_numeral [simp]:
  "(x # xs)[numeral k := v] = x # xs[pred_numeral k := v]"
  by (simp add: numeral_eq_Suc)

lemma version_nibble: "unat ((b AND 0x0f) OR 0x70 :: byte) div 16 = 7"
proof -
  have "drop_bit 4 ((b AND 0x0f) OR 0x70 :: byte) = 7"
    by (rule bit_word_eqI) (auto simp: bit_simps numeral_eq_Suc less_Suc_eq)
  then have "unat (drop_bit 4 ((b AND 0x0f) OR 0x70 :: byte)) = unat (7 :: byte)" by (rule arg_cong)
  then show ?thesis by (simp add: unat_drop_bit_eq drop_bit_eq_div unat_div_distrib)
qed

lemma variant_nibble: "unat ((b AND 0x3f) OR 0x80 :: byte) div 16 \<in> {8, 9, 10, 11}"
proof -
  have "drop_bit 6 ((b AND 0x3f) OR 0x80 :: byte) = 2"
    by (rule bit_word_eqI) (auto simp: bit_simps numeral_eq_Suc less_Suc_eq)
  then have "unat (drop_bit 6 ((b AND 0x3f) OR 0x80 :: byte)) = unat (2 :: byte)" by (rule arg_cong)
  then have "unat ((b AND 0x3f) OR 0x80 :: byte) div 64 = 2"
    by (simp add: unat_drop_bit_eq drop_bit_eq_div unat_div_distrib)
  then show ?thesis by auto
qed

lemma hex_char_version: "hex_char 7 = CHR ''7''"
  by code_simp

lemma is_variant_hex_char: "is_variant (hex_char 8)" "is_variant (hex_char 9)"
  "is_variant (hex_char 10)" "is_variant (hex_char 11)"
  by code_simp+

lemma variant_char: "is_variant (hex_char (unat ((b AND 0x3f) OR 0x80 :: byte) div 16))"
  using variant_nibble[of b] is_variant_hex_char by auto

lemma length_set_version [simp]: "length (set_version raw) = length raw"
  by (simp add: set_version_def Let_def)

lemma take_set_version [simp]: "take 6 (set_version raw) = take 6 raw"
  by (simp add: set_version_def Let_def)

lemma take_2_drop: "Suc i < length xs \<Longrightarrow> take 2 (drop i xs) = [xs ! i, xs ! Suc i]"
  by (simp add: Cons_nth_drop_Suc[symmetric] take_Suc_conv_app_nth numeral_2_eq_2)

lemma version_part:
  assumes "length raw = 16"
  shows "matches_all (is_char (CHR ''7'') # replicate 3 is_hex)
           (hex_string (take 2 (drop 6 (set_version raw))))"
proof -
  have "set_version raw ! 6 = (raw ! 6 AND 0x0f) OR 0x70"
    using assms by (simp add: set_version_def Let_def)
  then show ?thesis
    using assms take_2_drop[of 6 "set_version raw"]
    by (simp add: hex_string_def hex_byte_def matches_all_def is_char_def version_nibble
          hex_char_version numeral_3_eq_3)
qed

lemma variant_part:
  assumes "length raw = 16"
  shows "matches_all (is_variant # replicate 3 is_hex)
           (hex_string (take 2 (drop 8 (set_version raw))))"
proof -
  have "set_version raw ! 8 = (raw ! 8 AND 0x3f) OR 0x80"
    using assms by (simp add: set_version_def Let_def)
  then show ?thesis
    using assms take_2_drop[of 8 "set_version raw"]
    by (simp add: hex_string_def hex_byte_def matches_all_def variant_char numeral_3_eq_3)
qed

lemma hex_part: "2 * length bs = n \<Longrightarrow> matches_all (replicate n is_hex) (hex_string bs)"
  by (rule matches_hex) (simp_all add: hex_string_is_hex)

lemma dash_part: "matches_all [is_char (CHR ''-'')] ''-''"
  by (simp add: matches_all_def is_char_def)

lemma format_uuid_valid:
  assumes len: "length raw = 16"
  shows "IsValidUUIDv7 (format_uuid (set_version raw))"
proof -
  let ?dash = "[is_char (CHR ''-'')]"
  have "matches_all
      (replicate 8 is_hex @ ?dash @ replicate 4 is_hex @ ?dash @ (is_char (CHR ''7'') # replicate 3 is_hex) @
       ?dash @ (is_variant # replicate 3 is_hex) @ ?dash @ replicate 12 is_hex)
      (format_uuid (set_version raw))"
    unfolding format_uuid_def using len
    by (intro matches_all_append version_part variant_part hex_part dash_part) simp_all
  then show ?thesis by (simp add: IsValidUUIDv7_def uuidv7Regex_def)
qed

definition stamp :: "64 word \<Rightarrow> byte list" where
  "stamp ms = [ucast (drop_bit 40 ms), ucast (drop_bit 32 ms), ucast (drop_bit 24 ms),
               ucast (drop_bit 16 ms), ucast (drop_bit 8 ms), ucast ms]"

lemma NewUUIDv7_eq:
  assumes "length raw = 16"
  shows "NewUUIDv7 (Some raw) ms = Some (format_uuid (set_version (stamp ms @ drop 6 raw)))"
proof -
  have "raw[0 := a, 1 := b, 2 := c, 3 := d, 4 := e, 5 := f] = [a, b, c, d, e, f] @ drop 6 raw"
    for a b c d e f
    using assms by (intro nth_equalityI) (auto simp: nth_list_update nth_append nth_Cons' less_Suc_eq)
  then show ?thesis by (simp add: NewUUIDv7_def stamp_def Let_def)
qed

lemma format_uuid_time_part:
  assumes "length raw = 16"
  shows "take 8 (format_uuid raw) @ take 4 (drop 9 (format_uuid raw)) = hex_string (take 6 raw)"
proof -
  have "take 6 raw = take 4 raw @ take 2 (drop 4 raw)"
    using take_add[of 4 2 raw] by simp
  with assms show ?thesis
    by (simp add: format_uuid_def hex_string_append)
qed

lemma unat_ucast_byte: "unat (ucast (drop_bit k (ms :: 64 word)) :: byte) = unat ms div 2 ^ k mod 256"
  unfolding unsigned_ucast_eq unat_drop_bit_eq by (simp add: drop_bit_eq_div take_bit_eq_mod)

lemma mod_256_step: "(n :: nat) mod (256 * m) = 256 * (n div 256 mod m) + n mod 256"
  by (simp add: mod_mult2_eq)

lemma be_value_stamp: "be_value 0 (stamp ms) = unat ms mod 2 ^ 48"
proof -
  let ?n = "unat ms"
  have "?n mod 2 ^ 48 = ?n mod (256 * (256 * (256 * (256 * (256 * 256)))))" by simp
  also have "\<dots> = 256 * (256 * (256 * (256 * (256 * (?n div 2 ^ 40 mod 256) + ?n div 2 ^ 32 mod 256)
      + ?n div 2 ^ 24 mod 256) + ?n div 2 ^ 16 mod 256) + ?n div 2 ^ 8 mod 256) + ?n mod 256"
    unfolding mod_256_step by (simp add: div_mult2_eq[symmetric])
  also have "\<dots> = be_value 0 (stamp ms)"
    using unat_ucast_byte[of 0 ms] unfolding stamp_def be_value_def by (simp add: unat_ucast_byte)
  finally show ?thesis by simp
qed


text \<open>
  C37. With sixteen random bytes, \<open>NewUUIDv7\<close> returns a well-formed UUIDv7, and
  \<open>ExtractTimeFromUUIDv7\<close> reads back the creation time: the milliseconds it was given, of which the
  48 low bits are kept.
\<close>

theorem NewUUIDv7_roundtrip:
  assumes "length raw = 16"
  shows "\<exists>s. NewUUIDv7 (Some raw) ms = Some s \<and> IsValidUUIDv7 s \<and>
             ExtractTimeFromUUIDv7 s = Inr (1000000 * (uint ms mod 2 ^ 48))"
proof -
  let ?raw = "set_version (stamp ms @ drop 6 raw)"
  have len: "length ?raw = 16" using assms by (simp add: stamp_def)
  have "take 6 ?raw = stamp ms" by (simp add: stamp_def)
  then have hex: "take 8 (format_uuid ?raw) @ take 4 (drop 9 (format_uuid ?raw)) = hex_string (stamp ms)"
    using format_uuid_time_part[OF len] by simp
  have "hex_string (stamp ms) \<noteq> []" by (simp add: hex_string_def stamp_def hex_byte_def)
  moreover have "unat ms mod 2 ^ 48 < 2 ^ 64" by (rule less_trans[OF mod_less_divisor]) simp_all
  ultimately have "parse_hex64 (hex_string (stamp ms)) = Some (unat ms mod 2 ^ 48)"
    unfolding parse_hex64_def nat_of_hex_hex_string be_value_stamp by (simp add: hex_string_is_hex)
  moreover have "IsValidUUIDv7 (format_uuid ?raw)"
    using assms by (intro format_uuid_valid) (simp add: stamp_def)
  ultimately have "ExtractTimeFromUUIDv7 (format_uuid ?raw) = Inr (1000000 * (uint ms mod 2 ^ 48))"
    unfolding ExtractTimeFromUUIDv7_def Let_def hex by (simp add: zmod_int)
  with \<open>IsValidUUIDv7 (format_uuid ?raw)\<close> NewUUIDv7_eq[OF assms, of ms] show ?thesis by blast
qed

theorem NewUUIDv7_roundtrip_witness:
  "\<exists>s. NewUUIDv7 (Some (replicate 16 0xab)) 1700000000000 = Some s \<and> IsValidUUIDv7 s \<and>
       ExtractTimeFromUUIDv7 s = Inr 1700000000000000000"
  using NewUUIDv7_roundtrip[of "replicate 16 0xab" 1700000000000] by simp

text \<open>
  The identifier of a derived group is a well-formed UUIDv7 for every pair of parent and child.
\<close>

theorem deterministicDerivedUUID_valid: "IsValidUUIDv7 (deterministicDerivedUUID parentID childID)"
  unfolding deterministicDerivedUUID_def Let_def by (rule format_uuid_valid) simp

subsection \<open>Logical IDs\<close>

definition nonSensitive :: "string \<times> string \<Rightarrow> bool" where
  "nonSensitive kv \<longleftrightarrow> to_lower (trim_space (fst kv)) \<notin> set sensitiveKeys"

lemma canonical_keys:
  "filter (\<lambda>k. k \<notin> set sensitiveKeys) (map (\<lambda>(k, v). to_lower (trim_space k)) m) =
   map (\<lambda>(k, v). to_lower (trim_space k)) (filter nonSensitive m)"
  by (induction m) (auto simp: nonSensitive_def)

lemma gm_get_nonSensitive:
  assumes "to_lower (trim_space k) \<notin> set sensitiveKeys"
  shows "gm_get (filter nonSensitive m) k = gm_get m k"
  using assms by (induction m) (auto simp: nonSensitive_def gm_get_def)

lemma gm_get_cong_mset:
  assumes "gm_ok m" "mset m = mset m'"
  shows "gm_get m = gm_get m'"
proof
  fix k
  have "gm_ok m'"
    using assms unfolding gm_ok_def
    by (metis mset_eq_imp_distinct_iff mset_map)
  with assms show "gm_get m k = gm_get m' k"
    using mset_eq_setD[OF assms(2)] by (metis gm_get_iff not_None_eq)
qed

lemma sort_cong_mset: "mset xs = mset ys \<Longrightarrow> sort xs = sort ys"
  by (metis mset_sort properties_for_sort sorted_sort)

lemma nodeCanonical_cong:
  assumes "gm_ok m" "gm_ok m'"
    and eq: "mset (filter nonSensitive m) = mset (filter nonSensitive m')"
  shows "nodeCanonical protocol server port m = nodeCanonical protocol server port m'"
proof -
  let ?norm = "\<lambda>(k :: string, v :: string). to_lower (trim_space k)"
  have sorts: "sort (map ?norm (filter nonSensitive m)) = sort (map ?norm (filter nonSensitive m'))"
    by (rule sort_cong_mset) (simp only: mset_map eq)
  have ok: "gm_ok (filter nonSensitive m)"
    using assms(1) by (auto simp: gm_ok_def distinct_map_filter)
  have "gm_get_or [] m k = gm_get_or [] m' k" if "k \<in> ?norm ` set (filter nonSensitive m)" for k
  proof -
    have "to_lower (trim_space k) \<notin> set sensitiveKeys"
      using that by (auto simp: nonSensitive_def trim_space_to_lower)
    then show ?thesis
      using gm_get_cong_mset[OF ok eq] gm_get_nonSensitive[of k m] gm_get_nonSensitive[of k m']
      by (simp add: gm_get_or_def)
  qed
  then have "map (\<lambda>k. k @ ''='' @ trim_space (gm_get_or [] m k)) (sort (map ?norm (filter nonSensitive m))) =
             map (\<lambda>k. k @ ''='' @ trim_space (gm_get_or [] m' k)) (sort (map ?norm (filter nonSensitive m)))"
    by (intro map_cong refl) simp
  with sorts show ?thesis
    unfolding nodeCanonical_def canonical_keys Let_def by (simp only:)
qed

text \<open>
  C38. The logical ID of a node does not depend on the sensitive transport parameters, nor on the
  order in which the parameter map is ranged over: two maps with the same non-sensitive entries give
  the same identifier, whatever passwords, keys and user names they hold. The identifier is
  well-formed.
\<close>

theorem ComputeNodeLogicalID_ignores_secrets:
  assumes "gm_ok m" "gm_ok m'"
    and "mset (filter nonSensitive m) = mset (filter nonSensitive m')"
  shows "ComputeNodeLogicalID protocol server port m = ComputeNodeLogicalID protocol server port m' \<and>
         IsValidLogicalID (ComputeNodeLogicalID protocol server port m)"
  using nodeCanonical_cong[OF assms, of protocol server port]
  by (simp add: ComputeNodeLogicalID_def Let_def IsValidLogicalID_def has_prefix_iff hex_string_is_hex)

theorem ComputeNodeLogicalID_ignores_secrets_witness:
  "ComputeNodeLogicalID ''trojan'' ''a.example'' 443
     [(''Password'', ''one''), (''sni'', ''b.example''), (''network'', ''ws'')] =
   ComputeNodeLogicalID ''trojan'' ''a.example'' 443
     [(''network'', ''ws''), (''sni'', ''b.example''), (''password'', ''two''), (''uuid'', ''three'')]"
proof -
  let ?m = "[(''Password'', ''one''), (''sni'', ''b.example''), (''network'', ''ws'')]"
  let ?m' = "[(''network'', ''ws''), (''sni'', ''b.example''), (''password'', ''two''), (''uuid'', ''three'')]"
  have "gm_ok ?m" "gm_ok ?m'" by (simp_all add: gm_ok_def)
  moreover have "filter nonSensitive ?m = [(''sni'', ''b.example''), (''network'', ''ws'')]"
    "filter nonSensitive ?m' = [(''network'', ''ws''), (''sni'', ''b.example'')]"
    by code_simp+
  ultimately show ?thesis
    using ComputeNodeLogicalID_ignores_secrets[of ?m ?m'] by (simp add: add_mset_commute)
qed

text \<open>
  The value of a parameter whose key is not already trimmed and in lower case does not enter the
  logical ID: the value is read back under the normalised key, where the map holds nothing. Two nodes
  that differ only in such a value have the same identifier.
\<close>

theorem ComputeNodeLogicalID_mixed_case_value:
  assumes "to_lower (trim_space k) \<noteq> k"
  shows "ComputeNodeLogicalID protocol server port [(k, v)] =
         ComputeNodeLogicalID protocol server port [(k, w)]"
  using assms by (simp add: ComputeNodeLogicalID_def nodeCanonical_def gm_get_or_def gm_get_def Let_def)

theorem ComputeNodeLogicalID_mixed_case_value_witness:
  "ComputeNodeLogicalID ''vless'' ''a.example'' 443 [(''extraPath'', ''/one'')] =
   ComputeNodeLogicalID ''vless'' ''a.example'' 443 [(''extraPath'', ''/two'')]"
  by (rule ComputeNodeLogicalID_mixed_case_value) code_simp

end
