(* ===== verification/Domain_Model.thy ===== *)
theory Domain_Model
  imports Domain_Enums Identifiers
begin

section \<open>Nodes and observations (node.go, node\_credential.go, probe.go)\<close>

text \<open>
  The data that the filters, the resolver and the compiler pass around. Pointers that may be nil are
  \<open>option\<close> values. \<open>ProbeObservation\<close> leaves out the evidence payload (\<open>Attempt\<close>, \<open>EvidenceData\<close>,
  \<open>Region\<close>, \<open>SubTier\<close>, \<open>Throughput\<close>, \<open>RiskScore\<close>, \<open>Platforms\<close>, \<open>SafeDetail\<close>), which is stored and
  shown but not read by the code modelled here.
\<close>

record InboundProtocolCredential =
  Cred_Password :: string
  Cred_UUID :: string
  Cred_Method :: string
  Cred_AlterID :: int
  Cred_PrivateKey :: string
  Cred_PublicKey :: string
  Cred_PresharedKey :: string
  Cred_PreSharedKey :: string
  Cred_LocalAddress :: "string list"
  Cred_Reserved :: "8 word list"
  Cred_MTU :: int
  Cred_DNS :: "string list"
  Cred_CongestionControl :: string
  Cred_UDPRelayMode :: string
  Cred_ALPN :: "string list"
  Cred_SNI :: string
  Cred_DisableSNI :: bool
  Cred_Username :: string
  Cred_Transport :: "(string, string) gomap"

definition EffectivePreSharedKey :: "InboundProtocolCredential \<Rightarrow> string" where
  "EffectivePreSharedKey c =
     (let s = trim_space (Cred_PreSharedKey c)
      in if s \<noteq> [] then s else trim_space (Cred_PresharedKey c))"

definition IsTruthy :: "string \<Rightarrow> bool" where
  "IsTruthy v =
     (let v = to_lower (trim_space v) in v = ''true'' \<or> v = ''1'' \<or> v = ''yes'' \<or> v = ''on'')"

definition insecureKey :: "string \<Rightarrow> bool" where
  "insecureKey k =
     (let kLower = to_lower (trim_space k)
      in contains kLower ''insecure'' \<or> contains kLower ''skip_cert'' \<or>
         contains kLower ''skip-cert'' \<or> contains kLower ''skipcert'')"

fun HasInsecureTransport :: "(string, string) gomap \<Rightarrow> bool" where
  "HasInsecureTransport [] = False"
| "HasInsecureTransport ((k, v) # m) =
     (if insecureKey k \<and> IsTruthy v then True else HasInsecureTransport m)"

fun first_non_empty :: "string list \<Rightarrow> (string, string) gomap \<Rightarrow> string" where
  "first_non_empty [] m = []"
| "first_non_empty (k # ks) m =
     (let v = trim_space (gm_get_or [] m k) in if v \<noteq> [] then v else first_non_empty ks m)"

definition ExtractHy2Ports :: "(string, string) gomap \<Rightarrow> string" where
  "ExtractHy2Ports m = first_non_empty [''ports'', ''server_ports'', ''hy2_ports''] m"

definition HasTUICDisableSNI :: "(string, string) gomap \<Rightarrow> bool" where
  "HasTUICDisableSNI m =
     list_ex (\<lambda>k. IsTruthy (gm_get_or [] m k)) [''disable_sni'', ''disable-sni'', ''tuic_disable_sni'']"

record Node =
  Node_LogicalID :: string
  Node_Protocol :: string
  Node_DisplayName :: string
  Node_Server :: string
  Node_Port :: int
  Node_Credentials :: InboundProtocolCredential
  Node_Active :: bool
  Node_ConnectionRevision :: int
  Node_CreatedAt :: time
  Node_UpdatedAt :: time

record NodeSource =
  NodeSource_NodeLogicalID :: string
  NodeSource_SubscriptionID :: string
  NodeSource_LastSeenFetchID :: string

record ProbeObservation =
  Obs_ID :: string
  Obs_ProbeRunID :: string
  Obs_NodeLogicalID :: string
  Obs_Kind :: string
  Obs_Verdict :: string
  Obs_EvidenceDigest :: string
  Obs_ObservedAt :: time
  Obs_LatencyMS :: int
  Obs_RedactedSummary :: string
  Obs_ConnectionRevision :: "int option"

text \<open>The zero values of the structs, from which concrete instances are built.\<close>

definition zero_credential :: InboundProtocolCredential where
  "zero_credential =
     \<lparr>Cred_Password = [], Cred_UUID = [], Cred_Method = [], Cred_AlterID = 0, Cred_PrivateKey = [],
      Cred_PublicKey = [], Cred_PresharedKey = [], Cred_PreSharedKey = [], Cred_LocalAddress = [],
      Cred_Reserved = [], Cred_MTU = 0, Cred_DNS = [], Cred_CongestionControl = [],
      Cred_UDPRelayMode = [], Cred_ALPN = [], Cred_SNI = [], Cred_DisableSNI = False,
      Cred_Username = [], Cred_Transport = []\<rparr>"

definition zero_Node :: Node where
  "zero_Node =
     \<lparr>Node_LogicalID = [], Node_Protocol = [], Node_DisplayName = [], Node_Server = [], Node_Port = 0,
      Node_Credentials = zero_credential, Node_Active = False, Node_ConnectionRevision = 0,
      Node_CreatedAt = zero_time, Node_UpdatedAt = zero_time\<rparr>"

definition zero_ProbeObservation :: ProbeObservation where
  "zero_ProbeObservation =
     \<lparr>Obs_ID = [], Obs_ProbeRunID = [], Obs_NodeLogicalID = [], Obs_Kind = [], Obs_Verdict = [],
      Obs_EvidenceDigest = [], Obs_ObservedAt = zero_time, Obs_LatencyMS = 0, Obs_RedactedSummary = [],
      Obs_ConnectionRevision = None\<rparr>"

text \<open>The insecure flag is found whatever the order in which the map is ranged over.\<close>

lemma HasInsecureTransport_iff:
  "HasInsecureTransport m \<longleftrightarrow> (\<exists>(k, v) \<in> set m. insecureKey k \<and> IsTruthy v)"
  by (induction m rule: HasInsecureTransport.induct) auto

end
