(* ===== verification/Node_Filter.thy ===== *)
theory Node_Filter
  imports Domain_Model
begin

section \<open>Node filters (node\_filter.go)\<close>

text \<open>
  Filter conditions, their validation and their evaluation on a node
  (\<open>src/internal/domain/node_filter.go\<close>). The two regular-expression engines (package regexp and the
  backtracking package regexp2) are a parameter \<open>regex_engines\<close>: \<open>re2_compile\<close> is
  \<open>regexp.Compile\<close> and \<open>bt_compile\<close> is \<open>regexp2.Compile\<close>, whose matcher may also fail, which is
  how a match that exceeds its time limit appears. Errors of the engines are their texts. The
  cache of compiled expressions is keyed by the trimmed pattern and returns what compiling would
  return, so it is not part of the model.
\<close>

record regex_engines =
  re2_compile :: "string \<Rightarrow> string + (string \<Rightarrow> bool)"
  bt_compile :: "string \<Rightarrow> string + (string \<Rightarrow> string + bool)"

text \<open>Engines for the fragment of expressions without operators: the text after \<open>(?i)\<close> is searched.\<close>

definition literal_engines :: regex_engines where
  "literal_engines =
     \<lparr>re2_compile = \<lambda>pat. Inr (\<lambda>input. contains (to_lower input) (to_lower (drop 4 pat))),
      bt_compile = \<lambda>pat. Inl ''unsupported''\<rparr>"

datatype filterRegex = Re2 "string \<Rightarrow> bool" | Backtracking "string \<Rightarrow> string + bool"

definition filterRegexInputLimit :: nat where
  "filterRegexInputLimit = 4096"

definition compileFilterRegex :: "regex_engines \<Rightarrow> string \<Rightarrow> string + filterRegex" where
  "compileFilterRegex eng pattern =
     (let pattern = trim_space pattern
      in if length pattern = 0 \<or> 1024 < length pattern
         then Inl ''regex pattern must contain 1 to 1024 bytes''
         else let pat = (if has_prefix pattern ''(?i)'' then pattern else ''(?i)'' @ pattern)
              in case re2_compile eng pat of
                   Inr re \<Rightarrow> Inr (Re2 re)
                 | Inl _ \<Rightarrow> (case bt_compile eng pat of
                     Inl e \<Rightarrow> Inl e
                   | Inr re \<Rightarrow> Inr (Backtracking re)))"

definition match_regex :: "filterRegex \<Rightarrow> string \<Rightarrow> string + bool" where
  "match_regex r input =
     (if filterRegexInputLimit < length input
      then Inl (''regex input exceeds '' @ itoa (int filterRegexInputLimit) @ '' bytes'')
      else case r of Re2 re \<Rightarrow> Inr (re input) | Backtracking re \<Rightarrow> re input)"

subsection \<open>Fields and operators\<close>

definition FilterFieldDisplayName :: string where [enum_defs]: "FilterFieldDisplayName = ''display_name''"
definition FilterFieldProtocol :: string where [enum_defs]: "FilterFieldProtocol = ''protocol''"
definition FilterFieldSourceSubscriptions :: string where
  [enum_defs]: "FilterFieldSourceSubscriptions = ''source_subscription_ids''"
definition FilterFieldProbeVerdict :: string where [enum_defs]: "FilterFieldProbeVerdict = ''probe_verdict''"
definition FilterFieldProbeLatencyMS :: string where
  [enum_defs]: "FilterFieldProbeLatencyMS = ''probe_latency_ms''"

definition validFilterFields :: "string list" where
  [enum_defs]: "validFilterFields =
     [FilterFieldDisplayName, FilterFieldProtocol, FilterFieldSourceSubscriptions,
      FilterFieldProbeVerdict, FilterFieldProbeLatencyMS]"

definition FilterField_IsValid :: "string \<Rightarrow> bool" where
  "FilterField_IsValid f \<longleftrightarrow> f \<in> set validFilterFields"

definition ParseFilterField :: "string \<Rightarrow> string result" where
  "ParseFilterField s = parse_enum validFilterFields ''invalid_filter_field'' s"

definition FilterOpContains :: string where [enum_defs]: "FilterOpContains = ''contains''"
definition FilterOpNotContains :: string where [enum_defs]: "FilterOpNotContains = ''not_contains''"
definition FilterOpRegex :: string where [enum_defs]: "FilterOpRegex = ''regex''"
definition FilterOpNotRegex :: string where [enum_defs]: "FilterOpNotRegex = ''not_regex''"
definition FilterOpEquals :: string where [enum_defs]: "FilterOpEquals = ''equals''"
definition FilterOpNotEquals :: string where [enum_defs]: "FilterOpNotEquals = ''not_equals''"
definition FilterOpLTE :: string where [enum_defs]: "FilterOpLTE = ''lte''"

definition validFilterOps :: "string list" where
  [enum_defs]: "validFilterOps =
     [FilterOpContains, FilterOpNotContains, FilterOpRegex, FilterOpNotRegex, FilterOpEquals,
      FilterOpNotEquals, FilterOpLTE]"

definition FilterOp_IsValid :: "string \<Rightarrow> bool" where
  "FilterOp_IsValid f \<longleftrightarrow> f \<in> set validFilterOps"

definition ParseFilterOp :: "string \<Rightarrow> string result" where
  "ParseFilterOp s = parse_enum validFilterOps ''invalid_filter_op'' s"

subsection \<open>Conditions\<close>

record FilterCondition =
  Cond_Field :: string
  Cond_Op :: string
  Cond_Value :: string
  Cond_ProbeKind :: "string option"
  Cond_FreshnessSeconds :: "int option"

type_synonym NodeFilterSpec = "FilterCondition list"

definition freshness_out_of_range :: "int option \<Rightarrow> bool" where
  "freshness_out_of_range f = (case f of None \<Rightarrow> False | Some n \<Rightarrow> n < 1 \<or> 604800 < n)"

definition probe_kind_invalid :: "string option \<Rightarrow> bool" where
  "probe_kind_invalid k = (case k of None \<Rightarrow> True | Some p \<Rightarrow> \<not> ProbeKind_IsValid p)"

definition validate_display_name :: "regex_engines \<Rightarrow> FilterCondition \<Rightarrow> string \<Rightarrow> string \<Rightarrow> go_error" where
  "validate_display_name eng c op val =
     (let isRegex = (op = FilterOpRegex \<or> op = FilterOpNotRegex);
          maxLen = (if isRegex then 1024 else 255 :: nat)
      in if op \<noteq> FilterOpContains \<and> op \<noteq> FilterOpNotContains \<and> op \<noteq> FilterOpRegex \<and> op \<noteq> FilterOpNotRegex
         then Some (new_validation_error ''invalid_filter_op'')
         else if val = [] then Some (new_validation_error ''invalid_filter_value'')
         else if maxLen < length val then Some (new_validation_error ''invalid_filter_value'')
         else if isRegex \<and> isl (compileFilterRegex eng val)
         then Some (new_validation_error ''invalid_filter_value'')
         else if Cond_ProbeKind c \<noteq> None then Some (new_validation_error ''invalid_filter_field'')
         else if Cond_FreshnessSeconds c \<noteq> None then Some (new_validation_error ''invalid_filter_field'')
         else None)"

definition validate_protocol :: "FilterCondition \<Rightarrow> string \<Rightarrow> string \<Rightarrow> go_error" where
  "validate_protocol c op val =
     (if op \<noteq> FilterOpEquals \<and> op \<noteq> FilterOpNotEquals then Some (new_validation_error ''invalid_filter_op'')
      else if isl (ParseProtocol val) then Some (new_validation_error ''invalid_filter_value'')
      else if Cond_ProbeKind c \<noteq> None \<or> Cond_FreshnessSeconds c \<noteq> None
      then Some (new_validation_error ''invalid_filter_field'') else None)"

definition validate_source_subscriptions :: "FilterCondition \<Rightarrow> string \<Rightarrow> string \<Rightarrow> go_error" where
  "validate_source_subscriptions c op val =
     (if op \<noteq> FilterOpContains \<and> op \<noteq> FilterOpNotContains then Some (new_validation_error ''invalid_filter_op'')
      else if val = [] then Some (new_validation_error ''invalid_filter_value'')
      else if \<not> IsValidUUIDv7 val then Some (new_validation_error ''invalid_filter_value'')
      else if Cond_ProbeKind c \<noteq> None \<or> Cond_FreshnessSeconds c \<noteq> None
      then Some (new_validation_error ''invalid_filter_field'') else None)"

definition validate_probe_verdict :: "FilterCondition \<Rightarrow> string \<Rightarrow> string \<Rightarrow> go_error" where
  "validate_probe_verdict c op val =
     (if op \<noteq> FilterOpEquals \<and> op \<noteq> FilterOpNotEquals then Some (new_validation_error ''invalid_filter_op'')
      else if isl (ParseProbeVerdict val) then Some (new_validation_error ''invalid_filter_value'')
      else if probe_kind_invalid (Cond_ProbeKind c) then Some (new_validation_error ''invalid_probe_kind'')
      else if freshness_out_of_range (Cond_FreshnessSeconds c)
      then Some (new_validation_error ''invalid_freshness_seconds'') else None)"

definition validate_probe_latency :: "FilterCondition \<Rightarrow> string \<Rightarrow> string \<Rightarrow> go_error" where
  "validate_probe_latency c op val =
     (if op \<noteq> FilterOpLTE then Some (new_validation_error ''invalid_filter_op'')
      else if (case parse_int64 val of None \<Rightarrow> True | Some n \<Rightarrow> n < 0 \<or> 60000 < n)
      then Some (new_validation_error ''invalid_filter_value'')
      else if probe_kind_invalid (Cond_ProbeKind c) then Some (new_validation_error ''invalid_probe_kind'')
      else if freshness_out_of_range (Cond_FreshnessSeconds c)
      then Some (new_validation_error ''invalid_freshness_seconds'') else None)"

definition FilterCondition_Validate :: "regex_engines \<Rightarrow> FilterCondition \<Rightarrow> go_error" where
  "FilterCondition_Validate eng c =
     (case ParseFilterField (Cond_Field c) of
        Inl e \<Rightarrow> Some e
      | Inr field \<Rightarrow> (case ParseFilterOp (Cond_Op c) of
          Inl e \<Rightarrow> Some e
        | Inr op \<Rightarrow>
            (let val = trim_space (Cond_Value c)
             in if field = FilterFieldDisplayName then validate_display_name eng c op val
                else if field = FilterFieldProtocol then validate_protocol c op val
                else if field = FilterFieldSourceSubscriptions then validate_source_subscriptions c op val
                else if field = FilterFieldProbeVerdict then validate_probe_verdict c op val
                else if field = FilterFieldProbeLatencyMS then validate_probe_latency c op val
                else Some (new_validation_error ''invalid_filter_field''))))"

definition NodeFilterSpec_IsEmpty :: "NodeFilterSpec option \<Rightarrow> bool" where
  "NodeFilterSpec_IsEmpty s = (case s of None \<Rightarrow> True | Some cs \<Rightarrow> length cs = 0)"

definition NodeFilterSpec_Validate :: "regex_engines \<Rightarrow> NodeFilterSpec option \<Rightarrow> go_error" where
  "NodeFilterSpec_Validate eng s =
     (case s of None \<Rightarrow> None
      | Some cs \<Rightarrow>
          if length cs = 0 then None
          else if 32 < length cs then Some (new_validation_error ''too_many_conditions'')
          else first_error (FilterCondition_Validate eng) cs)"

subsection \<open>Evaluation\<close>

definition result_or :: "'a \<Rightarrow> 'a result \<Rightarrow> 'a" where
  "result_or z r = (case r of Inl _ \<Rightarrow> z | Inr v \<Rightarrow> v)"

type_synonym latest_obs = "string \<rightharpoonup> ProbeObservation"

definition match_display_name :: "regex_engines \<Rightarrow> FilterCondition \<Rightarrow> string \<Rightarrow> Node \<Rightarrow> bool \<times> string" where
  "match_display_name eng c op node =
     (if op = FilterOpRegex \<or> op = FilterOpNotRegex
      then (case compileFilterRegex eng (Cond_Value c) of
              Inl e \<Rightarrow> (False, ''invalid regex: '' @ e)
            | Inr re \<Rightarrow> (case match_regex re (Node_DisplayName node) of
                Inl e \<Rightarrow> (False, ''regex match failed: '' @ e)
              | Inr matched \<Rightarrow>
                  if op = FilterOpRegex \<and> \<not> matched
                  then (False, ''display_name does not match regex '' @ go_quote (Cond_Value c))
                  else if op = FilterOpNotRegex \<and> matched
                  then (False, ''display_name matches excluded regex '' @ go_quote (Cond_Value c))
                  else (True, [])))
      else let match = contains (to_lower (Node_DisplayName node)) (to_lower (Cond_Value c))
           in if op = FilterOpContains \<and> \<not> match
              then (False, ''display_name does not contain '' @ go_quote (Cond_Value c))
              else if op = FilterOpNotContains \<and> match
              then (False, ''display_name contains '' @ go_quote (Cond_Value c))
              else (True, []))"

definition match_protocol :: "FilterCondition \<Rightarrow> string \<Rightarrow> Node \<Rightarrow> bool \<times> string" where
  "match_protocol c op node =
     (let match = equal_fold (Node_Protocol node) (Cond_Value c)
      in if op = FilterOpEquals \<and> \<not> match
         then (False, ''protocol '' @ Node_Protocol node @ '' != '' @ Cond_Value c)
         else if op = FilterOpNotEquals \<and> match
         then (False, ''protocol '' @ Node_Protocol node @ '' == '' @ Cond_Value c)
         else (True, []))"

definition match_source :: "FilterCondition \<Rightarrow> string \<Rightarrow> NodeSource list \<Rightarrow> bool \<times> string" where
  "match_source c op sources =
     (let hasSource = list_ex (\<lambda>s. NodeSource_SubscriptionID s = Cond_Value c) sources
      in if op = FilterOpContains \<and> \<not> hasSource
         then (False, ''node not from subscription '' @ Cond_Value c)
         else if op = FilterOpNotContains \<and> hasSource
         then (False, ''node from excluded subscription '' @ Cond_Value c)
         else (True, []))"

definition match_verdict :: "FilterCondition \<Rightarrow> string \<Rightarrow> string \<Rightarrow> ProbeObservation \<Rightarrow> bool \<times> string" where
  "match_verdict c op kind obs =
     (let expectedVerdict = to_lower (trim_space (Cond_Value c));
          match = (Obs_Verdict obs = expectedVerdict)
      in if op = FilterOpEquals \<and> \<not> match
         then (False, ''probe '' @ kind @ '' verdict '' @ Obs_Verdict obs @ '' != '' @ expectedVerdict)
         else if op = FilterOpNotEquals \<and> match
         then (False, ''probe '' @ kind @ '' verdict '' @ Obs_Verdict obs @ '' == '' @ expectedVerdict)
         else (True, []))"

definition match_latency :: "FilterCondition \<Rightarrow> string \<Rightarrow> ProbeObservation \<Rightarrow> bool \<times> string" where
  "match_latency c kind obs =
     (if Obs_Verdict obs \<noteq> VerdictAvailable
      then (False, ''probe '' @ kind @ '' verdict is '' @ Obs_Verdict obs @ '' (latency requires available)'')
      else case parse_int64 (Cond_Value c) of
             None \<Rightarrow> (False, ''invalid latency threshold'')
           | Some maxLatency \<Rightarrow>
               if maxLatency < Obs_LatencyMS obs
               then (False, ''probe latency '' @ itoa (Obs_LatencyMS obs) @ ''ms > threshold '' @
                            itoa maxLatency @ ''ms'')
               else (True, []))"

definition match_probe :: "FilterCondition \<Rightarrow> string \<Rightarrow> string \<Rightarrow> latest_obs \<Rightarrow> time \<Rightarrow> bool \<times> string" where
  "match_probe c field op latestObs asOf =
     (case Cond_ProbeKind c of
        None \<Rightarrow> (False, ''missing probe kind in filter condition'')
      | Some kind \<Rightarrow> (case latestObs kind of
          None \<Rightarrow> (False, ''no '' @ kind @ '' probe observation available'')
        | Some obs \<Rightarrow>
            (let freshnessSec = (case Cond_FreshnessSeconds c of
                   None \<Rightarrow> 86400 | Some n \<Rightarrow> if 0 < n then n else 86400);
                 freshnessDuration = wrap64 (freshnessSec * second)
             in if freshnessDuration < time_sub asOf (Obs_ObservedAt obs)
                then (False, ''observation expired (freshness '' @ itoa freshnessSec @ ''s exceeded)'')
                else if field = FilterFieldProbeVerdict then match_verdict c op kind obs
                else if field = FilterFieldProbeLatencyMS then match_latency c kind obs
                else (True, []))))"

definition MatchesCondition ::
  "regex_engines \<Rightarrow> FilterCondition \<Rightarrow> Node \<Rightarrow> NodeSource list \<Rightarrow> latest_obs \<Rightarrow> time \<Rightarrow> bool \<times> string" where
  "MatchesCondition eng c node sources latestObs asOf =
     (let field = result_or [] (ParseFilterField (Cond_Field c));
          op = result_or [] (ParseFilterOp (Cond_Op c))
      in if field = FilterFieldDisplayName then match_display_name eng c op node
         else if field = FilterFieldProtocol then match_protocol c op node
         else if field = FilterFieldSourceSubscriptions then match_source c op sources
         else if field = FilterFieldProbeVerdict \<or> field = FilterFieldProbeLatencyMS
         then match_probe c field op latestObs asOf
         else (False, ''unknown filter field '' @ field))"

fun matches_all_conditions ::
  "regex_engines \<Rightarrow> FilterCondition list \<Rightarrow> Node \<Rightarrow> NodeSource list \<Rightarrow> latest_obs \<Rightarrow> time \<Rightarrow> bool \<times> string" where
  "matches_all_conditions eng [] node sources latestObs asOf = (True, [])"
| "matches_all_conditions eng (cond # cs) node sources latestObs asOf =
     (case MatchesCondition eng cond node sources latestObs asOf of
        (matched, reason) \<Rightarrow>
          if \<not> matched then (False, reason)
          else matches_all_conditions eng cs node sources latestObs asOf)"

definition MatchesFilter ::
  "regex_engines \<Rightarrow> NodeFilterSpec option \<Rightarrow> Node \<Rightarrow> NodeSource list \<Rightarrow> latest_obs \<Rightarrow> time \<Rightarrow> bool \<times> string" where
  "MatchesFilter eng spec node sources latestObs asOf =
     (case spec of
        None \<Rightarrow> (True, [])
      | Some cs \<Rightarrow> if NodeFilterSpec_IsEmpty spec then (True, [])
                   else matches_all_conditions eng cs node sources latestObs asOf)"

subsection \<open>The parsers of fields and operators\<close>

interpretation filter_field_enum:
  string_enum validFilterFields FilterField_IsValid ParseFilterField "''invalid_filter_field''"
  by unfold_locales
    (simp_all add: FilterField_IsValid_def ParseFilterField_def, erule enum_canonical[rotated],
      simp add: enum_defs string_defs)

interpretation filter_op_enum:
  string_enum validFilterOps FilterOp_IsValid ParseFilterOp "''invalid_filter_op''"
  by unfold_locales
    (simp_all add: FilterOp_IsValid_def ParseFilterOp_def, erule enum_canonical[rotated],
      simp add: enum_defs string_defs)

lemmas filter_fields = FilterFieldDisplayName_def FilterFieldProtocol_def
  FilterFieldSourceSubscriptions_def FilterFieldProbeVerdict_def FilterFieldProbeLatencyMS_def

lemmas filter_ops = FilterOpContains_def FilterOpNotContains_def FilterOpRegex_def
  FilterOpNotRegex_def FilterOpEquals_def FilterOpNotEquals_def FilterOpLTE_def

lemmas match_defs = match_display_name_def match_protocol_def match_source_def match_probe_def
  match_verdict_def match_latency_def

lemmas validate_defs = validate_display_name_def validate_protocol_def
  validate_source_subscriptions_def validate_probe_verdict_def validate_probe_latency_def

subsection \<open>A filter admits a node iff every condition does, and a rejection is explained\<close>

definition explained :: "bool \<times> string \<Rightarrow> bool" where
  "explained r \<longleftrightarrow> fst r = (snd r = [])"

lemma explained_simps [simp]: "explained (True, [])" "explained (False, c # s)"
  by (simp_all add: explained_def)

lemma match_display_name_explained: "explained (match_display_name eng c op node)"
  by (simp add: match_display_name_def Let_def split: sum.split)

lemma match_protocol_explained: "explained (match_protocol c op node)"
  by (simp add: match_protocol_def Let_def)

lemma match_source_explained: "explained (match_source c op sources)"
  by (simp add: match_source_def Let_def)

lemma match_verdict_explained: "explained (match_verdict c op kind ob)"
  by (simp add: match_verdict_def Let_def)

lemma match_latency_explained: "explained (match_latency c kind ob)"
  by (simp add: match_latency_def split: option.split)

lemma match_probe_explained: "explained (match_probe c field op obs asOf)"
  unfolding match_probe_def Let_def
  by (simp add: match_verdict_explained match_latency_explained split: option.split)

lemma MatchesCondition_explained: "explained (MatchesCondition eng c node sources obs asOf)"
  by (simp add: MatchesCondition_def Let_def match_display_name_explained match_protocol_explained
        match_source_explained match_probe_explained)

lemmas MatchesCondition_reason = MatchesCondition_explained[unfolded explained_def]

lemma matches_all_conditions_iff:
  "fst (matches_all_conditions eng cs node sources obs asOf) \<longleftrightarrow>
   list_all (\<lambda>c. fst (MatchesCondition eng c node sources obs asOf)) cs"
  by (induction cs) (auto split: prod.splits)

lemma matches_all_conditions_reason:
  "fst (matches_all_conditions eng cs node sources obs asOf) \<longleftrightarrow>
   snd (matches_all_conditions eng cs node sources obs asOf) = []"
proof (induction cs)
  case (Cons c cs)
  then show ?case
    using MatchesCondition_reason[of eng c node sources obs asOf] by (auto split: prod.splits)
qed simp

lemma MatchesFilter_eq:
  "MatchesFilter eng spec node sources obs asOf =
   (case spec of None \<Rightarrow> (True, []) | Some cs \<Rightarrow> matches_all_conditions eng cs node sources obs asOf)"
  by (auto simp: MatchesFilter_def NodeFilterSpec_IsEmpty_def split: option.splits)

text \<open>
  A filter accepts a node exactly when every condition accepts it (a missing or empty filter
  accepts every node), and the reason returned is empty exactly when the node is accepted.
\<close>

theorem MatchesFilter_conjunction:
  "fst (MatchesFilter eng spec node sources obs asOf) =
     (case spec of None \<Rightarrow> True
      | Some cs \<Rightarrow> list_all (\<lambda>c. fst (MatchesCondition eng c node sources obs asOf)) cs) \<and>
   (snd (MatchesFilter eng spec node sources obs asOf) = []) =
     fst (MatchesFilter eng spec node sources obs asOf)"
  by (simp add: MatchesFilter_eq matches_all_conditions_iff flip: matches_all_conditions_reason
        split: option.split)

subsection \<open>Negated operators\<close>

definition negate_op :: "string \<Rightarrow> string" where
  "negate_op op =
     (if op = FilterOpContains then FilterOpNotContains
      else if op = FilterOpNotContains then FilterOpContains
      else if op = FilterOpRegex then FilterOpNotRegex
      else if op = FilterOpNotRegex then FilterOpRegex
      else if op = FilterOpEquals then FilterOpNotEquals
      else if op = FilterOpNotEquals then FilterOpEquals else op)"

lemma ParseFilterOp_negate:
  "op \<in> set validFilterOps \<Longrightarrow> ParseFilterOp (negate_op op) = Inr (negate_op op)"
  by (rule filter_op_enum.parse_valid)
    (auto simp: FilterOp_IsValid_def negate_op_def validFilterOps_def filter_ops)

text \<open>
  The evaluation of a condition can fail to reach a decision: the expression does not compile or
  match, or there is no fresh observation.
\<close>

definition fresh_observation :: "FilterCondition \<Rightarrow> latest_obs \<Rightarrow> time \<Rightarrow> bool" where
  "fresh_observation c obs asOf =
     (case Cond_ProbeKind c of None \<Rightarrow> False
      | Some kind \<Rightarrow> (case obs kind of None \<Rightarrow> False
          | Some ob \<Rightarrow> time_sub asOf (Obs_ObservedAt ob) \<le>
              wrap64 ((case Cond_FreshnessSeconds c of None \<Rightarrow> 86400
                       | Some n \<Rightarrow> if 0 < n then n else 86400) * second)))"

definition regex_decides :: "regex_engines \<Rightarrow> string \<Rightarrow> string \<Rightarrow> bool" where
  "regex_decides eng pattern input =
     (case compileFilterRegex eng pattern of Inl _ \<Rightarrow> False | Inr re \<Rightarrow> \<not> isl (match_regex re input))"

definition decided :: "regex_engines \<Rightarrow> FilterCondition \<Rightarrow> string \<Rightarrow> string \<Rightarrow> Node \<Rightarrow> latest_obs \<Rightarrow> time \<Rightarrow> bool" where
  "decided eng c field op node obs asOf =
     (if field = FilterFieldDisplayName
      then op = FilterOpContains \<or> op = FilterOpNotContains \<or> regex_decides eng (Cond_Value c) (Node_DisplayName node)
      else if field = FilterFieldProbeVerdict then fresh_observation c obs asOf
      else True)"

definition opposite :: "bool \<Rightarrow> bool \<times> string \<Rightarrow> bool \<times> string \<Rightarrow> bool" where
  "opposite d r r' \<longleftrightarrow> (if d then fst r' = (\<not> fst r) else \<not> fst r \<and> \<not> fst r')"

lemma opposite_display_name:
  assumes "op = FilterOpContains \<or> op = FilterOpNotContains \<or> op = FilterOpRegex \<or> op = FilterOpNotRegex"
  shows "opposite (decided eng c FilterFieldDisplayName op node obs asOf)
           (match_display_name eng c op node)
           (match_display_name eng (c\<lparr>Cond_Op := negate_op op\<rparr>) (negate_op op) node)"
  using assms
  by (elim disjE; simp add: opposite_def decided_def match_display_name_def negate_op_def filter_ops
        filter_fields regex_decides_def split: sum.split)

lemma opposite_protocol:
  assumes "op = FilterOpEquals \<or> op = FilterOpNotEquals"
  shows "opposite True (match_protocol c op node)
           (match_protocol (c\<lparr>Cond_Op := negate_op op\<rparr>) (negate_op op) node)"
  using assms by (elim disjE; simp add: opposite_def match_protocol_def negate_op_def filter_ops)

lemma opposite_source:
  assumes "op = FilterOpContains \<or> op = FilterOpNotContains"
  shows "opposite True (match_source c op sources)
           (match_source (c\<lparr>Cond_Op := negate_op op\<rparr>) (negate_op op) sources)"
  using assms by (elim disjE; simp add: opposite_def match_source_def negate_op_def filter_ops)

lemma opposite_verdict:
  assumes "op = FilterOpEquals \<or> op = FilterOpNotEquals"
  shows "opposite (fresh_observation c obs asOf)
           (match_probe c FilterFieldProbeVerdict op obs asOf)
           (match_probe (c\<lparr>Cond_Op := negate_op op\<rparr>) FilterFieldProbeVerdict (negate_op op) obs asOf)"
  using assms
  by (elim disjE; simp add: opposite_def match_probe_def match_verdict_def fresh_observation_def
        negate_op_def filter_ops not_less Let_def split: option.split)

lemma ParseFilterField_cases:
  assumes "ParseFilterField s = Inr field"
  shows "field \<in> {FilterFieldDisplayName, FilterFieldProtocol, FilterFieldSourceSubscriptions,
                   FilterFieldProbeVerdict, FilterFieldProbeLatencyMS}"
  using conjunct1[OF filter_field_enum.parse_sound[OF assms]] by (simp add: FilterField_IsValid_def validFilterFields_def)

text \<open>
  C34. A condition that validates and the same condition with its operator negated never both accept a
  node. Exactly one of them accepts when the condition can be decided; when the regular expression
  fails to compile or to match, or when there is no fresh probe observation, both reject, so a
  negated operator never turns an error into an acceptance. (The operator \<open>lte\<close> has no negation.)
\<close>

theorem MatchesCondition_negated:
  assumes "FilterCondition_Validate eng c = None"
    and "ParseFilterField (Cond_Field c) = Inr field"
    and "ParseFilterOp (Cond_Op c) = Inr op" and "op \<noteq> FilterOpLTE"
  shows "opposite (decided eng c field op node obs asOf)
           (MatchesCondition eng c node sources obs asOf)
           (MatchesCondition eng (c\<lparr>Cond_Op := negate_op op\<rparr>) node sources obs asOf)"
proof -
  have "op \<in> set validFilterOps"
    using conjunct1[OF filter_op_enum.parse_sound[OF assms(3)]] by (simp add: FilterOp_IsValid_def)
  note parse = assms(2,3) ParseFilterOp_negate[OF this]
  note eval = parse MatchesCondition_def result_or_def decided_def filter_fields
  from ParseFilterField_cases[OF assms(2)] assms(1,4) show ?thesis
    unfolding FilterCondition_Validate_def
    using opposite_display_name[of op eng c node obs asOf] opposite_protocol[of op c node]
      opposite_source[of op c sources] opposite_verdict[of op c obs asOf]
    by (elim insertE; simp add: eval validate_defs Let_def split: if_splits)
qed

theorem MatchesCondition_negated_witness:
  "opposite True
     (MatchesCondition literal_engines \<lparr>Cond_Field = ''protocol'', Cond_Op = ''equals'',
        Cond_Value = ''vless'', Cond_ProbeKind = None, Cond_FreshnessSeconds = None\<rparr> zero_Node [] Map.empty 0)
     (MatchesCondition literal_engines \<lparr>Cond_Field = ''protocol'', Cond_Op = ''not_equals'',
        Cond_Value = ''vless'', Cond_ProbeKind = None, Cond_FreshnessSeconds = None\<rparr> zero_Node [] Map.empty 0)"
  (is "opposite True (MatchesCondition _ ?c _ _ _ _) _")
proof -
  have field: "ParseFilterField (Cond_Field ?c) = Inr ''protocol''"
    by (simp, rule filter_field_enum.parse_valid, simp add: FilterField_IsValid_def enum_defs)
  have op: "ParseFilterOp (Cond_Op ?c) = Inr ''equals''"
    by (simp, rule filter_op_enum.parse_valid, simp add: FilterOp_IsValid_def enum_defs)
  have "ParseProtocol (trim_space (Cond_Value ?c)) = Inr ''vless''" by code_simp
  with field op have valid: "FilterCondition_Validate literal_engines ?c = None"
    by (simp add: FilterCondition_Validate_def validate_protocol_def filter_fields filter_ops)
  show ?thesis
    using MatchesCondition_negated[OF valid field op, of zero_Node Map.empty 0 "[]"]
    by (simp add: filter_ops negate_op_def decided_def filter_fields)
qed

subsection \<open>Values that validate but never match\<close>

text \<open>
  Validation reads the trimmed value and evaluation the value as stored: the latency threshold
  \<open>" 100"\<close> validates, yet the condition rejects every node with every observation.
\<close>

theorem latency_value_untrimmed:
  "let c = \<lparr>Cond_Field = ''probe_latency_ms'', Cond_Op = ''lte'', Cond_Value = '' 100'',
             Cond_ProbeKind = Some ''baseline'', Cond_FreshnessSeconds = None\<rparr>
   in FilterCondition_Validate eng c = None \<and>
      \<not> fst (MatchesCondition eng c node sources obs asOf)"
proof -
  have field: "ParseFilterField ''probe_latency_ms'' = Inr ''probe_latency_ms''"
    by (rule filter_field_enum.parse_valid, simp add: FilterField_IsValid_def enum_defs)
  have op: "ParseFilterOp ''lte'' = Inr ''lte''"
    by (rule filter_op_enum.parse_valid, simp add: FilterOp_IsValid_def enum_defs)
  have "parse_int64 '' 100'' = None" "parse_int64 (trim_space '' 100'') = Some 100"
    "ProbeKind_IsValid ''baseline''" by code_simp+
  with field op show ?thesis
    by (simp add: FilterCondition_Validate_def MatchesCondition_def result_or_def filter_fields
          filter_ops validate_probe_latency_def probe_kind_invalid_def freshness_out_of_range_def
          match_probe_def match_latency_def Let_def split: option.split)
qed

text \<open>
  The alias \<open>socks\<close> validates as a protocol value, because the parser of protocols maps it to
  \<open>socks5\<close>, but the evaluation compares the stored alias with the protocol of the node: the
  condition rejects every node whose protocol is valid, those with protocol \<open>socks5\<close> included.
\<close>

theorem protocol_alias_never_matches:
  assumes "Protocol_IsValid (Node_Protocol node)"
  shows "let c = \<lparr>Cond_Field = ''protocol'', Cond_Op = ''equals'', Cond_Value = ''socks'',
                   Cond_ProbeKind = None, Cond_FreshnessSeconds = None\<rparr>
         in FilterCondition_Validate eng c = None \<and>
            \<not> fst (MatchesCondition eng c node sources obs asOf)"
proof -
  have field: "ParseFilterField ''protocol'' = Inr ''protocol''"
    by (rule filter_field_enum.parse_valid, simp add: FilterField_IsValid_def enum_defs)
  have op: "ParseFilterOp ''equals'' = Inr ''equals''"
    by (rule filter_op_enum.parse_valid, simp add: FilterOp_IsValid_def enum_defs)
  have parse: "ParseProtocol (trim_space ''socks'') = Inr ''socks5''" by code_simp
  have "list_all (\<lambda>p. \<not> equal_fold p ''socks'') validProtocols" by code_simp
  then have "\<not> equal_fold (Node_Protocol node) ''socks''"
    using assms by (auto simp: Protocol_IsValid_def list_all_iff)
  with field op parse show ?thesis
    by (simp add: FilterCondition_Validate_def MatchesCondition_def result_or_def filter_fields
          filter_ops validate_protocol_def match_protocol_def Let_def)
qed

theorem protocol_alias_never_matches_witness:
  "\<not> fst (MatchesCondition literal_engines
      \<lparr>Cond_Field = ''protocol'', Cond_Op = ''equals'', Cond_Value = ''socks'',
       Cond_ProbeKind = None, Cond_FreshnessSeconds = None\<rparr>
      (zero_Node\<lparr>Node_Protocol := ''socks5''\<rparr>) [] Map.empty 0)"
  using protocol_alias_never_matches[of "zero_Node\<lparr>Node_Protocol := ''socks5''\<rparr>" literal_engines "[]" Map.empty 0]
  by (simp add: Let_def Protocol_IsValid_def enum_defs)

end
