(* ===== verification/Policy_Graph.thy ===== *)
theory Policy_Graph
  imports Node_Filter
begin

section \<open>The policy graph and its validation (policy.go, policy\_sources.go, application/policy/graph.go)\<close>

text \<open>
  Policy groups, their member sources and edges, and the checks that the program makes before it
  stores or resolves a policy: every reference exists, the graph of groups has no cycle, and the
  routing rules are well-formed. The depth-first search colours the groups white (0), gray (1) and
  black (2) as the source does. Its recursion depth is bounded by a fuel argument; the number of
  groups is enough, because the gray groups are distinct (lemma \<open>dfs_correct\<close>).
\<close>

subsection \<open>Groups and member sources\<close>

definition OperationAdd :: string where [enum_defs]: "OperationAdd = ''add''"
definition OperationRemove :: string where [enum_defs]: "OperationRemove = ''remove''"

definition SourceOperation_IsValid :: "string \<Rightarrow> bool" where
  "SourceOperation_IsValid op \<longleftrightarrow> op = OperationAdd \<or> op = OperationRemove"

definition SourceKindManualNode :: string where [enum_defs]: "SourceKindManualNode = ''manual_node''"
definition SourceKindGroupRef :: string where [enum_defs]: "SourceKindGroupRef = ''group_ref''"
definition SourceKindGroupNodes :: string where [enum_defs]: "SourceKindGroupNodes = ''group_nodes''"
definition SourceKindRegex :: string where [enum_defs]: "SourceKindRegex = ''regex''"
definition SourceKindFilter :: string where [enum_defs]: "SourceKindFilter = ''filter''"
definition SourceKindTypedBuiltin :: string where [enum_defs]: "SourceKindTypedBuiltin = ''typed_builtin''"

lemmas source_kinds = SourceKindManualNode_def SourceKindGroupRef_def SourceKindGroupNodes_def
  SourceKindRegex_def SourceKindFilter_def SourceKindTypedBuiltin_def

lemmas source_operations = OperationAdd_def OperationRemove_def

definition MemberSourceKind_IsValid :: "string \<Rightarrow> bool" where
  "MemberSourceKind_IsValid k \<longleftrightarrow>
     k \<in> set [SourceKindManualNode, SourceKindGroupRef, SourceKindGroupNodes, SourceKindRegex,
              SourceKindFilter, SourceKindTypedBuiltin]"

record MemberSource =
  Src_ID :: string
  Src_GroupID :: string
  Src_Operation :: string
  Src_Kind :: string
  Src_Position :: int
  Src_NodeLogicalID :: "string option"
  Src_TargetGroupID :: "string option"
  Src_Pattern :: "string option"
  Src_FilterSpec :: "NodeFilterSpec option"
  Src_BuiltinName :: "string option"
  Src_CreatedAt :: time
  Src_UpdatedAt :: time

record NodeGroup =
  Group_EmptyFallbackPass :: bool
  Group_ID :: string
  Group_Name :: string
  Group_GroupType :: string
  Group_Revision :: int
  Group_Sources :: "MemberSource list"
  Group_NodeFilter :: "NodeFilterSpec option"
  Group_CreatedAt :: time
  Group_UpdatedAt :: time

definition blank :: "string option \<Rightarrow> bool" where
  "blank s = (case s of None \<Rightarrow> True | Some t \<Rightarrow> trim_space t = [])"

definition source_field_error :: "string \<Rightarrow> int \<Rightarrow> string \<Rightarrow> domain_error" where
  "source_field_error code position field =
     (new_validation_error code)\<lparr>err_field := ''sources['' @ itoa position @ '']'' @ field\<rparr>"

definition filter_spec_error :: "regex_engines \<Rightarrow> NodeFilterSpec option \<Rightarrow> bool" where
  "filter_spec_error eng spec \<longleftrightarrow> spec \<noteq> None \<and> NodeFilterSpec_Validate eng spec \<noteq> None"

definition builtin_names :: "string list" where
  "builtin_names = [''PASS'', ''DIRECT'', ''REJECT'', ''REJECT-DROP'']"

definition validate_manual_node :: "MemberSource \<Rightarrow> go_error" where
  "validate_manual_node s =
     (if blank (Src_NodeLogicalID s)
      then Some (source_field_error ''invalid_source_entry'' (Src_Position s) ''.node_logical_id'')
      else if \<not> IsValidLogicalID (the (Src_NodeLogicalID s))
      then Some (new_validation_error ''invalid_node_logical_id'')
      else if Src_TargetGroupID s \<noteq> None \<or> Src_BuiltinName s \<noteq> None
      then Some (source_field_error ''invalid_source_entry'' (Src_Position s) [])
      else None)"

definition validate_group_ref :: "MemberSource \<Rightarrow> go_error" where
  "validate_group_ref s =
     (if blank (Src_TargetGroupID s)
      then Some (source_field_error ''invalid_source_entry'' (Src_Position s) ''.target_group_id'')
      else if \<not> IsValidUUIDv7 (the (Src_TargetGroupID s))
      then Some (new_validation_error ''invalid_target_group_id'')
      else if Src_NodeLogicalID s \<noteq> None \<or> Src_BuiltinName s \<noteq> None \<or> \<not> blank (Src_Pattern s)
      then Some (source_field_error ''invalid_source_entry'' (Src_Position s) ''.target_group_id'')
      else None)"

definition validate_group_nodes :: "regex_engines \<Rightarrow> MemberSource \<Rightarrow> go_error" where
  "validate_group_nodes eng s =
     (if blank (Src_TargetGroupID s)
      then Some (source_field_error ''invalid_source_entry'' (Src_Position s) ''.target_group_id'')
      else if \<not> IsValidUUIDv7 (the (Src_TargetGroupID s))
      then Some (new_validation_error ''invalid_target_group_id'')
      else if Src_NodeLogicalID s \<noteq> None \<or> Src_BuiltinName s \<noteq> None
      then Some (source_field_error ''invalid_source_entry'' (Src_Position s) [])
      else if \<not> blank (Src_Pattern s) \<and> isl (compileFilterRegex eng (the (Src_Pattern s)))
      then Some (new_validation_error ''invalid_regex'')
      else if filter_spec_error eng (Src_FilterSpec s)
      then Some (new_validation_error ''invalid_filter_spec'')
      else None)"

definition validate_regex_source :: "regex_engines \<Rightarrow> MemberSource \<Rightarrow> go_error" where
  "validate_regex_source eng s =
     (if blank (Src_Pattern s)
      then Some (source_field_error ''invalid_source_entry'' (Src_Position s) ''.pattern'')
      else if isl (compileFilterRegex eng (the (Src_Pattern s)))
      then Some (new_validation_error ''invalid_regex'')
      else if Src_NodeLogicalID s \<noteq> None \<or> Src_TargetGroupID s \<noteq> None \<or> Src_BuiltinName s \<noteq> None
      then Some (source_field_error ''invalid_source_entry'' (Src_Position s) [])
      else None)"

definition validate_filter_source :: "regex_engines \<Rightarrow> MemberSource \<Rightarrow> go_error" where
  "validate_filter_source eng s =
     (if Src_FilterSpec s = None
      then Some (source_field_error ''invalid_source_entry'' (Src_Position s) ''.filter_spec'')
      else if filter_spec_error eng (Src_FilterSpec s)
      then Some (new_validation_error ''invalid_filter_spec'')
      else if Src_NodeLogicalID s \<noteq> None \<or> Src_TargetGroupID s \<noteq> None \<or> Src_BuiltinName s \<noteq> None
      then Some (source_field_error ''invalid_source_entry'' (Src_Position s) [])
      else None)"

definition validate_typed_builtin :: "MemberSource \<Rightarrow> go_error" where
  "validate_typed_builtin s =
     (if blank (Src_BuiltinName s)
      then Some (source_field_error ''invalid_source_entry'' (Src_Position s) ''.builtin_name'')
      else if to_upper (trim_space (the (Src_BuiltinName s))) \<notin> set builtin_names
      then Some (source_field_error ''invalid_source_entry'' (Src_Position s) ''.builtin_name'')
      else if Src_NodeLogicalID s \<noteq> None \<or> Src_TargetGroupID s \<noteq> None \<or> Src_Pattern s \<noteq> None \<or>
              Src_FilterSpec s \<noteq> None
      then Some (source_field_error ''invalid_source_entry'' (Src_Position s) [])
      else None)"

definition ValidateMemberSource :: "regex_engines \<Rightarrow> MemberSource \<Rightarrow> go_error" where
  "ValidateMemberSource eng s =
     (if \<not> SourceOperation_IsValid (Src_Operation s)
      then Some (new_validation_error ''invalid_source_operation'')
      else if \<not> MemberSourceKind_IsValid (Src_Kind s)
      then Some (new_validation_error ''invalid_source_kind'')
      else if Src_Position s < 0 then Some (new_validation_error ''invalid_position'')
      else if Src_Kind s = SourceKindManualNode then validate_manual_node s
      else if Src_Kind s = SourceKindGroupRef then validate_group_ref s
      else if Src_Kind s = SourceKindGroupNodes then validate_group_nodes eng s
      else if Src_Kind s = SourceKindRegex then validate_regex_source eng s
      else if Src_Kind s = SourceKindFilter then validate_filter_source eng s
      else if Src_Kind s = SourceKindTypedBuiltin then validate_typed_builtin s
      else None)"

subsection \<open>Edges and rules\<close>

record GroupEdge =
  Edge_ID :: string
  Edge_ParentGroupID :: string
  Edge_ChildGroupID :: "string option"
  Edge_NodeLogicalID :: "string option"
  Edge_Position :: int

definition given :: "string option \<Rightarrow> bool" where
  "given s \<longleftrightarrow> s \<noteq> None \<and> s \<noteq> Some []"

definition ValidateGroupEdge :: "GroupEdge \<Rightarrow> go_error" where
  "ValidateGroupEdge edge =
     (let hasChild = given (Edge_ChildGroupID edge);
          hasNode = given (Edge_NodeLogicalID edge)
      in if \<not> IsValidUUIDv7 (Edge_ParentGroupID edge)
         then Some (new_validation_error ''invalid_parent_group_id'')
         else if \<not> hasChild \<and> \<not> hasNode then Some (new_validation_error ''empty_edge_target'')
         else if hasChild \<and> hasNode then Some (new_validation_error ''ambiguous_edge_target'')
         else if hasChild \<and> \<not> IsValidUUIDv7 (the (Edge_ChildGroupID edge))
         then Some (new_validation_error ''invalid_child_group_id'')
         else if hasChild \<and> Edge_ParentGroupID edge = the (Edge_ChildGroupID edge)
         then Some (new_validation_error ''self_loop_forbidden'')
         else if hasNode \<and> \<not> IsValidLogicalID (the (Edge_NodeLogicalID edge))
         then Some (new_validation_error ''invalid_node_logical_id'')
         else if Edge_Position edge < 0 then Some (new_validation_error ''invalid_position'')
         else None)"

record AdmissionRule =
  AdmRule_ID :: string
  AdmRule_RevisionID :: string
  AdmRule_Name :: string
  AdmRule_Expression :: string
  AdmRule_Action :: string
  AdmRule_Position :: int

record PolicyRule =
  Rule_ID :: string
  Rule_RevisionID :: string
  Rule_TargetGroupID :: string
  Rule_Expression :: string
  Rule_Position :: int

definition IsMatchRule :: "string \<Rightarrow> bool" where
  "IsMatchRule expr =
     (let norm = to_upper (trim_space expr)
      in norm = ''MATCH'' \<or> has_prefix norm ''MATCH,'' \<or> has_prefix norm ''MATCH '' \<or>
         norm = ''FINAL'' \<or> has_prefix norm ''FINAL,'' \<or> has_prefix norm ''FINAL '')"

definition check_rule :: "string list \<Rightarrow> PolicyRule \<Rightarrow> go_error" where
  "check_rule groupSet rule =
     (if trim_space (Rule_Expression rule) = [] then Some (new_validation_error ''invalid_expression'')
      else if Rule_Position rule < 0 then Some (new_validation_error ''invalid_position'')
      else if groupSet \<noteq> [] \<and> Rule_TargetGroupID rule \<notin> set groupSet
      then Some (new_validation_error ''target_group_not_found'') else None)"

text \<open>The indices of the terminal rules, collected by the loop over the sorted rules.\<close>

definition matchIndices :: "PolicyRule list \<Rightarrow> nat list" where
  "matchIndices rules = filter (\<lambda>i. IsMatchRule (Rule_Expression (rules ! i))) [0..<length rules]"

definition ValidatePolicyRules :: "PolicyRule list \<Rightarrow> string list \<Rightarrow> bool \<Rightarrow> go_error" where
  "ValidatePolicyRules rules groupSet requireTerminalMatch =
     (if length rules = 0 then None
      else let sorted = sort_key Rule_Position rules
           in case first_error (check_rule groupSet) sorted of
                Some e \<Rightarrow> Some e
              | None \<Rightarrow>
                  if 1 < length (matchIndices sorted)
                  then Some (new_validation_error ''invalid_match_rule_ordering'')
                  else if requireTerminalMatch \<and> length (matchIndices sorted) = 1 \<and>
                          hd (matchIndices sorted) \<noteq> length sorted - 1
                  then Some (new_validation_error ''invalid_match_rule_ordering'')
                  else None)"

subsection \<open>Building the adjacency lists\<close>

type_synonym adjacency = "(string, string list) gomap"

definition succs :: "adjacency \<Rightarrow> string \<Rightarrow> string list" where
  "succs adj u = gm_get_or [] adj u"

definition add_succ :: "adjacency \<Rightarrow> string \<Rightarrow> string \<Rightarrow> adjacency" where
  "add_succ adj u v = gm_put adj u (succs adj u @ [v])"

definition check_group :: "NodeGroup \<Rightarrow> go_error" where
  "check_group g =
     (if \<not> IsValidUUIDv7 (Group_ID g) then Some (new_validation_error ''invalid_group_id'')
      else if trim_space (Group_Name g) = [] then Some (new_validation_error ''invalid_group_name'')
      else if \<not> GroupType_IsValid (Group_GroupType g) then Some (new_validation_error ''invalid_group_type'')
      else None)"

fun add_edges :: "string list \<Rightarrow> string \<Rightarrow> GroupEdge list \<Rightarrow> adjacency \<Rightarrow> adjacency result" where
  "add_edges groupSet parentID [] adj = Inr adj"
| "add_edges groupSet parentID (e # es) adj =
     (let edge = e\<lparr>Edge_ParentGroupID := parentID\<rparr>
      in case ValidateGroupEdge edge of
           Some err \<Rightarrow> Inl err
         | None \<Rightarrow>
             if given (Edge_ChildGroupID edge)
             then let childID = the (Edge_ChildGroupID edge)
                  in if childID = parentID then Inl (new_validation_error ''self_loop_forbidden'')
                     else if childID \<notin> set groupSet then Inl (new_validation_error ''target_group_not_found'')
                     else add_edges groupSet parentID es (add_succ adj parentID childID)
             else add_edges groupSet parentID es adj)"

fun add_all_edges :: "string list \<Rightarrow> (string, GroupEdge list) gomap \<Rightarrow> adjacency \<Rightarrow> adjacency result" where
  "add_all_edges groupSet [] adj = Inr adj"
| "add_all_edges groupSet ((parentID, edgeList) # m) adj =
     (if parentID \<notin> set groupSet then Inl (new_validation_error ''parent_group_not_found'')
      else case add_edges groupSet parentID edgeList adj of
             Inl e \<Rightarrow> Inl e
           | Inr adj' \<Rightarrow> add_all_edges groupSet m adj')"

definition source_child :: "MemberSource \<Rightarrow> string option" where
  "source_child src =
     (if (Src_Kind src = SourceKindGroupRef \<or> Src_Kind src = SourceKindGroupNodes) \<and>
         given (Src_TargetGroupID src)
      then Src_TargetGroupID src else None)"

fun add_sources ::
  "regex_engines \<Rightarrow> string list \<Rightarrow> string \<Rightarrow> MemberSource list \<Rightarrow> adjacency \<Rightarrow> adjacency result" where
  "add_sources eng groupSet gid [] adj = Inr adj"
| "add_sources eng groupSet gid (src # srcs) adj =
     (case ValidateMemberSource eng src of
        Some e \<Rightarrow> Inl e
      | None \<Rightarrow> (case source_child src of
          None \<Rightarrow> add_sources eng groupSet gid srcs adj
        | Some childID \<Rightarrow>
            if childID = gid then Inl (new_validation_error ''self_loop_forbidden'')
            else if childID \<notin> set groupSet then Inl (new_validation_error ''target_group_not_found'')
            else add_sources eng groupSet gid srcs (add_succ adj gid childID)))"

fun add_all_sources ::
  "regex_engines \<Rightarrow> string list \<Rightarrow> NodeGroup list \<Rightarrow> adjacency \<Rightarrow> adjacency result" where
  "add_all_sources eng groupSet [] adj = Inr adj"
| "add_all_sources eng groupSet (g # gs) adj =
     (case add_sources eng groupSet (Group_ID g) (Group_Sources g) adj of
        Inl e \<Rightarrow> Inl e
      | Inr adj' \<Rightarrow> add_all_sources eng groupSet gs adj')"

definition empty_adjacency :: "NodeGroup list \<Rightarrow> adjacency" where
  "empty_adjacency groups = foldl (\<lambda>m g. gm_put m (Group_ID g) []) [] groups"

subsection \<open>Cycle detection\<close>

record dfs_state =
  dfs_color :: "(string, nat) gomap"
  dfs_stack :: "string list"

definition color_of :: "dfs_state \<Rightarrow> string \<Rightarrow> nat" where
  "color_of st u = gm_get_or 0 (dfs_color st) u"

definition push_gray :: "string \<Rightarrow> dfs_state \<Rightarrow> dfs_state" where
  "push_gray u st = \<lparr>dfs_color = gm_put (dfs_color st) u 1, dfs_stack = dfs_stack st @ [u]\<rparr>"

definition pop_black :: "string \<Rightarrow> dfs_state \<Rightarrow> dfs_state" where
  "pop_black u st = \<lparr>dfs_color = gm_put (dfs_color st) u 2, dfs_stack = butlast (dfs_stack st)\<rparr>"

definition cyclePath :: "string list \<Rightarrow> string \<Rightarrow> string \<Rightarrow> string list" where
  "cyclePath stack u v =
     (if v \<in> set stack then dropWhile (\<lambda>s. s \<noteq> v) stack @ [v] else [u, v, u])"

definition cycle_error :: "string list \<Rightarrow> string \<Rightarrow> string \<Rightarrow> domain_error" where
  "cycle_error stack u v = (new_validation_error ''cycle_detected'')\<lparr>err_cycle_path := cyclePath stack u v\<rparr>"

text \<open>\<open>None\<close> is the exhaustion of the fuel, \<open>Some (Inl e)\<close> an error of the source.\<close>

fun dfs :: "nat \<Rightarrow> adjacency \<Rightarrow> string \<Rightarrow> dfs_state \<Rightarrow> dfs_state result option"
  and visit_neighbors :: "nat \<Rightarrow> adjacency \<Rightarrow> string \<Rightarrow> string list \<Rightarrow> dfs_state \<Rightarrow> dfs_state result option" where
  "dfs 0 adj u st = None"
| "dfs (Suc n) adj u st =
     (case visit_neighbors n adj u (sort (succs adj u)) (push_gray u st) of
        None \<Rightarrow> None
      | Some (Inl e) \<Rightarrow> Some (Inl e)
      | Some (Inr st') \<Rightarrow> Some (Inr (pop_black u st')))"
| "visit_neighbors n adj u [] st = Some (Inr st)"
| "visit_neighbors n adj u (v # vs) st =
     (if color_of st v = 1 then Some (Inl (cycle_error (dfs_stack st) u v))
      else if color_of st v = 0
      then (case dfs n adj v st of
              None \<Rightarrow> None
            | Some (Inl e) \<Rightarrow> Some (Inl e)
            | Some (Inr st') \<Rightarrow> visit_neighbors n adj u vs st')
      else visit_neighbors n adj u vs st)"

fun dfs_all :: "nat \<Rightarrow> adjacency \<Rightarrow> string list \<Rightarrow> dfs_state \<Rightarrow> dfs_state result option" where
  "dfs_all n adj [] st = Some (Inr st)"
| "dfs_all n adj (u # us) st =
     (if color_of st u = 0
      then (case dfs n adj u st of
              None \<Rightarrow> None
            | Some (Inl e) \<Rightarrow> Some (Inl e)
            | Some (Inr st') \<Rightarrow> dfs_all n adj us st')
      else dfs_all n adj us st)"

definition detect_cycle :: "NodeGroup list \<Rightarrow> adjacency \<Rightarrow> go_error" where
  "detect_cycle groups adj =
     (let groupIDs = sort (map Group_ID groups)
      in case dfs_all (length groups) adj groupIDs \<lparr>dfs_color = [], dfs_stack = []\<rparr> of
           None \<Rightarrow> Some (new_internal_error ''search_depth_exceeded'')
         | Some (Inl e) \<Rightarrow> Some e
         | Some (Inr _) \<Rightarrow> None)"

definition build_adjacency ::
  "regex_engines \<Rightarrow> NodeGroup list \<Rightarrow> (string, GroupEdge list) gomap \<Rightarrow> adjacency result" where
  "build_adjacency eng groups edges =
     (let groupSet = map Group_ID groups
      in case add_all_edges groupSet edges (empty_adjacency groups) of
           Inl e \<Rightarrow> Inl e
         | Inr adj \<Rightarrow> add_all_sources eng groupSet groups adj)"

definition ValidatePolicyTopology ::
  "regex_engines \<Rightarrow> NodeGroup list \<Rightarrow> (string, GroupEdge list) gomap \<Rightarrow> PolicyRule list \<Rightarrow> bool \<Rightarrow> go_error" where
  "ValidatePolicyTopology eng groups edges rules requireTerminalMatch =
     (case first_error check_group groups of
        Some e \<Rightarrow> Some e
      | None \<Rightarrow> (case build_adjacency eng groups edges of
          Inl e \<Rightarrow> Some e
        | Inr adj \<Rightarrow> (case detect_cycle groups adj of
            Some e \<Rightarrow> Some e
          | None \<Rightarrow> ValidatePolicyRules rules (map Group_ID groups) requireTerminalMatch)))"

definition check_admission_rule :: "AdmissionRule \<Rightarrow> go_error" where
  "check_admission_rule rule =
     (if trim_space (AdmRule_Name rule) = [] then Some (new_validation_error ''invalid_admission_rule_name'')
      else if trim_space (AdmRule_Expression rule) = [] then Some (new_validation_error ''invalid_expression'')
      else if \<not> RuleAction_IsValid (AdmRule_Action rule) then Some (new_validation_error ''invalid_rule_action'')
      else if AdmRule_Position rule < 0 then Some (new_validation_error ''invalid_position'')
      else None)"

definition ValidateAdmissionRules :: "AdmissionRule list \<Rightarrow> go_error" where
  "ValidateAdmissionRules rules = first_error check_admission_rule rules"

definition ValidatePolicyGraph ::
  "regex_engines \<Rightarrow> NodeGroup list \<Rightarrow> (string, GroupEdge list) gomap \<Rightarrow> PolicyRule list \<Rightarrow>
   AdmissionRule list \<Rightarrow> go_error" where
  "ValidatePolicyGraph eng groups edges policyRules admissionRules =
     (case ValidatePolicyTopology eng groups edges policyRules True of
        Some e \<Rightarrow> Some e
      | None \<Rightarrow> ValidateAdmissionRules admissionRules)"

subsection \<open>Correctness of the depth-first search\<close>

definition edge_rel :: "adjacency \<Rightarrow> (string \<times> string) set" where
  "edge_rel adj = {(u, v). v \<in> set (succs adj u)}"

definition is_cycle :: "adjacency \<Rightarrow> string list \<Rightarrow> bool" where
  "is_cycle adj p \<longleftrightarrow> 2 \<le> length p \<and> hd p = last p \<and> successively (\<lambda>x y. y \<in> set (succs adj x)) p"

definition dfs_inv :: "adjacency \<Rightarrow> dfs_state \<Rightarrow> bool" where
  "dfs_inv adj st \<longleftrightarrow>
     (\<forall>v. color_of st v \<le> 2) \<and>
     (\<forall>v. color_of st v = 1 \<longleftrightarrow> v \<in> set (dfs_stack st)) \<and>
     distinct (dfs_stack st) \<and>
     (\<forall>b v. color_of st b = 2 \<longrightarrow> v \<in> set (succs adj b) \<longrightarrow> color_of st v = 2) \<and>
     (\<forall>b. color_of st b = 2 \<longrightarrow> (b, b) \<notin> (edge_rel adj)\<^sup>+) \<and>
     successively (\<lambda>x y. y \<in> set (succs adj x)) (dfs_stack st)"

lemma color_push_gray [simp]: "color_of (push_gray u st) v = (if v = u then 1 else color_of st v)"
  by (simp add: color_of_def push_gray_def gm_get_or_def)

lemma color_pop_black [simp]: "color_of (pop_black u st) v = (if v = u then 2 else color_of st v)"
  by (simp add: color_of_def pop_black_def gm_get_or_def)

lemma stack_push_gray [simp]: "dfs_stack (push_gray u st) = dfs_stack st @ [u]"
  by (simp add: push_gray_def)

lemma stack_pop_black [simp]: "dfs_stack (pop_black u st) = butlast (dfs_stack st)"
  by (simp add: pop_black_def)

lemma dfs_inv_push:
  assumes "dfs_inv adj st" "color_of st u = 0"
    and "dfs_stack st \<noteq> [] \<Longrightarrow> u \<in> set (succs adj (last (dfs_stack st)))"
  shows "dfs_inv adj (push_gray u st)"
proof -
  have "u \<notin> set (dfs_stack st)" using assms(1,2) by (metis dfs_inv_def zero_neq_one)
  then show ?thesis using assms unfolding dfs_inv_def by (auto simp: successively_append_iff)
qed

lemma black_closed:
  assumes "dfs_inv adj st" "(b, v) \<in> (edge_rel adj)\<^sup>*" "color_of st b = 2"
  shows "color_of st v = 2"
  using assms(2,3)
proof (induction rule: rtrancl_induct)
  case (step y z)
  then show ?case using assms(1) by (auto simp: dfs_inv_def edge_rel_def)
qed

lemma dfs_inv_pop:
  assumes inv: "dfs_inv adj st" and stack: "dfs_stack st = xs @ [u]"
    and all: "\<And>v. v \<in> set (succs adj u) \<Longrightarrow> color_of st v = 2"
  shows "dfs_inv adj (pop_black u st)"
proof -
  have gray: "color_of st u = 1" using inv stack by (auto simp: dfs_inv_def)
  have "(u, u) \<notin> (edge_rel adj)\<^sup>+"
  proof
    assume "(u, u) \<in> (edge_rel adj)\<^sup>+"
    then obtain w where "(u, w) \<in> edge_rel adj" "(w, u) \<in> (edge_rel adj)\<^sup>*" by (auto dest: tranclD)
    then have "color_of st u = 2" using black_closed[OF inv] all by (auto simp: edge_rel_def)
    with gray show False by simp
  qed
  then show ?thesis
    using inv stack all unfolding dfs_inv_def
    by (auto simp: successively_append_iff)
qed

lemma is_cycle_cyclePath:
  assumes "successively (\<lambda>x y. y \<in> set (succs adj x)) stack" "v \<in> set stack"
    and "stack \<noteq> []" "v \<in> set (succs adj (last stack))"
  shows "is_cycle adj (cyclePath stack u v)"
proof -
  from assms(2) obtain ys zs where stack: "stack = ys @ v # zs" "v \<notin> set ys"
    by (meson split_list_first)
  then have "dropWhile (\<lambda>s. s \<noteq> v) stack = v # zs" by (auto simp: dropWhile_append)
  moreover have "last stack = last (v # zs)" using stack by simp
  moreover have path: "successively (\<lambda>x y. y \<in> set (succs adj x)) (v # zs)"
    using assms(1) unfolding stack(1) successively_append_iff by blast
  ultimately have "successively (\<lambda>x y. y \<in> set (succs adj x)) ((v # zs) @ [v])"
    unfolding successively_append_iff using assms(4) by simp
  then show ?thesis
    using \<open>dropWhile (\<lambda>s. s \<noteq> v) stack = v # zs\<close> assms(2) by (simp add: is_cycle_def cyclePath_def)
qed

text \<open>
  What a call leaves behind: fuel runs out only if it was less than the number of groups off the
  stack; an error carries a real cycle; success restores the stack, keeps black groups black and
  blackens the groups that were asked for.
\<close>

definition dfs_post ::
  "string set \<Rightarrow> adjacency \<Rightarrow> nat \<Rightarrow> string set \<Rightarrow> dfs_state \<Rightarrow> dfs_state result option \<Rightarrow> bool" where
  "dfs_post V adj n targets st r \<longleftrightarrow>
     (case r of
        None \<Rightarrow> n < card (V - set (dfs_stack st))
      | Some (Inl e) \<Rightarrow> err_code e = ''cycle_detected'' \<and> is_cycle adj (err_cycle_path e)
      | Some (Inr st') \<Rightarrow>
          dfs_inv adj st' \<and> dfs_stack st' = dfs_stack st \<and>
          (\<forall>v. color_of st v = 2 \<longrightarrow> color_of st' v = 2) \<and> (\<forall>v \<in> targets. color_of st' v = 2))"

definition succs_closed :: "string set \<Rightarrow> adjacency \<Rightarrow> bool" where
  "succs_closed V adj \<longleftrightarrow> finite V \<and> (\<forall>u. set (succs adj u) \<subseteq> V)"

lemma card_push:
  assumes "finite V" "u \<in> V" "u \<notin> set xs"
  shows "card (V - set xs) = Suc (card (V - set (xs @ [u])))"
proof -
  have "V - set (xs @ [u]) = (V - set xs) - {u}" by auto
  then show ?thesis using assms card_Suc_Diff1[of "V - set xs" u] by simp
qed

lemma dfs_step:
  assumes closed: "succs_closed V adj" and inv: "dfs_inv adj st" and white: "color_of st u = 0" and "u \<in> V"
    and post: "dfs_post V adj n (set (succs adj u)) (push_gray u st)
                 (visit_neighbors n adj u (sort (succs adj u)) (push_gray u st))"
  shows "dfs_post V adj (Suc n) {u} st (dfs (Suc n) adj u st)"
proof (cases "visit_neighbors n adj u (sort (succs adj u)) (push_gray u st)")
  case None
  have "u \<notin> set (dfs_stack st)" using inv white by (metis dfs_inv_def zero_neq_one)
  then have "card (V - set (dfs_stack st)) = Suc (card (V - set (dfs_stack st @ [u])))"
    using closed \<open>u \<in> V\<close> by (intro card_push) (auto simp: succs_closed_def)
  with None post show ?thesis by (simp add: dfs_post_def)
next
  case (Some r)
  show ?thesis
  proof (cases r)
    case (Inl e)
    with Some post show ?thesis by (simp add: dfs_post_def)
  next
    case (Inr st')
    with Some post have st': "dfs_inv adj st'" "dfs_stack st' = dfs_stack st @ [u]"
      "\<And>v. v \<in> set (succs adj u) \<Longrightarrow> color_of st' v = 2"
      "\<And>v. color_of (push_gray u st) v = 2 \<Longrightarrow> color_of st' v = 2"
      by (auto simp: dfs_post_def)
    have "dfs_inv adj (pop_black u st')" using st' by (intro dfs_inv_pop) auto
    with st' white Some Inr show ?thesis by (auto simp: dfs_post_def)
  qed
qed

lemma dfs_post_cons:
  assumes "dfs_post V adj n {v} st (Some (Inr st'))" "dfs_post V adj n (set vs) st' r"
  shows "dfs_post V adj n (insert v (set vs)) st r"
  using assms by (auto simp: dfs_post_def split: option.splits sum.splits)

lemma dfs_correct:
  shows "succs_closed V adj \<Longrightarrow> dfs_inv adj st \<Longrightarrow> color_of st u = 0 \<Longrightarrow> u \<in> V \<Longrightarrow>
         (dfs_stack st \<noteq> [] \<longrightarrow> u \<in> set (succs adj (last (dfs_stack st)))) \<Longrightarrow>
         dfs_post V adj n {u} st (dfs n adj u st)"
    and "succs_closed V adj \<Longrightarrow> dfs_inv adj st \<Longrightarrow> dfs_stack st \<noteq> [] \<Longrightarrow> last (dfs_stack st) = u \<Longrightarrow>
         set vs \<subseteq> set (succs adj u) \<Longrightarrow>
         dfs_post V adj n (set vs) st (visit_neighbors n adj u vs st)"
proof (induction n adj u st and n adj u vs st rule: dfs_visit_neighbors.induct)
  case (1 adj u st)
  have "u \<in> V - set (dfs_stack st)" using 1 by (metis DiffI dfs_inv_def zero_neq_one)
  then have "0 < card (V - set (dfs_stack st))"
    using 1(1) by (auto simp: succs_closed_def card_gt_0_iff)
  then show ?case by (simp add: dfs_post_def)
next
  case (2 n adj u st)
  have "dfs_inv adj (push_gray u st)" using 2 by (intro dfs_inv_push) auto
  then have "dfs_post V adj n (set (succs adj u)) (push_gray u st)
      (visit_neighbors n adj u (sort (succs adj u)) (push_gray u st))"
    using 2(1)[OF 2(2)] by simp
  then show ?case using 2 by (intro dfs_step) auto
next
  case (3 n adj u st)
  then show ?case by (simp add: dfs_post_def)
next
  case (4 n adj u v vs st)
  have "color_of st v \<le> 2" using 4(5) by (simp add: dfs_inv_def)
  then consider (gray) "color_of st v = 1" | (white) "color_of st v = 0" | (black) "color_of st v = 2"
    by linarith
  then show ?case
  proof cases
    case gray
    then have "is_cycle adj (cyclePath (dfs_stack st) u v)"
      using 4 by (intro is_cycle_cyclePath) (auto simp: dfs_inv_def)
    with gray show ?thesis by (simp add: dfs_post_def cycle_error_def err_code_simps)
  next
    case white
    then have first: "dfs_post V adj n {v} st (dfs n adj v st)"
      using 4 by (auto simp: succs_closed_def)
    show ?thesis
    proof (cases "dfs n adj v st")
      case (Some r)
      show ?thesis
      proof (cases r)
        case (Inr st')
        with first Some have st': "dfs_inv adj st'" "dfs_stack st' = dfs_stack st"
          by (simp_all add: dfs_post_def)
        have "dfs_post V adj n (set vs) st' (visit_neighbors n adj u vs st')"
          using 4(2)[OF _ white Some Inr] 4 st' white by simp
        with first white Some Inr show ?thesis by (auto intro: dfs_post_cons)
      qed (use first white Some in \<open>simp add: dfs_post_def\<close>)
    qed (use first white in \<open>simp add: dfs_post_def\<close>)
  next
    case black
    then have "dfs_post V adj n (set vs) st (visit_neighbors n adj u vs st)"
      using 4(3) 4 by simp
    moreover have "dfs_post V adj n {v} st (Some (Inr st))" using black 4 by (simp add: dfs_post_def)
    ultimately show ?thesis using black by (simp add: dfs_post_cons)
  qed
qed

lemma dfs_all_correct:
  assumes "succs_closed V adj"
  shows "dfs_inv adj st \<Longrightarrow> dfs_stack st = [] \<Longrightarrow> set us \<subseteq> V \<Longrightarrow>
         dfs_post V adj n (set us) st (dfs_all n adj us st)"
proof (induction us arbitrary: st)
  case Nil
  then show ?case by (simp add: dfs_post_def)
next
  case (Cons u us)
  show ?case
  proof (cases "color_of st u = 0")
    case True
    then have first: "dfs_post V adj n {u} st (dfs n adj u st)"
      using assms Cons by (intro dfs_correct) auto
    show ?thesis
    proof (cases "dfs n adj u st")
      case (Some r)
      show ?thesis
      proof (cases r)
        case (Inr st')
        with first Some Cons.prems(2) have "dfs_inv adj st'" "dfs_stack st' = []"
          by (simp_all add: dfs_post_def)
        then have "dfs_post V adj n (set us) st' (dfs_all n adj us st')" using Cons by simp
        with first True Some Inr show ?thesis by (auto intro: dfs_post_cons)
      qed (use first True Some in \<open>simp add: dfs_post_def\<close>)
    qed (use first True in \<open>simp add: dfs_post_def\<close>)
  next
    case False
    have "color_of st u \<le> 2" "color_of st u \<noteq> 1"
      using Cons.prems(1,2) by (auto simp: dfs_inv_def)
    with False have "color_of st u = 2" by linarith
    then have "dfs_post V adj n {u} st (Some (Inr st))" using Cons.prems by (simp add: dfs_post_def)
    moreover have "dfs_post V adj n (set us) st (dfs_all n adj us st)" using Cons by simp
    ultimately show ?thesis using False by (simp add: dfs_post_cons)
  qed
qed

lemma is_cycle_trancl:
  assumes "is_cycle adj p"
  shows "(hd p, hd p) \<in> (edge_rel adj)\<^sup>+"
proof -
  have "(hd q, last q) \<in> (edge_rel adj)\<^sup>+"
    if "2 \<le> length q" "successively (\<lambda>x y. y \<in> set (succs adj x)) q" for q
    using that
  proof (induction q rule: induct_list012)
    case (3 x y zs)
    then have "(x, y) \<in> edge_rel adj" by (simp add: edge_rel_def)
    with 3 show ?case by (cases zs) (auto intro: trancl_into_trancl2)
  qed simp_all
  then show ?thesis using assms unfolding is_cycle_def by metis
qed

lemma dfs_inv_initial: "dfs_inv adj \<lparr>dfs_color = [], dfs_stack = []\<rparr>"
  by (simp add: dfs_inv_def color_of_def gm_get_or_def)

lemma detect_cycle_correct:
  assumes closed: "succs_closed (set (map Group_ID groups)) adj"
    and dom: "\<And>u. u \<notin> set (map Group_ID groups) \<Longrightarrow> succs adj u = []"
  shows "(detect_cycle groups adj = None \<longleftrightarrow> acyclic (edge_rel adj)) \<and>
         (\<forall>e. detect_cycle groups adj = Some e \<longrightarrow>
            err_code e = ''cycle_detected'' \<and> is_cycle adj (err_cycle_path e))"
proof -
  let ?V = "set (map Group_ID groups)" and ?st = "\<lparr>dfs_color = [], dfs_stack = []\<rparr>"
  let ?r = "dfs_all (length groups) adj (sort (map Group_ID groups)) ?st"
  have post: "dfs_post ?V adj (length groups) ?V ?st ?r"
    using dfs_all_correct[OF closed dfs_inv_initial, of "sort (map Group_ID groups)" "length groups"] by simp
  show ?thesis
  proof (cases ?r)
    case None
    then have "length groups < card ?V" using post by (simp add: dfs_post_def)
    moreover have "card ?V \<le> length groups" using card_length[of "map Group_ID groups"] by simp
    ultimately show ?thesis by simp
  next
    case (Some r)
    show ?thesis
    proof (cases r)
      case (Inl e)
      then have "err_code e = ''cycle_detected''" "is_cycle adj (err_cycle_path e)"
        using Some post by (simp_all add: dfs_post_def)
      then show ?thesis using Some Inl is_cycle_trancl by (auto simp: detect_cycle_def acyclic_def)
    next
      case (Inr st')
      then have black: "dfs_inv adj st'" "\<And>v. v \<in> ?V \<Longrightarrow> color_of st' v = 2"
        using Some post by (auto simp: dfs_post_def)
      have "(v, v) \<notin> (edge_rel adj)\<^sup>+" for v
      proof (cases "v \<in> ?V")
        case True
        then show ?thesis using black by (simp add: dfs_inv_def)
      next
        case False
        then show ?thesis using dom by (auto simp: edge_rel_def dest!: tranclD)
      qed
      then show ?thesis using Some Inr by (simp add: detect_cycle_def acyclic_def)
    qed
  qed
qed

subsection \<open>The graph that is searched\<close>

definition edge_child :: "GroupEdge \<Rightarrow> string option" where
  "edge_child e = (if given (Edge_ChildGroupID e) then Edge_ChildGroupID e else None)"

definition edge_pairs :: "(string, GroupEdge list) gomap \<Rightarrow> (string \<times> string) set" where
  "edge_pairs edges = (\<Union>(p, es) \<in> set edges. {p} \<times> set (List.map_filter edge_child es))"

definition source_pairs :: "NodeGroup list \<Rightarrow> (string \<times> string) set" where
  "source_pairs groups =
     (\<Union>g \<in> set groups. {Group_ID g} \<times> set (List.map_filter source_child (Group_Sources g)))"

definition policy_edges :: "NodeGroup list \<Rightarrow> (string, GroupEdge list) gomap \<Rightarrow> (string \<times> string) set" where
  "policy_edges groups edges = edge_pairs edges \<union> source_pairs groups"

lemma succs_add_succ [simp]:
  "succs (add_succ adj u v) w = (if w = u then succs adj u @ [v] else succs adj w)"
  by (simp add: succs_def add_succ_def gm_get_or_def)

lemma edge_rel_add_succ [simp]: "edge_rel (add_succ adj u v) = insert (u, v) (edge_rel adj)"
  by (auto simp: edge_rel_def split: if_splits)

lemma edge_rel_empty [simp]: "edge_rel (empty_adjacency groups) = {}"
proof -
  have "succs (foldl (\<lambda>m g. gm_put m (Group_ID g) []) m groups) u = []" if "\<And>u. succs m u = []" for m u
    using that by (induction groups arbitrary: m) (simp_all add: succs_def gm_get_or_def)
  moreover have "succs [] u = []" for u by (simp add: succs_def gm_get_or_def)
  ultimately show ?thesis by (simp add: edge_rel_def empty_adjacency_def)
qed

lemma add_edges_Cons:
  "add_edges S p (e # es) adj = Inr adj' \<longleftrightarrow>
   ValidateGroupEdge (e\<lparr>Edge_ParentGroupID := p\<rparr>) = None \<and>
   (case edge_child e of
      None \<Rightarrow> add_edges S p es adj = Inr adj'
    | Some c \<Rightarrow> c \<noteq> p \<and> c \<in> set S \<and> add_edges S p es (add_succ adj p c) = Inr adj')"
  by (auto simp: edge_child_def given_def Let_def split: option.splits)

lemma add_edges_rel:
  "add_edges S p es adj = Inr adj' \<Longrightarrow>
   edge_rel adj' = edge_rel adj \<union> {p} \<times> set (List.map_filter edge_child es) \<and>
   set (List.map_filter edge_child es) \<subseteq> set S"
proof (induction es arbitrary: adj)
  case (Cons e es)
  then show ?case
    unfolding add_edges_Cons by (auto simp: List.map_filter_simps split: option.splits)
qed (simp add: List.map_filter_simps)

lemma add_all_edges_rel:
  "add_all_edges S edges adj = Inr adj' \<Longrightarrow>
   edge_rel adj' = edge_rel adj \<union> edge_pairs edges \<and> edge_pairs edges \<subseteq> set S \<times> set S"
proof (induction S edges adj rule: add_all_edges.induct)
  case (2 S p es m adj)
  then obtain adj1 where adj1: "p \<in> set S" "add_edges S p es adj = Inr adj1" "add_all_edges S m adj1 = Inr adj'"
    by (auto split: if_splits sum.splits)
  from adj1 2(1) have "edge_rel adj' = edge_rel adj1 \<union> edge_pairs m" "edge_pairs m \<subseteq> set S \<times> set S"
    by auto
  with add_edges_rel[OF adj1(2)] adj1(1) show ?case by (auto simp: edge_pairs_def)
qed (simp add: edge_pairs_def)

lemma add_sources_rel:
  "add_sources eng S gid srcs adj = Inr adj' \<Longrightarrow>
   edge_rel adj' = edge_rel adj \<union> {gid} \<times> set (List.map_filter source_child srcs) \<and>
   set (List.map_filter source_child srcs) \<subseteq> set S"
proof (induction srcs arbitrary: adj)
  case (Cons src srcs)
  then show ?case
    by (auto simp: List.map_filter_simps split: option.splits if_splits)
qed (simp add: List.map_filter_simps)

lemma add_all_sources_rel:
  "add_all_sources eng S groups adj = Inr adj' \<Longrightarrow> Group_ID ` set groups \<subseteq> set S \<Longrightarrow>
   edge_rel adj' = edge_rel adj \<union> source_pairs groups \<and> source_pairs groups \<subseteq> set S \<times> set S"
proof (induction groups arbitrary: adj)
  case (Cons g gs)
  then obtain adj1 where adj1: "add_sources eng S (Group_ID g) (Group_Sources g) adj = Inr adj1"
    "add_all_sources eng S gs adj1 = Inr adj'" by (auto split: sum.splits)
  from Cons(1)[OF adj1(2)] Cons(3)
  have "edge_rel adj' = edge_rel adj1 \<union> source_pairs gs" "source_pairs gs \<subseteq> set S \<times> set S" by auto
  with add_sources_rel[OF adj1(1)] Cons(3) show ?case by (auto simp: source_pairs_def)
qed (simp add: source_pairs_def)

lemma build_adjacency_rel:
  assumes "build_adjacency eng groups edges = Inr adj"
  shows "edge_rel adj = policy_edges groups edges"
    and "policy_edges groups edges \<subseteq> Group_ID ` set groups \<times> Group_ID ` set groups"
proof -
  obtain adj1 where adj1: "add_all_edges (map Group_ID groups) edges (empty_adjacency groups) = Inr adj1"
    "add_all_sources eng (map Group_ID groups) groups adj1 = Inr adj"
    using assms by (auto simp: build_adjacency_def Let_def split: sum.splits)
  from add_all_edges_rel[OF adj1(1)] add_all_sources_rel[OF adj1(2)]
  show "edge_rel adj = policy_edges groups edges"
    "policy_edges groups edges \<subseteq> Group_ID ` set groups \<times> Group_ID ` set groups"
    by (simp_all add: policy_edges_def)
qed

lemma build_adjacency_closed:
  assumes "build_adjacency eng groups edges = Inr adj"
  shows "succs_closed (set (map Group_ID groups)) adj"
    and "u \<notin> set (map Group_ID groups) \<Longrightarrow> succs adj u = []"
proof -
  have sub: "(u, v) \<in> edge_rel adj \<Longrightarrow> u \<in> Group_ID ` set groups \<and> v \<in> Group_ID ` set groups" for u v
    using build_adjacency_rel[OF assms] by auto
  show "succs_closed (set (map Group_ID groups)) adj"
    unfolding succs_closed_def using sub by (auto simp: edge_rel_def)
  show "u \<notin> set (map Group_ID groups) \<Longrightarrow> succs adj u = []"
    using sub[of u "hd (succs adj u)"] by (auto simp: edge_rel_def)
qed

text \<open>A small policy for concrete instances of the theorems.\<close>

definition example_group :: "string \<Rightarrow> MemberSource list \<Rightarrow> NodeGroup" where
  "example_group gid srcs =
     \<lparr>Group_EmptyFallbackPass = False, Group_ID = gid, Group_Name = ''name'', Group_GroupType = ''select'',
      Group_Revision = 1, Group_Sources = srcs, Group_NodeFilter = None, Group_CreatedAt = 0, Group_UpdatedAt = 0\<rparr>"

definition example_ref :: "string \<Rightarrow> MemberSource" where
  "example_ref target =
     \<lparr>Src_ID = [], Src_GroupID = [], Src_Operation = ''add'', Src_Kind = ''group_ref'', Src_Position = 0,
      Src_NodeLogicalID = None, Src_TargetGroupID = Some target, Src_Pattern = None, Src_FilterSpec = None,
      Src_BuiltinName = None, Src_CreatedAt = 0, Src_UpdatedAt = 0\<rparr>"

definition example_id :: "char \<Rightarrow> string" where
  "example_id c = ''0190a000-0000-7000-8000-00000000000'' @ [c]"

subsection \<open>What validation guarantees\<close>

lemma is_cycle_cong:
  assumes "edge_rel adj = E"
  shows "is_cycle adj p \<longleftrightarrow> 2 \<le> length p \<and> hd p = last p \<and> successively (\<lambda>x y. (x, y) \<in> E) p"
  using assms by (auto simp: is_cycle_def edge_rel_def)

text \<open>
  C5. Once the references of a policy resolve, the depth-first search accepts the graph of groups
  exactly when it is acyclic (edges and group sources together), and never runs out of depth. When
  it rejects, the error is \<open>cycle_detected\<close> and the path it reports is a closed walk of the graph.
\<close>

theorem detect_cycle_exact:
  assumes "build_adjacency eng groups edges = Inr adj"
  shows "(detect_cycle groups adj = None) = acyclic (policy_edges groups edges) \<and>
         (\<forall>e. detect_cycle groups adj = Some e \<longrightarrow>
            err_code e = ''cycle_detected'' \<and> 2 \<le> length (err_cycle_path e) \<and>
            hd (err_cycle_path e) = last (err_cycle_path e) \<and>
            successively (\<lambda>x y. (x, y) \<in> policy_edges groups edges) (err_cycle_path e))"
  using detect_cycle_correct[OF build_adjacency_closed[OF assms]] build_adjacency_rel(1)[OF assms]
  by (simp add: is_cycle_cong[OF build_adjacency_rel(1)[OF assms]])

theorem detect_cycle_exact_witness:
  "let groups = [example_group (example_id CHR ''1'') [example_ref (example_id CHR ''2'')],
                 example_group (example_id CHR ''2'') [example_ref (example_id CHR ''1'')]];
       adj = [(example_id CHR ''1'', [example_id CHR ''2'']), (example_id CHR ''2'', [example_id CHR ''1''])]
   in detect_cycle groups adj \<noteq> None \<and> \<not> acyclic (policy_edges groups [])"
proof -
  let ?groups = "[example_group (example_id CHR ''1'') [example_ref (example_id CHR ''2'')],
                  example_group (example_id CHR ''2'') [example_ref (example_id CHR ''1'')]]"
  let ?adj = "[(example_id CHR ''1'', [example_id CHR ''2'']), (example_id CHR ''2'', [example_id CHR ''1''])]"
  have "build_adjacency literal_engines ?groups [] = Inr ?adj" by code_simp
  moreover have "detect_cycle ?groups ?adj \<noteq> None" by code_simp
  ultimately show ?thesis
    using detect_cycle_exact[of literal_engines ?groups "[]" ?adj] by (simp add: Let_def)
qed

lemma matchIndices_last:
  assumes "\<not> 1 < length (matchIndices rules)"
    and "\<not> (length (matchIndices rules) = 1 \<and> hd (matchIndices rules) \<noteq> length rules - 1)"
    and "i < length rules" "IsMatchRule (Rule_Expression (rules ! i))"
  shows "i = length rules - 1"
proof -
  have "i \<in> set (matchIndices rules)" using assms(3,4) by (simp add: matchIndices_def)
  moreover from this assms(1) have "length (matchIndices rules) = 1"
    by (cases "matchIndices rules") auto
  ultimately show ?thesis using assms(2) by (cases "matchIndices rules") auto
qed

lemma ValidatePolicyRules_sound:
  assumes "ValidatePolicyRules rules groupSet True = None"
  shows "\<forall>r \<in> set rules. check_rule groupSet r = None"
    and "i < length rules \<Longrightarrow> IsMatchRule (Rule_Expression (sort_key Rule_Position rules ! i)) \<Longrightarrow>
         i = length rules - 1"
proof -
  show "\<forall>r \<in> set rules. check_rule groupSet r = None"
    using assms by (auto simp: ValidatePolicyRules_def Let_def first_error_None split: if_splits option.splits)
  assume "i < length rules" "IsMatchRule (Rule_Expression (sort_key Rule_Position rules ! i))"
  with assms show "i = length rules - 1"
    using matchIndices_last[of "sort_key Rule_Position rules" i]
    by (auto simp: ValidatePolicyRules_def Let_def split: if_splits option.splits)
qed

text \<open>
  C18. A policy that validates refers only to groups that exist, its graph of groups is acyclic, every
  routing rule has an expression, a non-negative position and (when there are groups) an existing
  target, and in the order of positions a terminal rule (\<open>MATCH\<close> or \<open>FINAL\<close>) can only be the last.
\<close>

theorem ValidatePolicyGraph_sound:
  assumes "ValidatePolicyGraph eng groups edges rules admission = None"
  shows "policy_edges groups edges \<subseteq> Group_ID ` set groups \<times> Group_ID ` set groups \<and>
         acyclic (policy_edges groups edges) \<and>
         (\<forall>r \<in> set rules. trim_space (Rule_Expression r) \<noteq> [] \<and> 0 \<le> Rule_Position r \<and>
            (groups \<noteq> [] \<longrightarrow> Rule_TargetGroupID r \<in> Group_ID ` set groups)) \<and>
         (\<forall>i < length rules. IsMatchRule (Rule_Expression (sort_key Rule_Position rules ! i)) \<longrightarrow>
            i = length rules - 1)"
proof -
  from assms obtain adj where adj: "build_adjacency eng groups edges = Inr adj" "detect_cycle groups adj = None"
    and rules: "ValidatePolicyRules rules (map Group_ID groups) True = None"
    by (auto simp: ValidatePolicyGraph_def ValidatePolicyTopology_def split: option.splits sum.splits)
  have "acyclic (policy_edges groups edges)"
    using detect_cycle_correct[OF build_adjacency_closed[OF adj(1)]] adj build_adjacency_rel(1)[OF adj(1)] by simp
  moreover have "\<forall>r \<in> set rules. trim_space (Rule_Expression r) \<noteq> [] \<and> 0 \<le> Rule_Position r \<and>
      (groups \<noteq> [] \<longrightarrow> Rule_TargetGroupID r \<in> Group_ID ` set groups)"
    using ValidatePolicyRules_sound(1)[OF rules] by (fastforce simp: check_rule_def split: if_splits)
  ultimately show ?thesis
    using build_adjacency_rel(2)[OF adj(1)] ValidatePolicyRules_sound(2)[OF rules] by blast
qed

theorem ValidatePolicyGraph_sound_witness:
  "acyclic (policy_edges [example_group (example_id CHR ''1'') [example_ref (example_id CHR ''2'')],
                          example_group (example_id CHR ''2'') []] [])"
proof -
  have "ValidatePolicyGraph literal_engines
      [example_group (example_id CHR ''1'') [example_ref (example_id CHR ''2'')],
       example_group (example_id CHR ''2'') []] []
      [\<lparr>Rule_ID = [], Rule_RevisionID = [], Rule_TargetGroupID = example_id CHR ''1'',
        Rule_Expression = ''MATCH'', Rule_Position = 0\<rparr>] [] = None"
    by code_simp
  from ValidatePolicyGraph_sound[OF this] show ?thesis by blast
qed

subsection \<open>Edits through the legacy view of edges (policy\_sources.go)\<close>

definition ProjectSourceEdges :: "MemberSource list \<Rightarrow> GroupEdge list" where
  "ProjectSourceEdges sources =
     map (\<lambda>s. \<lparr>Edge_ID = Src_ID s, Edge_ParentGroupID = Src_GroupID s, Edge_ChildGroupID = Src_TargetGroupID s,
               Edge_NodeLogicalID = Src_NodeLogicalID s, Edge_Position = Src_Position s\<rparr>)
       (filter (\<lambda>s. Src_Operation s = OperationAdd \<and>
                    (Src_Kind s = SourceKindGroupRef \<or> Src_Kind s = SourceKindManualNode)) sources)"

definition legacy_source :: "MemberSource \<Rightarrow> bool" where
  "legacy_source s \<longleftrightarrow> Src_Operation s = OperationAdd \<and>
     (Src_Kind s = SourceKindManualNode \<or> Src_Kind s = SourceKindGroupRef \<or> Src_Kind s = SourceKindFilter)"

definition zero_MemberSource :: MemberSource where
  "zero_MemberSource =
     \<lparr>Src_ID = [], Src_GroupID = [], Src_Operation = [], Src_Kind = [], Src_Position = 0,
      Src_NodeLogicalID = None, Src_TargetGroupID = None, Src_Pattern = None, Src_FilterSpec = None,
      Src_BuiltinName = None, Src_CreatedAt = zero_time, Src_UpdatedAt = zero_time\<rparr>"

definition edge_source :: "string \<Rightarrow> int \<Rightarrow> GroupEdge \<Rightarrow> MemberSource" where
  "edge_source groupID i e =
     (let s = zero_MemberSource\<lparr>Src_ID := Edge_ID e, Src_GroupID := groupID, Src_Operation := OperationAdd,
                Src_Kind := SourceKindManualNode, Src_Position := i, Src_NodeLogicalID := Edge_NodeLogicalID e\<rparr>
      in if Edge_ChildGroupID e \<noteq> None
         then s\<lparr>Src_Kind := SourceKindGroupRef, Src_TargetGroupID := Edge_ChildGroupID e\<rparr> else s)"

fun edge_sources :: "string \<Rightarrow> int \<Rightarrow> GroupEdge list \<Rightarrow> MemberSource list result" where
  "edge_sources groupID i [] = Inr []"
| "edge_sources groupID i (e # es) =
     (case ValidateGroupEdge (e\<lparr>Edge_ParentGroupID := groupID, Edge_Position := i\<rparr>) of
        Some err \<Rightarrow> Inl err
      | None \<Rightarrow> (case edge_sources groupID (i + 1) es of
          Inl err \<Rightarrow> Inl err
        | Inr srcs \<Rightarrow> Inr (edge_source groupID i e # srcs)))"

definition apply_legacy_filter :: "regex_engines \<Rightarrow> string \<Rightarrow> NodeFilterSpec option \<Rightarrow> MemberSource list \<Rightarrow> MemberSource list result" where
  "apply_legacy_filter eng groupID filt out =
     (case NodeFilterSpec_Validate eng filt of
        Some e \<Rightarrow> Inl e
      | None \<Rightarrow>
          (let spec = (if NodeFilterSpec_IsEmpty filt then None else filt);
               out = map (\<lambda>s. s\<lparr>Src_FilterSpec := spec\<rparr>) (filter (\<lambda>s. Src_Kind s \<noteq> SourceKindFilter) out)
           in Inr (if out = [] \<and> \<not> NodeFilterSpec_IsEmpty filt
                   then [zero_MemberSource\<lparr>Src_GroupID := groupID, Src_Operation := OperationAdd,
                           Src_Kind := SourceKindFilter, Src_FilterSpec := filt\<rparr>]
                   else out)))"

definition EditLegacySources ::
  "regex_engines \<Rightarrow> string \<Rightarrow> MemberSource list \<Rightarrow> GroupEdge list option \<Rightarrow> bool \<Rightarrow> NodeFilterSpec option \<Rightarrow>
   MemberSource list result" where
  "EditLegacySources eng groupID current edges changeFilter filt =
     (if \<not> list_all legacy_source current then Inl (new_conflict_error ''sources_edit_required'')
      else case edges of
             None \<Rightarrow> if changeFilter then apply_legacy_filter eng groupID filt current else Inr current
           | Some es \<Rightarrow> (case edge_sources groupID 0 es of
               Inl e \<Rightarrow> Inl e
             | Inr out \<Rightarrow>
                 if \<not> changeFilter \<and> current \<noteq> []
                 then apply_legacy_filter eng groupID (Src_FilterSpec (hd current)) out
                 else if changeFilter then apply_legacy_filter eng groupID filt out
                 else Inr out))"

lemma ProjectSourceEdges_filter_spec:
  "ProjectSourceEdges (map (\<lambda>s. s\<lparr>Src_FilterSpec := spec\<rparr>) srcs) = ProjectSourceEdges srcs"
  by (induction srcs) (simp_all add: ProjectSourceEdges_def)

lemma edge_sources_project:
  "edge_sources groupID i es = Inr out \<Longrightarrow>
   filter (\<lambda>s. Src_Kind s \<noteq> SourceKindFilter) out = out \<and> length out = length es \<and>
   ProjectSourceEdges out =
     map (\<lambda>(j, e). e\<lparr>Edge_ParentGroupID := groupID, Edge_Position := i + int j\<rparr>) (enumerate 0 es)"
proof (induction groupID i es arbitrary: out rule: edge_sources.induct)
  case (2 groupID i e es)
  then obtain srcs where srcs: "edge_sources groupID (i + 1) es = Inr srcs" "out = edge_source groupID i e # srcs"
    by (auto split: option.splits sum.splits)
  have shift: "map (\<lambda>(j, e). e\<lparr>Edge_ParentGroupID := groupID, Edge_Position := i + int j\<rparr>) (enumerate (Suc 0) es) =
      map (\<lambda>(j, e). e\<lparr>Edge_ParentGroupID := groupID, Edge_Position := i + 1 + int j\<rparr>) (enumerate 0 es)"
    by (rule nth_equalityI) (auto simp: nth_enumerate_eq)
  show ?case
    using 2 srcs shift
    by (cases "Edge_ChildGroupID e")
      (auto simp: edge_source_def ProjectSourceEdges_def zero_MemberSource_def source_kinds
         source_operations Let_def split: option.splits)
qed (simp add: ProjectSourceEdges_def)

lemma apply_legacy_filter_project:
  assumes "apply_legacy_filter eng groupID filt out = Inr srcs"
    and "filter (\<lambda>s. Src_Kind s \<noteq> SourceKindFilter) out = out"
  shows "ProjectSourceEdges srcs = ProjectSourceEdges out"
  using assms
  by (auto simp: apply_legacy_filter_def Let_def ProjectSourceEdges_filter_spec source_kinds
        ProjectSourceEdges_def[of "[_]"] ProjectSourceEdges_def[of "[]"] split: option.splits if_splits)

text \<open>
  C36. Round trip of an accepted edit through the legacy edges: reading the edges back from the stored
  sources gives as many edges in the same order, each with the identifier, child group and node that
  was written, but with the edited group as its parent and its index as its position, whatever these
  were before. Edges that already name the group and are numbered from zero come back unchanged.
\<close>

theorem EditLegacySources_roundtrip:
  assumes "EditLegacySources eng groupID current (Some es) changeFilter filt = Inr srcs"
  shows "ProjectSourceEdges srcs =
         map (\<lambda>(j, e). e\<lparr>Edge_ParentGroupID := groupID, Edge_Position := int j\<rparr>) (enumerate 0 es) \<and>
         ((\<forall>j < length es. Edge_ParentGroupID (es ! j) = groupID \<and> Edge_Position (es ! j) = int j) \<longrightarrow>
            ProjectSourceEdges srcs = es)"
proof -
  from assms obtain out where "edge_sources groupID 0 es = Inr out"
    by (auto simp: EditLegacySources_def split: if_splits sum.splits)
  with assms edge_sources_project[of groupID 0 es out]
  have "ProjectSourceEdges srcs = map (\<lambda>(j, e). e\<lparr>Edge_ParentGroupID := groupID, Edge_Position := int j\<rparr>) (enumerate 0 es)"
    by (auto simp: EditLegacySources_def apply_legacy_filter_project split: if_splits)
  moreover have "map (\<lambda>(j, e). e\<lparr>Edge_ParentGroupID := groupID, Edge_Position := int j\<rparr>) (enumerate 0 es) = es"
    if "\<forall>j < length es. Edge_ParentGroupID (es ! j) = groupID \<and> Edge_Position (es ! j) = int j"
    using that by (intro nth_equalityI) (simp_all add: nth_enumerate_eq)
  ultimately show ?thesis by simp
qed

theorem EditLegacySources_roundtrip_witness:
  "\<exists>srcs srcs'.
    EditLegacySources literal_engines (example_id CHR ''1'') []
      (Some [\<lparr>Edge_ID = ''e'', Edge_ParentGroupID = [], Edge_ChildGroupID = Some (example_id CHR ''2''),
              Edge_NodeLogicalID = None, Edge_Position = 7\<rparr>]) False None = Inr srcs \<and>
    ProjectSourceEdges srcs =
      [\<lparr>Edge_ID = ''e'', Edge_ParentGroupID = example_id CHR ''1'', Edge_ChildGroupID = Some (example_id CHR ''2''),
        Edge_NodeLogicalID = None, Edge_Position = 0\<rparr>] \<and>
    EditLegacySources literal_engines (example_id CHR ''1'') [] (Some (ProjectSourceEdges srcs)) False None = Inr srcs' \<and>
    ProjectSourceEdges srcs' = ProjectSourceEdges srcs"
proof -
  let ?e = "\<lparr>Edge_ID = ''e'', Edge_ParentGroupID = [], Edge_ChildGroupID = Some (example_id CHR ''2''),
             Edge_NodeLogicalID = None, Edge_Position = 7\<rparr>"
  let ?f = "?e\<lparr>Edge_ParentGroupID := example_id CHR ''1'', Edge_Position := 0\<rparr>"
  have first: "EditLegacySources literal_engines (example_id CHR ''1'') [] (Some [?e]) False None =
      Inr [edge_source (example_id CHR ''1'') 0 ?e]" by code_simp
  have again: "EditLegacySources literal_engines (example_id CHR ''1'') [] (Some [?f]) False None =
      Inr [edge_source (example_id CHR ''1'') 0 ?f]" by code_simp
  show ?thesis using first again EditLegacySources_roundtrip[OF first] EditLegacySources_roundtrip[OF again]
    by simp
qed

end
