(* ===== verification/Node_Admission.thy ===== *)
theory Node_Admission
  imports Policy_Graph
begin

section \<open>Node admission (resolver/admission.go, resolver/risk\_admission.go)\<close>

text \<open>
  The first stage of the resolver: which nodes of the inventory are admitted. A node is excluded
  when it is inactive, when an explicit exclusion or a risk decision names it, or when the first
  admission rule that matches it rejects or quarantines it. Diagnostics carry the texts of the
  source. The result map \<open>AdmittedNodeMap\<close> is an association list, written with \<open>gm_put\<close>.
\<close>

subsection \<open>Diagnostics\<close>

definition DiagnosticSeverityInfo :: string where [enum_defs]: "DiagnosticSeverityInfo = ''info''"
definition DiagnosticSeverityWarning :: string where [enum_defs]: "DiagnosticSeverityWarning = ''warning''"
definition DiagnosticSeverityError :: string where [enum_defs]: "DiagnosticSeverityError = ''error''"

record Diagnostic =
  Diag_Severity :: string
  Diag_Code :: string
  Diag_Message :: string
  Diag_Target :: string
  Diag_Reason :: string
  Diag_ExcludedCount :: "int option"

definition diagnostic :: "string \<Rightarrow> string \<Rightarrow> string \<Rightarrow> string \<Rightarrow> string \<Rightarrow> Diagnostic" where
  "diagnostic sev code msg target reason =
     \<lparr>Diag_Severity = sev, Diag_Code = code, Diag_Message = msg, Diag_Target = target,
      Diag_Reason = reason, Diag_ExcludedCount = None\<rparr>"

subsection \<open>Admission expressions\<close>

definition cleanQuotes :: "string \<Rightarrow> string" where
  "cleanQuotes s =
     (let s = trim_space s;
          single = [CHR 0x27]; double = [CHR 0x22]
      in if (has_prefix s single \<and> has_suffix s single \<or> has_prefix s double \<and> has_suffix s double) \<and>
            2 \<le> length s
         then butlast (tl s) else s)"

definition matchFieldEqual :: "Node \<Rightarrow> string \<Rightarrow> string \<Rightarrow> bool" where
  "matchFieldEqual node field val =
     (if field = ''protocol'' then equal_fold (Node_Protocol node) val
      else if field = ''name'' \<or> field = ''display_name'' then equal_fold (Node_DisplayName node) val
      else if field = ''country'' then contains (to_upper (Node_DisplayName node)) (to_upper val)
      else if field = ''logical_id'' \<or> field = ''id'' then Node_LogicalID node = val
      else equal_fold (Node_DisplayName node) val)"

definition matchFieldContains :: "Node \<Rightarrow> string \<Rightarrow> string \<Rightarrow> bool" where
  "matchFieldContains node field val =
     (if field = ''protocol'' then contains (to_lower (Node_Protocol node)) (to_lower val)
      else if field = ''name'' \<or> field = ''display_name''
      then contains (to_lower (Node_DisplayName node)) (to_lower val)
      else if field = ''country'' then contains (to_upper (Node_DisplayName node)) (to_upper val)
      else contains (to_lower (Node_DisplayName node)) (to_lower val))"

definition matchFieldRegex :: "regex_engines \<Rightarrow> Node \<Rightarrow> string \<Rightarrow> string \<Rightarrow> bool" where
  "matchFieldRegex eng node field pattern =
     (case re2_compile eng pattern of
        Inl _ \<Rightarrow> False
      | Inr re \<Rightarrow> if field = ''protocol'' then re (Node_Protocol node) else re (Node_DisplayName node))"

text \<open>
  The two parts of \<open>strings.SplitN(s, op, 2)\<close>. Every use is behind a test that \<open>s\<close> contains the
  operator, where there are two parts.
\<close>

definition split_op :: "string \<Rightarrow> string \<Rightarrow> string \<times> string" where
  "split_op s op = (case cut_at s op of Some parts \<Rightarrow> parts | None \<Rightarrow> (s, []))"

definition matchesAdmissionExpression :: "regex_engines \<Rightarrow> Node \<Rightarrow> string \<Rightarrow> bool" where
  "matchesAdmissionExpression eng node expr =
     (let trimmed = trim_space expr;
          lower = to_lower trimmed
      in if trimmed = [] \<or> trimmed = ''*'' \<or> equal_fold trimmed ''ALL'' \<or> equal_fold trimmed ''ANY'' then True
         else if contains lower ''==''
         then (let (a, b) = split_op trimmed ''==''
               in matchFieldEqual node (to_lower (trim_space a)) (cleanQuotes (trim_space b)))
         else if contains lower ''!=''
         then (let (a, b) = split_op trimmed ''!=''
               in \<not> matchFieldEqual node (to_lower (trim_space a)) (cleanQuotes (trim_space b)))
         else if contains lower ''contains''
         then (let (a, b) = split_op lower ''contains''
               in matchFieldContains node (trim_space a) (cleanQuotes (trim_space b)))
         else if contains lower ''=~'' \<or> contains lower ''~=''
         then (let op = (if contains lower ''~='' then ''~='' else ''=~'');
                   (a, b) = split_op trimmed op
               in matchFieldRegex eng node (to_lower (trim_space a)) (cleanQuotes (trim_space b)))
         else if (case re2_compile eng (''(?i)'' @ trimmed) of
                    Inl _ \<Rightarrow> False | Inr re \<Rightarrow> re (Node_DisplayName node)) then True
         else contains (to_lower (Node_DisplayName node)) (to_lower trimmed))"

subsection \<open>The exchange sort of the rules\<close>

definition exchange_step :: "('a \<Rightarrow> 'k :: linorder) \<Rightarrow> nat \<Rightarrow> nat \<Rightarrow> 'a list \<Rightarrow> 'a list" where
  "exchange_step key i j xs = (if key (xs ! j) < key (xs ! i) then xs[i := xs ! j, j := xs ! i] else xs)"

definition exchange_pass :: "('a \<Rightarrow> 'k :: linorder) \<Rightarrow> nat \<Rightarrow> 'a list \<Rightarrow> 'a list" where
  "exchange_pass key i xs = fold (exchange_step key i) [Suc i..<length xs] xs"

definition exchange_sort :: "('a \<Rightarrow> 'k :: linorder) \<Rightarrow> 'a list \<Rightarrow> 'a list" where
  "exchange_sort key xs = fold (exchange_pass key) [0..<length xs - 1] xs"

subsection \<open>Node admission\<close>

record nodeAdmissionResult =
  Adm_AdmittedNodes :: "Node list"
  Adm_AdmittedNodeMap :: "(string, Node) gomap"
  Adm_AdmittedNodeIDs :: "string list"
  Adm_ExcludedNodeIDs :: "string list"
  Adm_Diagnostics :: "Diagnostic list"

fun uniqueStrings :: "string list \<Rightarrow> string list" where
  "uniqueStrings [] = []"
| "uniqueStrings [x] = [x]"
| "uniqueStrings (x # y # xs) = (if x = y then uniqueStrings (x # xs) else x # uniqueStrings (y # xs))"

definition node_text :: "Node \<Rightarrow> string" where
  "node_text node = ''node '' @ Node_LogicalID node @ '' ('' @ Node_DisplayName node @ '')''"

definition exclude_node :: "Node \<Rightarrow> string \<Rightarrow> string \<Rightarrow> string \<Rightarrow> nodeAdmissionResult \<Rightarrow> nodeAdmissionResult" where
  "exclude_node node sev code msg res =
     res\<lparr>Adm_ExcludedNodeIDs := Adm_ExcludedNodeIDs res @ [Node_LogicalID node],
         Adm_Diagnostics := Adm_Diagnostics res @
           [diagnostic sev code (node_text node @ msg) (Node_LogicalID node) []]\<rparr>"

definition admit_node :: "Node \<Rightarrow> nodeAdmissionResult \<Rightarrow> nodeAdmissionResult" where
  "admit_node node res =
     res\<lparr>Adm_AdmittedNodes := Adm_AdmittedNodes res @ [node],
         Adm_AdmittedNodeMap := gm_put (Adm_AdmittedNodeMap res) (Node_LogicalID node) node,
         Adm_AdmittedNodeIDs := Adm_AdmittedNodeIDs res @ [Node_LogicalID node]\<rparr>"

definition admission_step ::
  "regex_engines \<Rightarrow> AdmissionRule list \<Rightarrow> string list \<Rightarrow> nodeAdmissionResult \<Rightarrow> Node \<Rightarrow> nodeAdmissionResult" where
  "admission_step eng sortedRules riskExcluded res node =
     (if \<not> Node_Active node
      then exclude_node node DiagnosticSeverityInfo ''node_inactive'' '' is inactive in inventory and excluded'' res
      else if Node_LogicalID node \<in> set riskExcluded
      then exclude_node node DiagnosticSeverityWarning ''node_excluded_by_risk_policy'' '' was excluded by risk policy'' res
      else case find (\<lambda>rule. matchesAdmissionExpression eng node (AdmRule_Expression rule)) sortedRules of
             None \<Rightarrow> admit_node node res
           | Some rule \<Rightarrow>
               if AdmRule_Action rule = RuleActionReject
               then exclude_node node DiagnosticSeverityWarning ''node_rejected_by_admission_rule''
                      ('' was rejected by admission rule '' @ go_quote (AdmRule_Name rule)) res
               else if AdmRule_Action rule = RuleActionQuarantine
               then exclude_node node DiagnosticSeverityWarning ''node_quarantined_by_admission_rule''
                      ('' was quarantined by admission rule '' @ go_quote (AdmRule_Name rule)) res
               else admit_node node res)"

definition evaluateNodeAdmission ::
  "regex_engines \<Rightarrow> Node list \<Rightarrow> AdmissionRule list \<Rightarrow> string list \<Rightarrow> nodeAdmissionResult" where
  "evaluateNodeAdmission eng nodes admissionRules excludedNodeIDs =
     (let res0 = \<lparr>Adm_AdmittedNodes = [], Adm_AdmittedNodeMap = [], Adm_AdmittedNodeIDs = [],
                  Adm_ExcludedNodeIDs = [], Adm_Diagnostics = []\<rparr>;
          sortedRules = exchange_sort AdmRule_Position admissionRules;
          res = foldl (admission_step eng sortedRules excludedNodeIDs) res0 nodes
      in res\<lparr>Adm_AdmittedNodeIDs := sort (Adm_AdmittedNodeIDs res),
             Adm_ExcludedNodeIDs := uniqueStrings (sort (Adm_ExcludedNodeIDs res))\<rparr>)"

subsection \<open>Risk decisions\<close>

definition RiskActionAllow :: string where [enum_defs]: "RiskActionAllow = ''allow''"
definition RiskActionReview :: string where [enum_defs]: "RiskActionReview = ''review''"
definition RiskActionBlock :: string where [enum_defs]: "RiskActionBlock = ''block''"
definition RiskActionUnknown :: string where [enum_defs]: "RiskActionUnknown = ''unknown''"

lemmas risk_actions = RiskActionAllow_def RiskActionReview_def RiskActionBlock_def RiskActionUnknown_def

record RiskDecision =
  Dec_NodeLogicalID :: string
  Dec_PolicyRevisionID :: string
  Dec_Decision :: string
  Dec_ReasonCode :: string
  Dec_ObservationDigestSet :: "string list"
  Dec_EvaluatedAt :: time

definition riskDiagnosticSeverity :: "string \<Rightarrow> string \<Rightarrow> string" where
  "riskDiagnosticSeverity decision reviewAction =
     (if decision = RiskActionBlock \<or> decision = RiskActionReview \<and> reviewAction \<noteq> RiskActionAllow \<or>
         decision = RiskActionUnknown
      then DiagnosticSeverityWarning else DiagnosticSeverityInfo)"

definition risk_code_message :: "RiskDecision \<Rightarrow> string \<Rightarrow> (string \<times> string) option" where
  "risk_code_message d reviewAction =
     (let node = ''node '' @ Dec_NodeLogicalID d; reason = Dec_ReasonCode d
      in if Dec_Decision d = RiskActionBlock
         then Some (''risk_blocked'', node @ '' was excluded by risk policy: '' @ reason)
         else if Dec_Decision d = RiskActionReview
         then (if reviewAction = RiskActionAllow
               then Some (''risk_review_allowed'', node @ '' requires risk review but remains admitted: '' @ reason)
               else Some (''risk_review'', node @ '' was excluded pending risk review: '' @ reason))
         else if Dec_Decision d = RiskActionUnknown
         then Some (''risk_unknown'', node @ '' was excluded because risk decision is unknown: '' @ reason)
         else None)"

definition risk_step ::
  "string set \<Rightarrow> string \<Rightarrow> string \<Rightarrow> (string, unit) gomap \<times> Diagnostic list \<Rightarrow> RiskDecision \<Rightarrow>
   (string, unit) gomap \<times> Diagnostic list" where
  "risk_step nodeSet policyRevision reviewAction acc d =
     (if Dec_PolicyRevisionID d \<noteq> policyRevision \<or> Dec_NodeLogicalID d \<notin> nodeSet then acc
      else case risk_code_message d reviewAction of
             None \<Rightarrow> acc
           | Some (code, message) \<Rightarrow>
               (if Dec_Decision d = RiskActionBlock \<or>
                   Dec_Decision d = RiskActionReview \<and> reviewAction \<noteq> RiskActionAllow \<or>
                   Dec_Decision d = RiskActionUnknown
                then gm_put (fst acc) (Dec_NodeLogicalID d) () else fst acc,
                snd acc @ [diagnostic (riskDiagnosticSeverity (Dec_Decision d) reviewAction) code message
                             (Dec_NodeLogicalID d) []]))"

definition evaluateRiskAdmission ::
  "Node list \<Rightarrow> string \<Rightarrow> RiskDecision list \<Rightarrow> string \<Rightarrow> string list \<times> Diagnostic list" where
  "evaluateRiskAdmission nodes policyRevision decisions reviewAction =
     (if policyRevision = [] \<or> length decisions = 0 then ([], [])
      else let nodeSet = set (map Node_LogicalID nodes);
               reviewAction = (if reviewAction \<noteq> RiskActionAllow then RiskActionBlock else reviewAction);
               (excluded, diagnostics) = foldl (risk_step nodeSet policyRevision reviewAction) ([], []) decisions
           in (sort (map fst excluded), diagnostics))"

subsection \<open>The sort is a sort\<close>

lemma exchange_step_mset:
  assumes "i < j" "j < length xs"
  shows "mset (exchange_step key i j xs) = mset xs"
  using assms mset_swap[of j xs i] by (simp add: exchange_step_def)

lemma exchange_step_props:
  assumes "i < j" "j < length xs"
  shows "length (exchange_step key i j xs) = length xs"
    and "k < i \<Longrightarrow> exchange_step key i j xs ! k = xs ! k"
    and "key (exchange_step key i j xs ! i) = min (key (xs ! i)) (key (xs ! j))"
    and "key (exchange_step key i j xs ! j) = max (key (xs ! i)) (key (xs ! j))"
    and "i < k \<Longrightarrow> k \<noteq> j \<Longrightarrow> exchange_step key i j xs ! k = xs ! k"
  using assms by (auto simp: exchange_step_def nth_list_update min_def max_def)

lemma exchange_pass_inv:
  fixes key :: "'a \<Rightarrow> 'k :: linorder"
  assumes "i < length xs" "m \<le> length xs"
  defines "ys \<equiv> fold (exchange_step key i) [Suc i..<m] xs"
  shows "length ys = length xs \<and> mset ys = mset xs \<and> (\<forall>k < i. ys ! k = xs ! k) \<and>
         (\<forall>k. i < k \<longrightarrow> k < m \<longrightarrow> key (ys ! i) \<le> key (ys ! k))"
  using assms(2) unfolding ys_def
proof (induction m)
  case (Suc m)
  show ?case
  proof (cases "i < m")
    case True
    define zs where "zs = fold (exchange_step key i) [Suc i..<m] xs"
    have "m \<le> length xs" using Suc.prems by simp
    note IH = Suc.IH[OF this, folded zs_def]
    have zs: "length zs = length xs" "mset zs = mset xs" "\<forall>k < i. zs ! k = xs ! k"
      "\<forall>k. i < k \<longrightarrow> k < m \<longrightarrow> key (zs ! i) \<le> key (zs ! k)" using IH by blast+
    have lt: "m < length zs" using Suc.prems zs(1) by simp
    note step = exchange_step_mset[OF True lt, where key = key] exchange_step_props[OF True lt, where key = key]
    have le: "key (exchange_step key i m zs ! i) \<le> key (exchange_step key i m zs ! k)"
      if "i < k" "k < Suc m" for k
    proof (cases "k = m")
      case False
      with that zs(4) have "key (zs ! i) \<le> key (zs ! k)" by simp
      with step(4) step(6)[OF that(1) False] show ?thesis by (simp add: min.coboundedI1)
    qed (use step(4,5) in \<open>simp add: min.coboundedI1 max.coboundedI1\<close>)
    have eq: "fold (exchange_step key i) [Suc i..<Suc m] xs = exchange_step key i m zs"
      using True by (simp add: zs_def)
    show ?thesis unfolding eq using zs(1-3) step(1-3) le by simp
  next
    case False
    then have "[Suc i..<Suc m] = []" by simp
    with False show ?thesis by (simp del: upt_Suc)
  qed
qed simp

lemma in_set_drop_iff: "x \<in> set (drop m xs) \<longleftrightarrow> (\<exists>l. m \<le> l \<and> l < length xs \<and> x = xs ! l)"
proof
  assume "x \<in> set (drop m xs)"
  then obtain j where "j < length xs - m" "x = xs ! (m + j)" by (auto simp: in_set_conv_nth)
  then show "\<exists>l. m \<le> l \<and> l < length xs \<and> x = xs ! l" by (intro exI[of _ "m + j"]) auto
next
  assume "\<exists>l. m \<le> l \<and> l < length xs \<and> x = xs ! l"
  then obtain l where l: "m \<le> l" "l < length xs" "x = xs ! l" by blast
  then have "x = drop m xs ! (l - m)" "l - m < length (drop m xs)" by auto
  then show "x \<in> set (drop m xs)" by (metis nth_mem)
qed

lemma exchange_sort_inv:
  fixes key :: "'a \<Rightarrow> 'k :: linorder"
  assumes "m \<le> length xs - 1"
  defines "ys \<equiv> fold (exchange_pass key) [0..<m] xs"
  shows "length ys = length xs \<and> mset ys = mset xs \<and>
         (\<forall>i < m. \<forall>k. i < k \<longrightarrow> k < length xs \<longrightarrow> key (ys ! i) \<le> key (ys ! k))"
  using assms(1) unfolding ys_def
proof (induction m)
  case (Suc m)
  define zs where "zs = fold (exchange_pass key) [0..<m] xs"
  define ys where "ys = exchange_pass key m zs"
  have "m \<le> length xs - 1" using Suc.prems by simp
  note IH = Suc.IH[OF this, folded zs_def]
  have zs: "length zs = length xs" "mset zs = mset xs"
    "\<forall>i < m. \<forall>k. i < k \<longrightarrow> k < length xs \<longrightarrow> key (zs ! i) \<le> key (zs ! k)"
    using IH by blast+
  have "m < length zs" using Suc.prems zs(1) by linarith
  note pass = exchange_pass_inv[OF this order_refl, of key, folded exchange_pass_def, folded ys_def]
  have ys: "length ys = length xs" "mset ys = mset xs" "\<forall>k < m. ys ! k = zs ! k"
    "\<forall>k. m < k \<longrightarrow> k < length xs \<longrightarrow> key (ys ! m) \<le> key (ys ! k)"
    using pass zs(1,2) by simp_all
  have rest: "set (drop m ys) = set (drop m zs)"
  proof -
    have "take m ys = take m zs" using ys zs by (intro nth_equalityI) auto
    then have "mset (drop m ys) = mset (drop m zs)"
      using ys(2) zs(2) by (metis add_left_cancel append_take_drop_id mset_append)
    then show ?thesis by (rule mset_eq_setD)
  qed
  have le: "key (ys ! i) \<le> key (ys ! k)" if "i < Suc m" "i < k" "k < length xs" for i k
  proof (cases "i < m")
    case True
    show ?thesis
    proof (cases "k < m")
      case False
      then have "ys ! k \<in> set (drop m ys)"
        using that ys(1) by (auto simp: in_set_drop_iff not_less)
      then have "ys ! k \<in> set (drop m zs)" by (simp only: rest)
      then obtain l where "m \<le> l" "l < length xs" "ys ! k = zs ! l"
        using zs(1) by (auto simp: in_set_drop_iff)
      with True ys(3) zs(3) show ?thesis by simp
    qed (use True that ys(3) zs(3) in simp)
  next
    case False
    then have "i = m" using that(1) by simp
    then show ?thesis using that ys(4) by blast
  qed
  have eq: "fold (exchange_pass key) [0..<Suc m] xs = ys" by (simp add: zs_def ys_def)
  show ?case unfolding eq using ys(1,2) le by blast
qed simp

lemma exchange_sort_mset: "mset (exchange_sort key xs) = mset xs"
  using exchange_sort_inv[of "length xs - 1" xs key] by (simp add: exchange_sort_def)

lemma exchange_sort_set [simp]: "set (exchange_sort key xs) = set xs"
  by (rule mset_eq_setD) (rule exchange_sort_mset)

lemma exchange_sort_sorted: "sorted (map key (exchange_sort key xs))"
  using exchange_sort_inv[of "length xs - 1" xs key]
  by (auto simp: exchange_sort_def sorted_iff_nth_mono_less)

subsection \<open>A stage that keeps some nodes and excludes the others\<close>

text \<open>
  The resolver narrows the inventory in two stages, admission and the global filter. Each keeps the
  nodes that satisfy a predicate, in order, and reports the identifiers of the others. The locale
  is that contract; the resolver relies on it for both stages.
\<close>

locale node_stage =
  fixes keep :: "Node \<Rightarrow> bool"
    and kept :: "Node list \<Rightarrow> Node list"
    and excluded :: "Node list \<Rightarrow> string list"
  assumes kept_eq: "kept nodes = filter keep nodes"
    and excluded_set: "set (excluded nodes) = Node_LogicalID ` {n \<in> set nodes. \<not> keep n}"
begin

lemma kept_sound: "n \<in> set (kept nodes) \<Longrightarrow> n \<in> set nodes \<and> keep n"
  by (simp add: kept_eq)

lemma covers: "Node_LogicalID ` set nodes = Node_LogicalID ` set (kept nodes) \<union> set (excluded nodes)"
  by (auto simp: kept_eq excluded_set)

lemma disjoint:
  assumes "distinct (map Node_LogicalID nodes)"
  shows "Node_LogicalID ` set (kept nodes) \<inter> set (excluded nodes) = {}"
proof -
  have "inj_on Node_LogicalID (set nodes)" using assms by (simp add: distinct_map)
  then show ?thesis by (auto simp: kept_eq excluded_set dest: inj_onD)
qed

lemma kept_distinct: "distinct (map Node_LogicalID nodes) \<Longrightarrow> distinct (map Node_LogicalID (kept nodes))"
  by (simp add: kept_eq distinct_map_filter)

end

subsection \<open>What admission decides\<close>

definition rule_excludes :: "AdmissionRule \<Rightarrow> bool" where
  "rule_excludes rule \<longleftrightarrow> AdmRule_Action rule = RuleActionReject \<or> AdmRule_Action rule = RuleActionQuarantine"

definition node_admitted :: "regex_engines \<Rightarrow> AdmissionRule list \<Rightarrow> string list \<Rightarrow> Node \<Rightarrow> bool" where
  "node_admitted eng rules riskExcluded node \<longleftrightarrow>
     Node_Active node \<and> Node_LogicalID node \<notin> set riskExcluded \<and>
     (case find (\<lambda>rule. matchesAdmissionExpression eng node (AdmRule_Expression rule)) rules of
        None \<Rightarrow> True | Some rule \<Rightarrow> \<not> rule_excludes rule)"

lemma admission_step_cases:
  "if node_admitted eng rules excl node then admission_step eng rules excl res node = admit_node node res
   else \<exists>sev code msg. admission_step eng rules excl res node = exclude_node node sev code msg res"
  unfolding admission_step_def node_admitted_def rule_excludes_def
  by (auto split: option.splits)

lemma admission_fold:
  "Adm_AdmittedNodes (foldl (admission_step eng rules excl) res nodes) =
     Adm_AdmittedNodes res @ filter (node_admitted eng rules excl) nodes \<and>
   Adm_AdmittedNodeIDs (foldl (admission_step eng rules excl) res nodes) =
     Adm_AdmittedNodeIDs res @ map Node_LogicalID (filter (node_admitted eng rules excl) nodes) \<and>
   Adm_ExcludedNodeIDs (foldl (admission_step eng rules excl) res nodes) =
     Adm_ExcludedNodeIDs res @ map Node_LogicalID (filter (\<lambda>n. \<not> node_admitted eng rules excl n) nodes) \<and>
   map Diag_Target (Adm_Diagnostics (foldl (admission_step eng rules excl) res nodes)) =
     map Diag_Target (Adm_Diagnostics res) @
       map Node_LogicalID (filter (\<lambda>n. \<not> node_admitted eng rules excl n) nodes) \<and>
   Adm_AdmittedNodeMap (foldl (admission_step eng rules excl) res nodes) =
     foldl (\<lambda>m n. gm_put m (Node_LogicalID n) n) (Adm_AdmittedNodeMap res)
       (filter (node_admitted eng rules excl) nodes)"
proof (induction nodes arbitrary: res)
  case (Cons n nodes)
  show ?case
  proof (cases "node_admitted eng rules excl n")
    case True
    then show ?thesis
      using admission_step_cases[of eng rules excl n res] Cons[of "admit_node n res"]
      by (simp add: admit_node_def)
  next
    case False
    then obtain sev code msg where step: "admission_step eng rules excl res n = exclude_node n sev code msg res"
      using admission_step_cases[of eng rules excl n res] by auto
    then show ?thesis
      using False Cons[of "exclude_node n sev code msg res"] by (simp add: exclude_node_def diagnostic_def)
  qed
qed simp

lemma uniqueStrings_eq: "uniqueStrings xs = remdups_adj xs"
  by (induction xs rule: uniqueStrings.induct) auto

definition admission_keep :: "regex_engines \<Rightarrow> AdmissionRule list \<Rightarrow> string list \<Rightarrow> Node \<Rightarrow> bool" where
  "admission_keep eng rules excl = node_admitted eng (exchange_sort AdmRule_Position rules) excl"

interpretation admission: node_stage "admission_keep eng rules excl"
  "\<lambda>nodes. Adm_AdmittedNodes (evaluateNodeAdmission eng nodes rules excl)"
  "\<lambda>nodes. Adm_ExcludedNodeIDs (evaluateNodeAdmission eng nodes rules excl)" for eng rules excl
  by unfold_locales
    (auto simp: evaluateNodeAdmission_def admission_keep_def Let_def admission_fold uniqueStrings_eq)

text \<open>
  C32. Admission keeps, in order, exactly the nodes that are active, are not named by an exclusion and
  are not rejected or quarantined by the first rule that matches them, where the rules are taken in
  some order sorted by position. Every node of the inventory is accounted for; the excluded
  identifiers come sorted and without duplicates, and each exclusion has one diagnostic that names
  the node.
\<close>

theorem evaluateNodeAdmission_correct:
  "let res = evaluateNodeAdmission eng nodes rules excl
   in (\<exists>order. mset order = mset rules \<and> sorted (map AdmRule_Position order) \<and>
         Adm_AdmittedNodes res = filter (node_admitted eng order excl) nodes \<and>
         map Diag_Target (Adm_Diagnostics res) =
           map Node_LogicalID (filter (\<lambda>n. \<not> node_admitted eng order excl n) nodes)) \<and>
      Node_LogicalID ` set nodes = set (Adm_AdmittedNodeIDs res) \<union> set (Adm_ExcludedNodeIDs res) \<and>
      sorted (Adm_AdmittedNodeIDs res) \<and> sorted (Adm_ExcludedNodeIDs res) \<and> distinct (Adm_ExcludedNodeIDs res)"
proof -
  let ?order = "exchange_sort AdmRule_Position rules"
  have "Adm_AdmittedNodes (evaluateNodeAdmission eng nodes rules excl) = filter (node_admitted eng ?order excl) nodes"
    using admission.kept_eq[of eng nodes rules excl] by (simp add: admission_keep_def)
  moreover have "map Diag_Target (Adm_Diagnostics (evaluateNodeAdmission eng nodes rules excl)) =
      map Node_LogicalID (filter (\<lambda>n. \<not> node_admitted eng ?order excl n) nodes)"
    by (simp add: evaluateNodeAdmission_def Let_def admission_fold)
  moreover have "set (Adm_AdmittedNodeIDs (evaluateNodeAdmission eng nodes rules excl)) =
      Node_LogicalID ` set (Adm_AdmittedNodes (evaluateNodeAdmission eng nodes rules excl))"
    by (simp add: evaluateNodeAdmission_def Let_def admission_fold)
  moreover have "sorted (Adm_AdmittedNodeIDs (evaluateNodeAdmission eng nodes rules excl))"
    "sorted (Adm_ExcludedNodeIDs (evaluateNodeAdmission eng nodes rules excl))"
    "distinct (Adm_ExcludedNodeIDs (evaluateNodeAdmission eng nodes rules excl))"
    by (simp_all add: evaluateNodeAdmission_def Let_def uniqueStrings_eq sorted_remdups_adj
          sorted_remdups_adj_distinct)
  ultimately show ?thesis
    using admission.covers[of nodes eng rules excl] exchange_sort_mset[of AdmRule_Position rules]
      exchange_sort_sorted[of AdmRule_Position rules]
    unfolding Let_def by auto
qed

subsection \<open>Risk decisions fail closed\<close>

definition decision_excludes :: "string \<Rightarrow> RiskDecision \<Rightarrow> bool" where
  "decision_excludes reviewAction d \<longleftrightarrow>
     Dec_Decision d = RiskActionBlock \<or> Dec_Decision d = RiskActionUnknown \<or>
     Dec_Decision d = RiskActionReview \<and> reviewAction \<noteq> RiskActionAllow"

lemma risk_step_excluded:
  "set (map fst (fst (risk_step V revn rvw acc d))) =
   set (map fst (fst acc)) \<union>
     (if Dec_PolicyRevisionID d = revn \<and> Dec_NodeLogicalID d \<in> V \<and> decision_excludes rvw d
      then {Dec_NodeLogicalID d} else {})"
  using gm_keys_put[of "fst acc" "Dec_NodeLogicalID d" "()"]
  by (auto simp: risk_step_def risk_code_message_def decision_excludes_def Let_def)

lemma risk_step_ok: "gm_ok (fst acc) \<Longrightarrow> gm_ok (fst (risk_step V revn rvw acc d))"
  by (auto simp: risk_step_def split: option.split)

lemma risk_fold:
  "gm_ok (fst acc) \<Longrightarrow>
   gm_ok (fst (foldl (risk_step V revn rvw) acc ds)) \<and>
   set (map fst (fst (foldl (risk_step V revn rvw) acc ds))) =
   set (map fst (fst acc)) \<union>
     Dec_NodeLogicalID ` {d \<in> set ds. Dec_PolicyRevisionID d = revn \<and> Dec_NodeLogicalID d \<in> V \<and> decision_excludes rvw d}"
proof (induction ds arbitrary: acc)
  case (Cons d ds)
  from Cons.IH[OF risk_step_ok[OF Cons.prems]] show ?case
    using risk_step_excluded[of V revn rvw acc d] by auto
qed simp

lemma evaluateRiskAdmission_set:
  "set (fst (evaluateRiskAdmission nodes revision decisions reviewAction)) =
     (if revision = [] then {}
      else Dec_NodeLogicalID ` {d \<in> set decisions. Dec_PolicyRevisionID d = revision \<and>
             Dec_NodeLogicalID d \<in> Node_LogicalID ` set nodes \<and> decision_excludes reviewAction d})" (is ?set)
  and evaluateRiskAdmission_sorted: "sorted (fst (evaluateRiskAdmission nodes revision decisions reviewAction))" (is ?sorted)
  and evaluateRiskAdmission_distinct: "distinct (fst (evaluateRiskAdmission nodes revision decisions reviewAction))" (is ?distinct)
proof -
  let ?rvw = "if reviewAction \<noteq> RiskActionAllow then RiskActionBlock else reviewAction"
  have excl: "decision_excludes ?rvw d = decision_excludes reviewAction d" for d
    by (simp add: decision_excludes_def risk_actions)
  note fold = risk_fold[of "([], [])" "set (map Node_LogicalID nodes)" revision ?rvw decisions, unfolded excl]
  have "?set \<and> ?sorted \<and> ?distinct"
  proof (cases "revision = [] \<or> decisions = []")
    case False
    then have "fst (evaluateRiskAdmission nodes revision decisions reviewAction) =
        sort (map fst (fst (foldl (risk_step (set (map Node_LogicalID nodes)) revision ?rvw) ([], []) decisions)))"
      by (simp add: evaluateRiskAdmission_def Let_def split: prod.split)
    with fold False show ?thesis by (simp add: gm_ok_def Let_def)
  qed (auto simp: evaluateRiskAdmission_def)
then show ?set ?sorted ?distinct by blast+
qed

text \<open>
  C33. Under a risk policy revision, the nodes that risk admission excludes are exactly those of the
  inventory with a decision of that revision that blocks, is unknown, or asks for a review that
  the policy does not allow. A decision of another revision excludes nothing, and without a revision
  nothing is excluded. The list is sorted and free of duplicates.
\<close>

theorem evaluateRiskAdmission_exact:
  "let excluded = fst (evaluateRiskAdmission nodes revision decisions reviewAction)
   in set excluded =
        (if revision = [] then {}
         else Dec_NodeLogicalID ` {d \<in> set decisions. Dec_PolicyRevisionID d = revision \<and>
                Dec_NodeLogicalID d \<in> Node_LogicalID ` set nodes \<and> decision_excludes reviewAction d}) \<and>
      sorted excluded \<and> distinct excluded"
  by (simp add: Let_def evaluateRiskAdmission_set evaluateRiskAdmission_sorted evaluateRiskAdmission_distinct)

end
