(* ===== verification/Group_Resolution.thy ===== *)
theory Group_Resolution
  imports Node_Admission
begin

section \<open>Resolution of one group (resolver/graph.go, resolver/types.go)\<close>

text \<open>
  The closure \<open>resolveGroupMemo\<close> of \<open>resolveGroups\<close>: the pipeline of member sources of a group is run
  in order of position, each source adding items to the current list or removing items from it, and
  the resulting list is expanded to its leaves. The closure's variables (the memo table, the set of
  groups being resolved and the diagnostics) are the state \<open>rstate\<close>; what it only reads is the
  context \<open>rctx\<close>.

  A step of the pipeline may resolve another group. The definitions take that recursive call as an
  argument \<open>rec\<close>, and \<open>resolveGroupMemo\<close> ties the knot with a fuel that bounds the nesting; \<open>None\<close> is
  its exhaustion. For a policy that validates, the number of groups is enough fuel.
  Group identifiers are primary keys of the store, so a group's member list is a value here.
\<close>

subsection \<open>Data\<close>

definition MemberKindGroup :: string where [enum_defs]: "MemberKindGroup = ''group''"
definition MemberKindNode :: string where [enum_defs]: "MemberKindNode = ''node''"
definition MemberKindBuiltin :: string where [enum_defs]: "MemberKindBuiltin = ''builtin''"

lemmas member_kinds = MemberKindGroup_def MemberKindNode_def MemberKindBuiltin_def

record resolvedItem =
  item_id :: string
  item_kind :: string
  item_targetID :: string
  item_displayName :: string

record ResolvedGroupMember =
  Mem_Kind :: string
  Mem_TargetID :: string
  Mem_DisplayName :: string
  Mem_Position :: nat

record groupMemo =
  memo_members :: "ResolvedGroupMember list"
  memo_childGroupIDs :: "string list"
  memo_nodeLogicalIDs :: "string list"
  memo_expandedNodeIDs :: "string list"
  memo_effectiveEmptyPass :: bool
  memo_leafItems :: "resolvedItem list"
  memo_leafNodeSet :: "string list"
  memo_candidateCount :: nat

record rctx =
  ctx_eng :: regex_engines
  ctx_groupMap :: "(string, NodeGroup) gomap"
  ctx_groupSources :: "(string, MemberSource list) gomap"
  ctx_sortedGlobalNodes :: "Node list"
  ctx_globalAdmittedMap :: "(string, Node) gomap"
  ctx_admittedNodeMap :: "(string, Node) gomap"
  ctx_nodeSources :: "(string, NodeSource list) gomap"
  ctx_latestObs :: "(string, latest_obs) gomap"
  ctx_asOf :: time

record rstate =
  rs_memo :: "(string, groupMemo) gomap"
  rs_resolving :: "string list"
  rs_diagnostics :: "Diagnostic list"

record pipeline =
  pl_items :: "resolvedItem list"
  pl_seen :: "string list"
  pl_count :: nat

type_synonym recursive_call = "string \<Rightarrow> rstate \<Rightarrow> (groupMemo \<times> rstate) option"

definition empty_memo :: groupMemo where
  "empty_memo =
     \<lparr>memo_members = [], memo_childGroupIDs = [], memo_nodeLogicalIDs = [], memo_expandedNodeIDs = [],
      memo_effectiveEmptyPass = False, memo_leafItems = [], memo_leafNodeSet = [], memo_candidateCount = 0\<rparr>"

definition node_item :: "Node \<Rightarrow> string \<Rightarrow> resolvedItem" where
  "node_item node nodeID =
     \<lparr>item_id = ''node:'' @ nodeID, item_kind = MemberKindNode, item_targetID = nodeID,
      item_displayName = Node_DisplayName node\<rparr>"

definition group_item :: "NodeGroup \<Rightarrow> string \<Rightarrow> resolvedItem" where
  "group_item g targetID =
     \<lparr>item_id = ''group:'' @ targetID, item_kind = MemberKindGroup, item_targetID = targetID,
      item_displayName = Group_Name g\<rparr>"

definition builtin_item :: "string \<Rightarrow> resolvedItem" where
  "builtin_item name =
     \<lparr>item_id = ''builtin:'' @ name, item_kind = MemberKindBuiltin, item_targetID = name, item_displayName = name\<rparr>"

definition add_diag :: "Diagnostic \<Rightarrow> rstate \<Rightarrow> rstate" where
  "add_diag d st = st\<lparr>rs_diagnostics := rs_diagnostics st @ [d]\<rparr>"

definition add_item :: "resolvedItem \<Rightarrow> pipeline \<Rightarrow> pipeline" where
  "add_item it pl =
     (if item_id it \<in> set (pl_seen pl) then pl
      else pl\<lparr>pl_seen := item_id it # pl_seen pl, pl_items := pl_items pl @ [it]\<rparr>)"

definition add_count :: "nat \<Rightarrow> pipeline \<Rightarrow> pipeline" where
  "add_count n pl = pl\<lparr>pl_count := pl_count pl + n\<rparr>"

text \<open>\<open>domain.MatchesFilter\<close> on a node with its sources and observations.\<close>

definition ctx_matches :: "rctx \<Rightarrow> NodeFilterSpec option \<Rightarrow> Node \<Rightarrow> string \<Rightarrow> bool \<times> string" where
  "ctx_matches ctx spec node nodeID =
     MatchesFilter (ctx_eng ctx) spec node (gm_get_or [] (ctx_nodeSources ctx) nodeID)
       (gm_get_or Map.empty (ctx_latestObs ctx) nodeID) (ctx_asOf ctx)"

text \<open>\<open>matched, _ := re.Match(s)\<close>: a failed match is not a match.\<close>

definition regex_matched :: "filterRegex \<Rightarrow> string \<Rightarrow> bool" where
  "regex_matched re s = (case match_regex re s of Inl _ \<Rightarrow> False | Inr b \<Rightarrow> b)"

subsection \<open>Sources that add\<close>

definition add_manual_node ::
  "rctx \<Rightarrow> NodeGroup \<Rightarrow> MemberSource \<Rightarrow> pipeline \<times> rstate \<Rightarrow> pipeline \<times> rstate" where
  "add_manual_node ctx g s acc =
     (let (pl, st) = acc; pl = add_count 1 pl
      in case Src_NodeLogicalID s of
           None \<Rightarrow> (pl, st)
         | Some nodeID \<Rightarrow> (case gm_get (ctx_globalAdmittedMap ctx) nodeID of
             Some node \<Rightarrow>
               (let (matched, reason) =
                      (if Src_FilterSpec s \<noteq> None then ctx_matches ctx (Src_FilterSpec s) node nodeID
                       else (True, []))
                in if \<not> matched
                   then (pl, add_diag (diagnostic DiagnosticSeverityWarning ''group_member_filtered''
                           (''group '' @ go_quote (Group_Name g) @ '' explicit member '' @
                            go_quote (Node_DisplayName node) @ '' ('' @ nodeID @ '') excluded by source filter: '' @ reason)
                           nodeID reason) st)
                   else (add_item (node_item node nodeID) pl, st))
           | None \<Rightarrow> (case gm_get (ctx_admittedNodeMap ctx) nodeID of
               Some origNode \<Rightarrow>
                 (pl, add_diag (diagnostic DiagnosticSeverityWarning ''group_member_filtered''
                        (''group '' @ go_quote (Group_Name g) @ '' explicit member '' @
                         go_quote (Node_DisplayName origNode) @ '' ('' @ nodeID @ '') excluded by global filter'')
                        nodeID ''excluded by global filter'') st)
             | None \<Rightarrow>
                 (pl, add_diag (diagnostic DiagnosticSeverityWarning ''node_inactive_or_missing''
                        (''group '' @ go_quote (Group_Name g) @ '' references node '' @ nodeID @
                         '' which is missing, inactive, or excluded'') nodeID []) st))))"

definition add_group_ref :: "rctx \<Rightarrow> MemberSource \<Rightarrow> pipeline \<times> rstate \<Rightarrow> pipeline \<times> rstate" where
  "add_group_ref ctx s acc =
     (case Src_TargetGroupID s of
        None \<Rightarrow> acc
      | Some targetID \<Rightarrow> (case gm_get (ctx_groupMap ctx) targetID of
          Some tg \<Rightarrow> (add_item (group_item tg targetID) (fst acc), snd acc)
        | None \<Rightarrow> (fst acc, add_diag (diagnostic DiagnosticSeverityWarning ''target_group_not_found''
                     (''target group '' @ targetID @ '' not found'') targetID []) (snd acc))))"

definition leaf_passes :: "rctx \<Rightarrow> MemberSource \<Rightarrow> resolvedItem \<Rightarrow> bool" where
  "leaf_passes ctx s leaf =
     (if item_kind leaf = MemberKindNode
      then (case gm_get (ctx_globalAdmittedMap ctx) (item_targetID leaf) of
              None \<Rightarrow> False
            | Some node \<Rightarrow>
                (if \<not> blank (Src_Pattern s)
                 then (case compileFilterRegex (ctx_eng ctx) (the (Src_Pattern s)) of
                         Inl _ \<Rightarrow> True | Inr re \<Rightarrow> regex_matched re (Node_DisplayName node))
                 else True) \<and>
                (if Src_FilterSpec s \<noteq> None then fst (ctx_matches ctx (Src_FilterSpec s) node (item_targetID leaf))
                 else True))
      else True)"

definition add_leafs :: "rctx \<Rightarrow> MemberSource \<Rightarrow> resolvedItem list \<Rightarrow> pipeline \<Rightarrow> pipeline" where
  "add_leafs ctx s leafs pl =
     foldl (\<lambda>pl leaf. if leaf_passes ctx s leaf then add_item leaf pl else pl) pl leafs"

definition add_group_nodes ::
  "rctx \<Rightarrow> recursive_call \<Rightarrow> MemberSource \<Rightarrow> pipeline \<times> rstate \<Rightarrow> (pipeline \<times> rstate) option" where
  "add_group_nodes ctx rec s acc =
     (case Src_TargetGroupID s of
        None \<Rightarrow> Some acc
      | Some targetID \<Rightarrow> (case gm_get (ctx_groupMap ctx) targetID of
          None \<Rightarrow> Some acc
        | Some _ \<Rightarrow> (case rec targetID (snd acc) of
            None \<Rightarrow> None
          | Some (childRes, st) \<Rightarrow>
              Some (add_leafs ctx s (memo_leafItems childRes)
                      (add_count (length (memo_leafItems childRes)) (fst acc)), st))))"

definition add_nodes :: "(Node \<Rightarrow> bool) \<Rightarrow> Node list \<Rightarrow> pipeline \<Rightarrow> pipeline" where
  "add_nodes keep nodes pl =
     foldl (\<lambda>pl node. if keep node then add_item (node_item node (Node_LogicalID node)) pl else pl) pl nodes"

definition add_regex ::
  "rctx \<Rightarrow> NodeGroup \<Rightarrow> MemberSource \<Rightarrow> pipeline \<times> rstate \<Rightarrow> pipeline \<times> rstate" where
  "add_regex ctx g s acc =
     (let (pl, st) = acc; pl = add_count (length (ctx_sortedGlobalNodes ctx)) pl
      in if blank (Src_Pattern s) then (pl, st)
         else case compileFilterRegex (ctx_eng ctx) (the (Src_Pattern s)) of
                Inl e \<Rightarrow> (pl, add_diag (diagnostic DiagnosticSeverityError ''invalid_regex''
                           (''group '' @ go_quote (Group_Name g) @ '' regex invalid: '' @ e) [] []) st)
              | Inr re \<Rightarrow>
                  (add_nodes (\<lambda>node. regex_matched re (Node_DisplayName node)) (ctx_sortedGlobalNodes ctx) pl, st))"

definition add_filter :: "rctx \<Rightarrow> MemberSource \<Rightarrow> pipeline \<times> rstate \<Rightarrow> pipeline \<times> rstate" where
  "add_filter ctx s acc =
     (let (pl, st) = acc; pl = add_count (length (ctx_sortedGlobalNodes ctx)) pl
      in if Src_FilterSpec s = None then (pl, st)
         else (add_nodes (\<lambda>node. fst (ctx_matches ctx (Src_FilterSpec s) node (Node_LogicalID node)))
                 (ctx_sortedGlobalNodes ctx) pl, st))"

definition add_builtin :: "MemberSource \<Rightarrow> pipeline \<times> rstate \<Rightarrow> pipeline \<times> rstate" where
  "add_builtin s acc =
     (case Src_BuiltinName s of
        None \<Rightarrow> acc
      | Some name \<Rightarrow> (add_item (builtin_item (to_upper (trim_space name))) (fst acc), snd acc))"

definition add_source ::
  "rctx \<Rightarrow> recursive_call \<Rightarrow> NodeGroup \<Rightarrow> MemberSource \<Rightarrow> pipeline \<times> rstate \<Rightarrow> (pipeline \<times> rstate) option" where
  "add_source ctx rec g s acc =
     (if Src_Kind s = SourceKindManualNode then Some (add_manual_node ctx g s acc)
      else if Src_Kind s = SourceKindGroupRef then Some (add_group_ref ctx s acc)
      else if Src_Kind s = SourceKindGroupNodes then add_group_nodes ctx rec s acc
      else if Src_Kind s = SourceKindRegex then Some (add_regex ctx g s acc)
      else if Src_Kind s = SourceKindFilter then Some (add_filter ctx s acc)
      else if Src_Kind s = SourceKindTypedBuiltin then Some (add_builtin s acc)
      else Some acc)"

subsection \<open>Sources that remove\<close>

definition shouldRemove ::
  "rctx \<Rightarrow> recursive_call \<Rightarrow> MemberSource \<Rightarrow> resolvedItem \<Rightarrow> rstate \<Rightarrow> (bool \<times> rstate) option" where
  "shouldRemove ctx rec s item st =
     (let isNode = (item_kind item = MemberKindNode)
      in if Src_Kind s = SourceKindManualNode
         then Some (isNode \<and> Src_NodeLogicalID s = Some (item_targetID item), st)
         else if Src_Kind s = SourceKindGroupRef
         then Some (item_kind item = MemberKindGroup \<and> Src_TargetGroupID s = Some (item_targetID item), st)
         else if Src_Kind s = SourceKindGroupNodes
         then (case Src_TargetGroupID s of
                 None \<Rightarrow> Some (False, st)
               | Some targetID \<Rightarrow>
                   if isNode
                   then (case rec targetID st of
                           None \<Rightarrow> None
                         | Some (childRes, st') \<Rightarrow> Some (item_targetID item \<in> set (memo_leafNodeSet childRes), st'))
                   else Some (False, st))
         else if Src_Kind s = SourceKindRegex
         then (case Src_Pattern s of
                 None \<Rightarrow> Some (False, st)
               | Some pattern \<Rightarrow>
                   Some (isNode \<and> (case compileFilterRegex (ctx_eng ctx) pattern of
                           Inl _ \<Rightarrow> False | Inr re \<Rightarrow> regex_matched re (item_displayName item)), st))
         else if Src_Kind s = SourceKindFilter
         then Some (isNode \<and> Src_FilterSpec s \<noteq> None \<and>
                (case gm_get (ctx_globalAdmittedMap ctx) (item_targetID item) of
                   None \<Rightarrow> False
                 | Some node \<Rightarrow> fst (ctx_matches ctx (Src_FilterSpec s) node (item_targetID item))), st)
         else if Src_Kind s = SourceKindTypedBuiltin
         then Some (item_kind item = MemberKindBuiltin \<and>
                (case Src_BuiltinName s of None \<Rightarrow> False
                 | Some name \<Rightarrow> item_targetID item = to_upper (trim_space name)), st)
         else Some (False, st))"

fun remove_items ::
  "rctx \<Rightarrow> recursive_call \<Rightarrow> MemberSource \<Rightarrow> resolvedItem list \<Rightarrow> string list \<Rightarrow> rstate \<Rightarrow>
   (resolvedItem list \<times> string list \<times> rstate) option" where
  "remove_items ctx rec s [] seen st = Some ([], seen, st)"
| "remove_items ctx rec s (it # items) seen st =
     (case shouldRemove ctx rec s it st of
        None \<Rightarrow> None
      | Some (remove, st') \<Rightarrow>
          if remove then remove_items ctx rec s items (removeAll (item_id it) seen) st'
          else (case remove_items ctx rec s items seen st' of
                  None \<Rightarrow> None
                | Some (remaining, seen', st'') \<Rightarrow> Some (it # remaining, seen', st'')))"

definition remove_source ::
  "rctx \<Rightarrow> recursive_call \<Rightarrow> MemberSource \<Rightarrow> pipeline \<times> rstate \<Rightarrow> (pipeline \<times> rstate) option" where
  "remove_source ctx rec s acc =
     (case remove_items ctx rec s (pl_items (fst acc)) (pl_seen (fst acc)) (snd acc) of
        None \<Rightarrow> None
      | Some (remaining, seen, st) \<Rightarrow> Some ((fst acc)\<lparr>pl_items := remaining, pl_seen := seen\<rparr>, st))"

definition run_source ::
  "rctx \<Rightarrow> recursive_call \<Rightarrow> NodeGroup \<Rightarrow> MemberSource \<Rightarrow> pipeline \<times> rstate \<Rightarrow> (pipeline \<times> rstate) option" where
  "run_source ctx rec g s acc =
     (if Src_Operation s = OperationAdd then add_source ctx rec g s acc
      else if Src_Operation s = OperationRemove then remove_source ctx rec s acc
      else Some acc)"

fun run_sources ::
  "rctx \<Rightarrow> recursive_call \<Rightarrow> NodeGroup \<Rightarrow> MemberSource list \<Rightarrow> pipeline \<times> rstate \<Rightarrow> (pipeline \<times> rstate) option" where
  "run_sources ctx rec g [] acc = Some acc"
| "run_sources ctx rec g (s # ss) acc =
     (case run_source ctx rec g s acc of None \<Rightarrow> None | Some acc' \<Rightarrow> run_sources ctx rec g ss acc')"

subsection \<open>Expansion to leaves\<close>

record expansion =
  ex_childGroupIDs :: "string list"
  ex_nodeLogicalIDs :: "string list"
  ex_leafItems :: "resolvedItem list"
  ex_leafNodeSet :: "string list"

definition add_key :: "string list \<Rightarrow> string \<Rightarrow> string list" where
  "add_key keys k = (if k \<in> set keys then keys else keys @ [k])"

text \<open>The filter of the first group reference to the target that has one, in stored order.\<close>

definition source_filter :: "NodeGroup \<Rightarrow> string \<Rightarrow> NodeFilterSpec option" where
  "source_filter g targetID =
     (case find (\<lambda>src. Src_Kind src = SourceKindGroupRef \<and> Src_TargetGroupID src = Some targetID \<and>
                       Src_FilterSpec src \<noteq> None) (Group_Sources g) of
        None \<Rightarrow> None | Some src \<Rightarrow> Src_FilterSpec src)"

definition leaf_kept :: "rctx \<Rightarrow> NodeFilterSpec option \<Rightarrow> resolvedItem \<Rightarrow> bool" where
  "leaf_kept ctx srcFilter leaf =
     (if item_kind leaf = MemberKindNode \<and> srcFilter \<noteq> None
      then (case gm_get (ctx_globalAdmittedMap ctx) (item_targetID leaf) of
              None \<Rightarrow> False
            | Some node \<Rightarrow> fst (ctx_matches ctx srcFilter node (item_targetID leaf)))
      else True)"

definition add_leaf :: "resolvedItem \<Rightarrow> expansion \<Rightarrow> expansion" where
  "add_leaf leaf ex =
     ex\<lparr>ex_leafItems := ex_leafItems ex @ [leaf],
        ex_leafNodeSet := (if item_kind leaf = MemberKindNode
                           then add_key (ex_leafNodeSet ex) (item_targetID leaf) else ex_leafNodeSet ex)\<rparr>"

definition expand_item ::
  "rctx \<Rightarrow> recursive_call \<Rightarrow> NodeGroup \<Rightarrow> resolvedItem \<Rightarrow> expansion \<times> rstate \<Rightarrow> (expansion \<times> rstate) option" where
  "expand_item ctx rec g item acc =
     (let (ex, st) = acc
      in if item_kind item = MemberKindGroup
         then (case rec (item_targetID item) st of
                 None \<Rightarrow> None
               | Some (childRes, st') \<Rightarrow>
                   (let ex = ex\<lparr>ex_childGroupIDs := ex_childGroupIDs ex @ [item_targetID item]\<rparr>
                    in Some (foldl (\<lambda>ex leaf. if leaf_kept ctx (source_filter g (item_targetID item)) leaf
                                              then add_leaf leaf ex else ex) ex (memo_leafItems childRes), st')))
         else if item_kind item = MemberKindNode
         then Some (add_leaf item (ex\<lparr>ex_nodeLogicalIDs := ex_nodeLogicalIDs ex @ [item_targetID item]\<rparr>), st)
         else if item_kind item = MemberKindBuiltin then Some (add_leaf item ex, st)
         else Some (ex, st))"

fun expand_items ::
  "rctx \<Rightarrow> recursive_call \<Rightarrow> NodeGroup \<Rightarrow> resolvedItem list \<Rightarrow> expansion \<times> rstate \<Rightarrow> (expansion \<times> rstate) option" where
  "expand_items ctx rec g [] acc = Some acc"
| "expand_items ctx rec g (it # items) acc =
     (case expand_item ctx rec g it acc of None \<Rightarrow> None | Some acc' \<Rightarrow> expand_items ctx rec g items acc')"

definition item_member :: "nat \<Rightarrow> resolvedItem \<Rightarrow> ResolvedGroupMember" where
  "item_member idx item =
     \<lparr>Mem_Kind = item_kind item, Mem_TargetID = item_targetID item, Mem_DisplayName = item_displayName item,
      Mem_Position = idx\<rparr>"

definition finish_memo :: "NodeGroup \<Rightarrow> pipeline \<Rightarrow> expansion \<Rightarrow> groupMemo" where
  "finish_memo g pl ex =
     (let expandedNodeIDs = sort (ex_leafNodeSet ex);
          hasDestinations = (0 < length expandedNodeIDs \<or>
                             list_ex (\<lambda>it. item_kind it = MemberKindBuiltin) (pl_items pl))
      in \<lparr>memo_members = map (\<lambda>(idx, it). item_member idx it) (enumerate 0 (pl_items pl)),
          memo_childGroupIDs = ex_childGroupIDs ex, memo_nodeLogicalIDs = ex_nodeLogicalIDs ex,
          memo_expandedNodeIDs = expandedNodeIDs,
          memo_effectiveEmptyPass = (Group_EmptyFallbackPass g \<and> \<not> hasDestinations),
          memo_leafItems = ex_leafItems ex, memo_leafNodeSet = ex_leafNodeSet ex,
          memo_candidateCount = pl_count pl\<rparr>)"

definition resolve_body :: "rctx \<Rightarrow> recursive_call \<Rightarrow> recursive_call" where
  "resolve_body ctx rec gid st =
     (case gm_get (rs_memo st) gid of
        Some m \<Rightarrow> Some (m, st)
      | None \<Rightarrow>
          if gid \<in> set (rs_resolving st) then Some (empty_memo, st)
          else case gm_get (ctx_groupMap ctx) gid of
                 None \<Rightarrow> Some (empty_memo, st)
               | Some g \<Rightarrow>
                   (case run_sources ctx rec g (gm_get_or [] (ctx_groupSources ctx) gid)
                           (\<lparr>pl_items = [], pl_seen = [], pl_count = 0\<rparr>,
                            st\<lparr>rs_resolving := gid # rs_resolving st\<rparr>) of
                      None \<Rightarrow> None
                    | Some (pl, st1) \<Rightarrow> (case expand_items ctx rec g (pl_items pl)
                          (\<lparr>ex_childGroupIDs = [], ex_nodeLogicalIDs = [], ex_leafItems = [], ex_leafNodeSet = []\<rparr>, st1) of
                        None \<Rightarrow> None
                      | Some (ex, st2) \<Rightarrow>
                          (let m = finish_memo g pl ex
                           in Some (m, st2\<lparr>rs_memo := gm_put (rs_memo st2) gid m,
                                           rs_resolving := removeAll gid (rs_resolving st2)\<rparr>)))))"

primrec resolveGroupMemo :: "nat \<Rightarrow> rctx \<Rightarrow> recursive_call" where
  "resolveGroupMemo 0 ctx = (\<lambda>gid st. None)"
| "resolveGroupMemo (Suc n) ctx = resolve_body ctx (resolveGroupMemo n ctx)"

subsection \<open>Well-formed items, memo entries and states\<close>

definition ctx_admitted :: "rctx \<Rightarrow> string set" where
  "ctx_admitted ctx = {nid. gm_get (ctx_globalAdmittedMap ctx) nid \<noteq> None}"

definition ctx_groups :: "rctx \<Rightarrow> string set" where
  "ctx_groups ctx = {gid. gm_get (ctx_groupMap ctx) gid \<noteq> None}"

definition ctx_ok :: "rctx \<Rightarrow> bool" where
  "ctx_ok ctx \<longleftrightarrow> (\<forall>n \<in> set (ctx_sortedGlobalNodes ctx). Node_LogicalID n \<in> ctx_admitted ctx)"

definition item_ok :: "rctx \<Rightarrow> resolvedItem \<Rightarrow> bool" where
  "item_ok ctx it \<longleftrightarrow>
     item_id it = item_kind it @ '':'' @ item_targetID it \<and>
     (item_kind it = MemberKindNode \<and> item_targetID it \<in> ctx_admitted ctx \<or>
      item_kind it = MemberKindGroup \<and> item_targetID it \<in> ctx_groups ctx \<or>
      item_kind it = MemberKindBuiltin)"

definition leaf_ok :: "rctx \<Rightarrow> resolvedItem \<Rightarrow> bool" where
  "leaf_ok ctx it \<longleftrightarrow> item_ok ctx it \<and> item_kind it \<noteq> MemberKindGroup"

definition pl_ok :: "rctx \<Rightarrow> pipeline \<Rightarrow> bool" where
  "pl_ok ctx pl \<longleftrightarrow> (\<forall>it \<in> set (pl_items pl). item_ok ctx it) \<and>
     distinct (map item_id (pl_items pl)) \<and> item_id ` set (pl_items pl) = set (pl_seen pl)"

definition node_leafs :: "resolvedItem list \<Rightarrow> string set" where
  "node_leafs items = item_targetID ` {it \<in> set items. item_kind it = MemberKindNode}"

definition ex_ok :: "rctx \<Rightarrow> expansion \<Rightarrow> bool" where
  "ex_ok ctx ex \<longleftrightarrow>
     (\<forall>it \<in> set (ex_leafItems ex). leaf_ok ctx it) \<and>
     set (ex_leafNodeSet ex) = node_leafs (ex_leafItems ex) \<and> distinct (ex_leafNodeSet ex)"

definition member_ok :: "rctx \<Rightarrow> ResolvedGroupMember \<Rightarrow> bool" where
  "member_ok ctx m \<longleftrightarrow>
     (Mem_Kind m = MemberKindNode \<and> Mem_TargetID m \<in> ctx_admitted ctx \<or>
      Mem_Kind m = MemberKindGroup \<and> Mem_TargetID m \<in> ctx_groups ctx \<or>
      Mem_Kind m = MemberKindBuiltin)"

definition kind_targets :: "string \<Rightarrow> ResolvedGroupMember list \<Rightarrow> string list" where
  "kind_targets kind ms = map Mem_TargetID (filter (\<lambda>m. Mem_Kind m = kind) ms)"

definition memo_ok :: "rctx \<Rightarrow> groupMemo \<Rightarrow> bool" where
  "memo_ok ctx m \<longleftrightarrow>
     (\<forall>mem \<in> set (memo_members m). member_ok ctx mem) \<and>
     distinct (map (\<lambda>mem. (Mem_Kind mem, Mem_TargetID mem)) (memo_members m)) \<and>
     map Mem_Position (memo_members m) = [0..<length (memo_members m)] \<and>
     memo_nodeLogicalIDs m = kind_targets MemberKindNode (memo_members m) \<and>
     memo_childGroupIDs m = kind_targets MemberKindGroup (memo_members m) \<and>
     (\<forall>it \<in> set (memo_leafItems m). leaf_ok ctx it) \<and>
     set (memo_leafNodeSet m) = node_leafs (memo_leafItems m) \<and>
     set (memo_expandedNodeIDs m) = node_leafs (memo_leafItems m) \<and>
     sorted (memo_expandedNodeIDs m) \<and> distinct (memo_expandedNodeIDs m)"

definition st_ok :: "rctx \<Rightarrow> rstate \<Rightarrow> bool" where
  "st_ok ctx st \<longleftrightarrow> (\<forall>gid m. gm_get (rs_memo st) gid = Some m \<longrightarrow> memo_ok ctx m)"

subsection \<open>The steps that need no other group\<close>

definition acc_ok :: "rctx \<Rightarrow> pipeline \<times> rstate \<Rightarrow> bool" where
  "acc_ok ctx acc \<longleftrightarrow> pl_ok ctx (fst acc) \<and> st_ok ctx (snd acc)"

lemma st_ok_add_diag [simp]: "st_ok ctx (add_diag d st) = st_ok ctx st"
  by (simp add: st_ok_def add_diag_def)

lemma pl_ok_add_count [simp]: "pl_ok ctx (add_count n pl) = pl_ok ctx pl"
  by (simp add: pl_ok_def add_count_def)

lemma pl_ok_add_item: "pl_ok ctx pl \<Longrightarrow> item_ok ctx it \<Longrightarrow> pl_ok ctx (add_item it pl)"
  by (auto simp: pl_ok_def add_item_def)

lemma item_ok_node: "nodeID \<in> ctx_admitted ctx \<Longrightarrow> item_ok ctx (node_item node nodeID)"
  by (simp add: item_ok_def node_item_def member_kinds)

lemma item_ok_group: "gm_get (ctx_groupMap ctx) targetID = Some g \<Longrightarrow> item_ok ctx (group_item g targetID)"
  by (simp add: item_ok_def group_item_def member_kinds ctx_groups_def)

lemma item_ok_builtin: "item_ok ctx (builtin_item name)"
  by (simp add: item_ok_def builtin_item_def member_kinds)

lemma add_manual_node_ok: "acc_ok ctx acc \<Longrightarrow> acc_ok ctx (add_manual_node ctx g s acc)"
  by (auto simp: add_manual_node_def acc_ok_def Let_def ctx_admitted_def
        intro!: pl_ok_add_item item_ok_node split: option.splits prod.splits)

lemma add_group_ref_ok: "acc_ok ctx acc \<Longrightarrow> acc_ok ctx (add_group_ref ctx s acc)"
  by (auto simp: add_group_ref_def acc_ok_def intro: pl_ok_add_item item_ok_group split: option.splits)

lemma add_nodes_ok:
  "pl_ok ctx pl \<Longrightarrow> \<forall>n \<in> set nodes. Node_LogicalID n \<in> ctx_admitted ctx \<Longrightarrow> pl_ok ctx (add_nodes keep nodes pl)"
  by (induction nodes arbitrary: pl) (auto simp: add_nodes_def intro: pl_ok_add_item item_ok_node)

lemma add_regex_ok: "ctx_ok ctx \<Longrightarrow> acc_ok ctx acc \<Longrightarrow> acc_ok ctx (add_regex ctx g s acc)"
  by (auto simp: add_regex_def acc_ok_def ctx_ok_def Let_def intro: add_nodes_ok split: prod.splits sum.splits)

lemma add_filter_ok: "ctx_ok ctx \<Longrightarrow> acc_ok ctx acc \<Longrightarrow> acc_ok ctx (add_filter ctx s acc)"
  by (auto simp: add_filter_def acc_ok_def ctx_ok_def Let_def intro: add_nodes_ok split: prod.splits)

lemma add_builtin_ok: "acc_ok ctx acc \<Longrightarrow> acc_ok ctx (add_builtin s acc)"
  by (auto simp: add_builtin_def acc_ok_def intro: pl_ok_add_item item_ok_builtin split: option.splits)

lemma add_leafs_ok:
  "pl_ok ctx pl \<Longrightarrow> \<forall>it \<in> set leafs. item_ok ctx it \<Longrightarrow> pl_ok ctx (add_leafs ctx s leafs pl)"
  by (induction leafs arbitrary: pl) (auto simp: add_leafs_def intro: pl_ok_add_item)

lemma memo_ok_empty [simp]: "memo_ok ctx empty_memo"
  by (simp add: memo_ok_def empty_memo_def kind_targets_def node_leafs_def)

lemma set_add_key [simp]: "set (add_key ks k) = insert k (set ks)"
  by (auto simp: add_key_def)

lemma distinct_add_key [simp]: "distinct ks \<Longrightarrow> distinct (add_key ks k)"
  by (simp add: add_key_def)

lemma node_leafs_append [simp]: "node_leafs (xs @ ys) = node_leafs xs \<union> node_leafs ys"
  by (auto simp: node_leafs_def)

lemma node_leafs_single: "node_leafs [it] = (if item_kind it = MemberKindNode then {item_targetID it} else {})"
  by (auto simp: node_leafs_def)

lemma add_leaf_ok: "ex_ok ctx ex \<Longrightarrow> leaf_ok ctx leaf \<Longrightarrow> ex_ok ctx (add_leaf leaf ex)"
  by (auto simp: ex_ok_def add_leaf_def node_leafs_single)

lemma add_leaf_ids [simp]:
  "ex_nodeLogicalIDs (add_leaf leaf ex) = ex_nodeLogicalIDs ex"
  "ex_childGroupIDs (add_leaf leaf ex) = ex_childGroupIDs ex"
  by (simp_all add: add_leaf_def)

lemma fold_leafs_ok:
  assumes "ex_ok ctx ex" "\<forall>it \<in> set leafs. leaf_ok ctx it"
  shows "ex_ok ctx (foldl (\<lambda>ex leaf. if keep leaf then add_leaf leaf ex else ex) ex leafs) \<and>
         ex_nodeLogicalIDs (foldl (\<lambda>ex leaf. if keep leaf then add_leaf leaf ex else ex) ex leafs) = ex_nodeLogicalIDs ex \<and>
         ex_childGroupIDs (foldl (\<lambda>ex leaf. if keep leaf then add_leaf leaf ex else ex) ex leafs) = ex_childGroupIDs ex"
  using assms by (induction leafs arbitrary: ex) (auto simp: add_leaf_ok)

subsection \<open>Resolution keeps the invariant\<close>

text \<open>
  What the steps of a group may assume of the recursive call. The call with any fuel satisfies it
  (interpretation \<open>group_call\<close> below), so the lemmas of the locale hold of the resolver.
\<close>

locale memo_callback =
  fixes ctx :: rctx and call :: recursive_call
  assumes ctx_ok: "ctx_ok ctx"
    and call_sound: "st_ok ctx st \<Longrightarrow> call gid st = Some (m, st') \<Longrightarrow> memo_ok ctx m \<and> st_ok ctx st'"
begin

lemma add_group_nodes_ok:
  assumes "acc_ok ctx acc" "add_group_nodes ctx call s acc = Some acc'"
  shows "acc_ok ctx acc'"
proof -
  have "\<forall>it \<in> set (memo_leafItems m). item_ok ctx it" if "memo_ok ctx m" for m
    using that by (auto simp: memo_ok_def leaf_ok_def)
  with assms show ?thesis
    by (auto simp: add_group_nodes_def acc_ok_def intro!: add_leafs_ok dest!: call_sound[rotated]
          split: option.splits prod.splits)
qed

lemma add_source_ok: "acc_ok ctx acc \<Longrightarrow> add_source ctx call g s acc = Some acc' \<Longrightarrow> acc_ok ctx acc'"
  unfolding add_source_def
  by (auto intro: add_group_nodes_ok add_manual_node_ok add_group_ref_ok add_regex_ok[OF ctx_ok]
        add_filter_ok[OF ctx_ok] add_builtin_ok split: if_splits)

lemma shouldRemove_ok: "st_ok ctx st \<Longrightarrow> shouldRemove ctx call s it st = Some (b, st') \<Longrightarrow> st_ok ctx st'"
  by (auto simp: shouldRemove_def Let_def dest: call_sound split: if_splits option.splits)

lemma remove_items_ok:
  "st_ok ctx st \<Longrightarrow> \<forall>it \<in> set items. item_ok ctx it \<Longrightarrow> distinct (map item_id items) \<Longrightarrow>
   item_id ` set items \<subseteq> set seen \<Longrightarrow>
   remove_items ctx call s items seen st = Some (remaining, seen', st') \<Longrightarrow>
   st_ok ctx st' \<and> set remaining \<subseteq> set items \<and> distinct (map item_id remaining) \<and>
   set seen' = set seen - item_id ` (set items - set remaining)"
proof (induction items arbitrary: seen st remaining)
  case (Cons it items)
  then obtain b st1 where b: "shouldRemove ctx call s it st = Some (b, st1)" by (auto split: option.splits)
  with Cons.prems have st1: "st_ok ctx st1" using shouldRemove_ok by blast
  have fresh: "item_id it \<notin> item_id ` set items" using Cons.prems(3) by auto
  show ?case
  proof (cases b)
    case True
    have sub: "item_id ` set items \<subseteq> set (removeAll (item_id it) seen)"
      using Cons.prems(4) fresh by (simp add: subset_Diff_insert)
    have rest: "remove_items ctx call s items (removeAll (item_id it) seen) st1 = Some (remaining, seen', st')"
      using Cons.prems(5) b True by simp
    note IH = Cons.IH[OF st1 _ _ sub rest]
    have "it \<notin> set remaining" using IH Cons.prems fresh by auto
    with IH Cons.prems show ?thesis by auto
  next
    case False
    with Cons.prems b obtain rem where rem: "remove_items ctx call s items seen st1 = Some (rem, seen', st')"
      "remaining = it # rem" by (auto split: option.splits prod.splits)
    have sub: "item_id ` set items \<subseteq> set seen" using Cons.prems by auto
    note IH = Cons.IH[OF st1 _ _ sub rem(1)]
    have diff: "set (it # items) - set remaining = set items - set rem"
      using rem fresh by auto
    have "item_id it \<notin> item_id ` set rem" using IH Cons.prems fresh by auto
    with IH Cons.prems rem diff show ?thesis by auto
  qed
qed simp

lemma remove_source_ok:
  assumes "acc_ok ctx acc" "remove_source ctx call s acc = Some acc'"
  shows "acc_ok ctx acc'"
proof -
  from assms obtain remaining seen st where r:
    "remove_items ctx call s (pl_items (fst acc)) (pl_seen (fst acc)) (snd acc) = Some (remaining, seen, st)"
    "acc' = ((fst acc)\<lparr>pl_items := remaining, pl_seen := seen\<rparr>, st)"
    by (auto simp: remove_source_def split: option.splits prod.splits)
  have pl: "\<forall>it \<in> set (pl_items (fst acc)). item_ok ctx it" "distinct (map item_id (pl_items (fst acc)))"
    "item_id ` set (pl_items (fst acc)) = set (pl_seen (fst acc))" "st_ok ctx (snd acc)"
    using assms(1) by (auto simp: acc_ok_def pl_ok_def)
  from remove_items_ok[OF pl(4,1,2) _ r(1)] pl(3)
  have out: "st_ok ctx st" "set remaining \<subseteq> set (pl_items (fst acc))" "distinct (map item_id remaining)"
    "set seen = item_id ` set (pl_items (fst acc)) - item_id ` (set (pl_items (fst acc)) - set remaining)"
    by auto
  have "inj_on item_id (set (pl_items (fst acc)))" using pl(2) by (simp add: distinct_map)
  with out(2,4) have "item_id ` set remaining = set seen"
    by (auto simp: inj_on_image_set_diff[symmetric] Diff_Diff_Int Int_absorb1)
  with out pl r show ?thesis by (auto simp: acc_ok_def pl_ok_def)
qed

lemma run_source_ok: "acc_ok ctx acc \<Longrightarrow> run_source ctx call g s acc = Some acc' \<Longrightarrow> acc_ok ctx acc'"
  unfolding run_source_def by (auto intro: add_source_ok remove_source_ok split: if_splits)

lemma run_sources_ok: "acc_ok ctx acc \<Longrightarrow> run_sources ctx call g ss acc = Some acc' \<Longrightarrow> acc_ok ctx acc'"
  by (induction ss arbitrary: acc) (auto dest: run_source_ok split: option.splits)

lemma expand_item_ok:
  assumes "ex_ok ctx ex" "st_ok ctx st" "item_ok ctx it" "expand_item ctx call g it (ex, st) = Some (ex', st')"
  shows "ex_ok ctx ex' \<and> st_ok ctx st' \<and>
         ex_nodeLogicalIDs ex' = ex_nodeLogicalIDs ex @ (if item_kind it = MemberKindNode then [item_targetID it] else []) \<and>
         ex_childGroupIDs ex' = ex_childGroupIDs ex @ (if item_kind it = MemberKindGroup then [item_targetID it] else [])"
proof -
  consider (group) "item_kind it = MemberKindGroup" | (leaf) "leaf_ok ctx it"
    using assms(3) by (auto simp: leaf_ok_def)
  then show ?thesis
  proof cases
    case group
    then obtain m where m: "call (item_targetID it) st = Some (m, st')"
      "ex' = foldl (\<lambda>ex leaf. if leaf_kept ctx (source_filter g (item_targetID it)) leaf then add_leaf leaf ex else ex)
               (ex\<lparr>ex_childGroupIDs := ex_childGroupIDs ex @ [item_targetID it]\<rparr>) (memo_leafItems m)"
      using assms(4) by (auto simp: expand_item_def Let_def split: option.splits prod.splits)
    have "memo_ok ctx m" "st_ok ctx st'" using call_sound[OF assms(2) m(1)] by auto
    moreover have "ex_ok ctx (ex\<lparr>ex_childGroupIDs := ex_childGroupIDs ex @ [item_targetID it]\<rparr>)"
      using assms(1) by (simp add: ex_ok_def)
    ultimately show ?thesis
      using fold_leafs_ok group m(2) by (simp add: memo_ok_def member_kinds)
  next
    case leaf
    have ids: "ex_ok ctx (ex\<lparr>ex_nodeLogicalIDs := ids\<rparr>)" for ids using assms(1) by (simp add: ex_ok_def)
    show ?thesis
      using leaf assms add_leaf_ok[OF ids leaf] add_leaf_ok[OF assms(1) leaf]
      by (auto simp: expand_item_def leaf_ok_def item_ok_def member_kinds)
  qed
qed

lemma expand_items_ok:
  "ex_ok ctx ex \<Longrightarrow> st_ok ctx st \<Longrightarrow> \<forall>it \<in> set items. item_ok ctx it \<Longrightarrow>
   expand_items ctx call g items (ex, st) = Some (ex', st') \<Longrightarrow>
   ex_ok ctx ex' \<and> st_ok ctx st' \<and>
   ex_nodeLogicalIDs ex' = ex_nodeLogicalIDs ex @ map item_targetID (filter (\<lambda>it. item_kind it = MemberKindNode) items) \<and>
   ex_childGroupIDs ex' = ex_childGroupIDs ex @ map item_targetID (filter (\<lambda>it. item_kind it = MemberKindGroup) items)"
proof (induction items arbitrary: ex st)
  case (Cons it items)
  then obtain ex1 st1 where step: "expand_item ctx call g it (ex, st) = Some (ex1, st1)"
    "expand_items ctx call g items (ex1, st1) = Some (ex', st')" by (auto split: option.splits)
  from Cons.prems expand_item_ok[OF _ _ _ step(1)]
  have "ex_ok ctx ex1" "st_ok ctx st1"
    "ex_nodeLogicalIDs ex1 = ex_nodeLogicalIDs ex @ (if item_kind it = MemberKindNode then [item_targetID it] else [])"
    "ex_childGroupIDs ex1 = ex_childGroupIDs ex @ (if item_kind it = MemberKindGroup then [item_targetID it] else [])"
    by auto
  with Cons.IH[OF this(1,2) _ step(2)] Cons.prems show ?case by simp
qed simp

end

lemma map_enumerate_snd: "map (\<lambda>(i, x). f x) (enumerate n xs) = map f xs"
  by (induction xs arbitrary: n) simp_all

lemma kind_targets_enumerate:
  "kind_targets k (map (\<lambda>(idx, it). item_member idx it) (enumerate n items)) =
   map item_targetID (filter (\<lambda>it. item_kind it = k) items)"
  by (induction items arbitrary: n) (simp_all add: kind_targets_def item_member_def)

lemma members_distinct:
  assumes "\<forall>it \<in> set items. item_ok ctx it" "distinct (map item_id items)"
  shows "distinct (map (\<lambda>mem. (Mem_Kind mem, Mem_TargetID mem)) (map (\<lambda>(idx, it). item_member idx it) (enumerate n items)))"
proof -
  have "map (\<lambda>mem. (Mem_Kind mem, Mem_TargetID mem)) (map (\<lambda>(idx, it). item_member idx it) (enumerate n items)) =
      map (\<lambda>it. (item_kind it, item_targetID it)) items"
    by (induction items arbitrary: n) (simp_all add: item_member_def)
  moreover have "inj_on (\<lambda>it. (item_kind it, item_targetID it)) (set items)" "distinct items"
    using assms by (auto simp: distinct_map inj_on_def item_ok_def)
  ultimately show ?thesis by (simp add: distinct_map)
qed

lemma finish_memo_ok:
  assumes pl: "pl_ok ctx pl" and ex: "ex_ok ctx ex"
    and "ex_nodeLogicalIDs ex = map item_targetID (filter (\<lambda>it. item_kind it = MemberKindNode) (pl_items pl))"
    and "ex_childGroupIDs ex = map item_targetID (filter (\<lambda>it. item_kind it = MemberKindGroup) (pl_items pl))"
  shows "memo_ok ctx (finish_memo g pl ex)"
proof -
  let ?ms = "map (\<lambda>(idx, it). item_member idx it) (enumerate 0 (pl_items pl))"
  have "\<forall>mem \<in> set ?ms. member_ok ctx mem"
    using pl by (auto simp: pl_ok_def item_ok_def member_ok_def item_member_def in_set_enumerate_eq)
  moreover have "map Mem_Position ?ms = [0..<length ?ms]"
    by (rule nth_equalityI) (auto simp: nth_enumerate_eq item_member_def)
  moreover have "distinct (map (\<lambda>mem. (Mem_Kind mem, Mem_TargetID mem)) ?ms)"
    using pl by (intro members_distinct) (auto simp: pl_ok_def)
  ultimately show ?thesis
    using ex assms(3,4) unfolding memo_ok_def finish_memo_def Let_def
    by (simp add: kind_targets_enumerate ex_ok_def)
qed

context memo_callback
begin

lemma body_sound:
  assumes st: "st_ok ctx st" and res: "resolve_body ctx call gid st = Some (m, st')"
  shows "memo_ok ctx m \<and> st_ok ctx st'"
proof (cases "gm_get (rs_memo st) gid = None \<and> gid \<notin> set (rs_resolving st) \<and> gm_get (ctx_groupMap ctx) gid \<noteq> None")
  case True
  then obtain g where g: "gm_get (ctx_groupMap ctx) gid = Some g" by auto
  let ?acc = "(\<lparr>pl_items = [], pl_seen = [], pl_count = 0\<rparr>, st\<lparr>rs_resolving := gid # rs_resolving st\<rparr>)"
  let ?ex = "\<lparr>ex_childGroupIDs = [], ex_nodeLogicalIDs = [], ex_leafItems = [], ex_leafNodeSet = []\<rparr>"
  from True g res obtain pl st1 ex st2 where steps:
    "run_sources ctx call g (gm_get_or [] (ctx_groupSources ctx) gid) ?acc = Some (pl, st1)"
    "expand_items ctx call g (pl_items pl) (?ex, st1) = Some (ex, st2)" "m = finish_memo g pl ex"
    "st' = st2\<lparr>rs_memo := gm_put (rs_memo st2) gid m, rs_resolving := removeAll gid (rs_resolving st2)\<rparr>"
    by (auto simp: resolve_body_def Let_def split: option.splits prod.splits)
  have "acc_ok ctx ?acc" using st by (simp add: acc_ok_def pl_ok_def st_ok_def)
  from run_sources_ok[OF this steps(1)] have pl: "pl_ok ctx pl" "st_ok ctx st1" by (simp_all add: acc_ok_def)
  have "ex_ok ctx ?ex" by (simp add: ex_ok_def node_leafs_def)
  from expand_items_ok[OF this pl(2) _ steps(2)] pl(1)
  have ex: "ex_ok ctx ex" "st_ok ctx st2"
    "ex_nodeLogicalIDs ex = map item_targetID (filter (\<lambda>it. item_kind it = MemberKindNode) (pl_items pl))"
    "ex_childGroupIDs ex = map item_targetID (filter (\<lambda>it. item_kind it = MemberKindGroup) (pl_items pl))"
    by (simp_all add: pl_ok_def)
  have "memo_ok ctx m" using finish_memo_ok[OF pl(1) ex(1,3,4)] steps(3) by simp
  with ex(2) steps(4) show ?thesis by (auto simp: st_ok_def)
qed (use st res in \<open>auto simp: resolve_body_def st_ok_def split: option.splits if_splits\<close>)

end

lemma resolveGroupMemo_callback: "ctx_ok ctx \<Longrightarrow> memo_callback ctx (resolveGroupMemo n ctx)"
proof (induction n)
  case (Suc n)
  then show ?case by (auto intro!: memo_callback.intro dest: memo_callback.body_sound)
qed (simp add: memo_callback_def)

subsection \<open>Enough fuel\<close>

definition source_targets :: "MemberSource list \<Rightarrow> string set" where
  "source_targets ss =
     {t. \<exists>s \<in> set ss. (Src_Kind s = SourceKindGroupRef \<or> Src_Kind s = SourceKindGroupNodes) \<and>
                      Src_TargetGroupID s = Some t}"

definition groups_in :: "string set \<Rightarrow> resolvedItem list \<Rightarrow> bool" where
  "groups_in T items \<longleftrightarrow> (\<forall>it \<in> set items. item_kind it = MemberKindGroup \<longrightarrow> item_targetID it \<in> T)"

lemma groups_in_add_item: "groups_in T (pl_items pl) \<Longrightarrow> groups_in T [it] \<Longrightarrow> groups_in T (pl_items (add_item it pl))"
  by (auto simp: groups_in_def add_item_def)

lemma groups_in_add_count [simp]: "pl_items (add_count n pl) = pl_items pl"
  by (simp add: add_count_def)

lemma groups_in_items [simp]:
  "groups_in T [node_item node nodeID]" "groups_in T [builtin_item name]"
  "groups_in T [group_item g t] = (t \<in> T)"
  by (simp_all add: groups_in_def node_item_def builtin_item_def group_item_def member_kinds)

lemma groups_in_add_nodes: "groups_in T (pl_items pl) \<Longrightarrow> groups_in T (pl_items (add_nodes keep nodes pl))"
  by (induction nodes arbitrary: pl) (auto simp: add_nodes_def groups_in_add_item)

lemma groups_in_add_leafs:
  "groups_in T (pl_items pl) \<Longrightarrow> \<forall>it \<in> set leafs. item_kind it \<noteq> MemberKindGroup \<Longrightarrow>
   groups_in T (pl_items (add_leafs ctx s leafs pl))"
proof (induction leafs arbitrary: pl)
  case (Cons it leafs)
  then have "groups_in T [it]" by (simp add: groups_in_def)
  with Cons show ?case by (auto simp: add_leafs_def groups_in_add_item)
qed (simp add: add_leafs_def)

lemma groups_in_manual_node:
  "groups_in T (pl_items (fst acc)) \<Longrightarrow> groups_in T (pl_items (fst (add_manual_node ctx g s acc)))"
  by (auto simp: add_manual_node_def Let_def intro: groups_in_add_item split: option.splits prod.splits)

lemma groups_in_group_ref:
  "groups_in T (pl_items (fst acc)) \<Longrightarrow> (\<And>t. Src_TargetGroupID s = Some t \<Longrightarrow> t \<in> T) \<Longrightarrow>
   groups_in T (pl_items (fst (add_group_ref ctx s acc)))"
  by (auto simp: add_group_ref_def intro: groups_in_add_item split: option.splits)

lemma groups_in_regex:
  "groups_in T (pl_items (fst acc)) \<Longrightarrow> groups_in T (pl_items (fst (add_regex ctx g s acc)))"
  by (auto simp: add_regex_def Let_def intro: groups_in_add_nodes split: sum.splits prod.splits)

lemma groups_in_filter:
  "groups_in T (pl_items (fst acc)) \<Longrightarrow> groups_in T (pl_items (fst (add_filter ctx s acc)))"
  by (auto simp: add_filter_def Let_def intro: groups_in_add_nodes split: prod.splits)

lemma groups_in_builtin:
  "groups_in T (pl_items (fst acc)) \<Longrightarrow> groups_in T (pl_items (fst (add_builtin s acc)))"
  by (auto simp: add_builtin_def intro: groups_in_add_item split: option.splits)

locale memo_callback_total = memo_callback +
  fixes T :: "string set"
  assumes call_total: "t \<in> T \<Longrightarrow> st_ok ctx st \<Longrightarrow> \<exists>m st'. call t st = Some (m, st')"
begin

lemma add_source_total:
  assumes "acc_ok ctx acc" "source_targets [s] \<subseteq> T" "groups_in T (pl_items (fst acc))"
  shows "\<exists>acc'. add_source ctx call g s acc = Some acc' \<and> groups_in T (pl_items (fst acc'))"
proof (cases "Src_Kind s = SourceKindGroupNodes \<and>
    (\<exists>t tg. Src_TargetGroupID s = Some t \<and> gm_get (ctx_groupMap ctx) t = Some tg)")
  case True
  then obtain t tg where t: "Src_TargetGroupID s = Some t" "gm_get (ctx_groupMap ctx) t = Some tg" by blast
  have "t \<in> T" using True t assms(2) by (auto simp: source_targets_def)
  then obtain m st' where m: "call t (snd acc) = Some (m, st')"
    using call_total[of t "snd acc"] assms(1) by (auto simp: acc_ok_def)
  then have "memo_ok ctx m" using call_sound assms(1) by (auto simp: acc_ok_def)
  then have "\<forall>it \<in> set (memo_leafItems m). item_kind it \<noteq> MemberKindGroup" by (auto simp: memo_ok_def leaf_ok_def)
  with True t m assms(3) show ?thesis
    by (auto simp: add_source_def add_group_nodes_def source_kinds groups_in_add_leafs)
next
  case False
  then have "Src_Kind s = SourceKindGroupNodes \<Longrightarrow> add_group_nodes ctx call s acc = Some acc"
    by (auto simp: add_group_nodes_def split: option.splits)
  moreover have "Src_Kind s = SourceKindGroupRef \<Longrightarrow> groups_in T (pl_items (fst (add_group_ref ctx s acc)))"
    using assms(2,3) by (intro groups_in_group_ref) (auto simp: source_targets_def)
  ultimately show ?thesis
    using assms(3) unfolding add_source_def
    by (simp add: groups_in_manual_node groups_in_regex groups_in_filter groups_in_builtin
          del: split_paired_Ex)
qed

lemma shouldRemove_total:
  assumes "st_ok ctx st" "source_targets [s] \<subseteq> T"
  shows "\<exists>b st'. shouldRemove ctx call s it st = Some (b, st')"
proof (cases "Src_Kind s = SourceKindGroupNodes \<and> Src_TargetGroupID s \<noteq> None")
  case True
  then obtain t where t: "Src_TargetGroupID s = Some t" by blast
  then have "t \<in> T" using True assms(2) by (auto simp: source_targets_def)
  then obtain m st' where "call t st = Some (m, st')" using call_total[of t st] assms(1) by blast
  with True t show ?thesis by (auto simp: shouldRemove_def Let_def)
qed (auto simp: shouldRemove_def Let_def split: option.splits)

lemma remove_items_total:
  "st_ok ctx st \<Longrightarrow> source_targets [s] \<subseteq> T \<Longrightarrow>
   \<exists>remaining seen' st'. remove_items ctx call s items seen st = Some (remaining, seen', st') \<and>
      set remaining \<subseteq> set items"
proof (induction items arbitrary: seen st)
  case (Cons it items)
  obtain b st1 where b: "shouldRemove ctx call s it st = Some (b, st1)" using shouldRemove_total Cons.prems by blast
  then have "st_ok ctx st1" using shouldRemove_ok Cons.prems by blast
  note IH = Cons.IH[OF this Cons.prems(2)]
  show ?case
  proof (cases b)
    case True
    with b IH[of "removeAll (item_id it) seen"] show ?thesis by auto
  next
    case False
    with b IH[of seen] show ?thesis by auto
  qed
qed simp

lemma run_source_total:
  assumes "acc_ok ctx acc" "source_targets [s] \<subseteq> T" "groups_in T (pl_items (fst acc))"
  shows "\<exists>acc'. run_source ctx call g s acc = Some acc' \<and> groups_in T (pl_items (fst acc'))"
proof -
  have "\<exists>acc'. remove_source ctx call s acc = Some acc' \<and> groups_in T (pl_items (fst acc'))"
    using remove_items_total[of "snd acc" s "pl_items (fst acc)" "pl_seen (fst acc)"] assms
    by (fastforce simp: remove_source_def acc_ok_def groups_in_def)
  then show ?thesis using add_source_total[OF assms] assms(3)
    by (simp add: run_source_def del: split_paired_Ex)
qed

lemma run_sources_total:
  "acc_ok ctx acc \<Longrightarrow> source_targets ss \<subseteq> T \<Longrightarrow> groups_in T (pl_items (fst acc)) \<Longrightarrow>
   \<exists>acc'. run_sources ctx call g ss acc = Some acc' \<and> groups_in T (pl_items (fst acc'))"
proof (induction ss arbitrary: acc)
  case (Cons s ss)
  have sub: "source_targets [s] \<subseteq> T" "source_targets ss \<subseteq> T" using Cons.prems(2) by (auto simp: source_targets_def)
  then obtain acc1 where acc1: "run_source ctx call g s acc = Some acc1" "groups_in T (pl_items (fst acc1))"
    using run_source_total Cons.prems by blast
  then show ?case using Cons.IH[OF run_source_ok[OF Cons.prems(1) acc1(1)] sub(2) acc1(2)] by simp
qed simp

lemma expand_items_total:
  "ex_ok ctx ex \<Longrightarrow> st_ok ctx st \<Longrightarrow> \<forall>it \<in> set items. item_ok ctx it \<Longrightarrow> groups_in T items \<Longrightarrow>
   \<exists>ex' st'. expand_items ctx call g items (ex, st) = Some (ex', st')"
proof (induction items arbitrary: ex st)
  case (Cons it items)
  have "\<exists>ex' st'. expand_item ctx call g it (ex, st) = Some (ex', st')"
    using call_total[of "item_targetID it" st] Cons.prems by (auto simp: expand_item_def groups_in_def Let_def)
  then obtain ex1 st1 where step: "expand_item ctx call g it (ex, st) = Some (ex1, st1)" by blast
  have "item_ok ctx it" using Cons.prems(3) by simp
  from expand_item_ok[OF Cons.prems(1,2) this step] have ok: "ex_ok ctx ex1" "st_ok ctx st1" by blast+
  have "groups_in T items" using Cons.prems(4) by (simp add: groups_in_def)
  with Cons.IH[OF ok] Cons.prems(3) step show ?case by simp
qed simp

lemma body_total:
  assumes "st_ok ctx st"
    and targets: "gm_get (ctx_groupMap ctx) gid \<noteq> None \<Longrightarrow> source_targets (gm_get_or [] (ctx_groupSources ctx) gid) \<subseteq> T"
  shows "\<exists>m st'. resolve_body ctx call gid st = Some (m, st')"
proof (cases "gm_get (rs_memo st) gid = None \<and> gid \<notin> set (rs_resolving st) \<and> gm_get (ctx_groupMap ctx) gid \<noteq> None")
  case True
  then obtain g where g: "gm_get (ctx_groupMap ctx) gid = Some g" by auto
  let ?acc = "(\<lparr>pl_items = [], pl_seen = [], pl_count = 0\<rparr>, st\<lparr>rs_resolving := gid # rs_resolving st\<rparr>)"
  have acc: "acc_ok ctx ?acc" using assms(1) by (simp add: acc_ok_def pl_ok_def st_ok_def)
  obtain pl st1 where pl: "run_sources ctx call g (gm_get_or [] (ctx_groupSources ctx) gid) ?acc = Some (pl, st1)"
    "groups_in T (pl_items pl)"
    using run_sources_total[OF acc, of "gm_get_or [] (ctx_groupSources ctx) gid" g] targets True
    by (auto simp: groups_in_def)
  have "pl_ok ctx pl" "st_ok ctx st1" using run_sources_ok[OF acc pl(1)] by (simp_all add: acc_ok_def)
  then have "\<exists>ex' st'. expand_items ctx call g (pl_items pl)
      (\<lparr>ex_childGroupIDs = [], ex_nodeLogicalIDs = [], ex_leafItems = [], ex_leafNodeSet = []\<rparr>, st1) = Some (ex', st')"
    using pl(2) by (intro expand_items_total) (auto simp: ex_ok_def node_leafs_def pl_ok_def)
  with True g pl(1) show ?thesis by (auto simp: resolve_body_def Let_def)
qed (auto simp: resolve_body_def split: option.splits)

end

lemma resolveGroupMemo_total:
  assumes ok: "ctx_ok ctx"
    and rank: "\<And>gid t. gm_get (ctx_groupMap ctx) gid \<noteq> None \<Longrightarrow>
                 t \<in> source_targets (gm_get_or [] (ctx_groupSources ctx) gid) \<Longrightarrow> rank t < (rank gid :: nat)"
  shows "st_ok ctx st \<Longrightarrow> rank gid < n \<Longrightarrow> \<exists>m st'. resolveGroupMemo n ctx gid st = Some (m, st')"
proof (induction n arbitrary: gid st)
  case (Suc n)
  have "memo_callback_total ctx (resolveGroupMemo n ctx) {t. rank t < n}"
    using resolveGroupMemo_callback[OF ok] Suc.IH
    by (auto intro!: memo_callback_total.intro memo_callback_total_axioms.intro)
  moreover have "source_targets (gm_get_or [] (ctx_groupSources ctx) gid) \<subseteq> {t. rank t < n}"
    if "gm_get (ctx_groupMap ctx) gid \<noteq> None"
    using rank[OF that] Suc.prems(2) by force
  ultimately show ?case
    using memo_callback_total.body_total[OF _ Suc.prems(1)] by simp
qed simp

end
