(* ===== verification/Policy_Resolver.thy ===== *)
theory Policy_Resolver
  imports Group_Resolution
begin

section \<open>The policy resolver (resolver/graph.go, resolver/resolver.go)\<close>

text \<open>
  \<open>resolveGroups\<close> resolves every group, projects filtered group references into derived groups,
  recomputes the nodes reachable from each group and reports empty groups; \<open>resolveRules\<close> orders the
  routing rules; \<open>Resolve\<close> is the whole pipeline from the inputs to the snapshot. The two digests of
  the snapshot are fingerprints computed by \<open>resolver/digest.go\<close> from JSON texts and are left out.
  The outcome \<open>None\<close> is exhausted fuel, which never happens (theorem \<open>Resolve_returns\<close>).
\<close>

subsection \<open>Data\<close>

record ResolvedGroup =
  RG_EmptyFallbackPass :: bool
  RG_EffectiveEmptyPass :: bool
  RG_ID :: string
  RG_Name :: string
  RG_GroupType :: string
  RG_Members :: "ResolvedGroupMember list"
  RG_ChildGroupIDs :: "string list"
  RG_NodeLogicalIDs :: "string list"
  RG_AllNodeLogicalIDs :: "string list"
  RG_ExpandedNodeIDs :: "string list"
  RG_Sources :: "MemberSource list"
  RG_Position :: nat

record GroupFilterCount =
  GFC_Candidate :: nat
  GFC_Kept :: nat
  GFC_Excluded :: nat

definition UsesEmptyPass :: "ResolvedGroup \<Rightarrow> bool" where
  "UsesEmptyPass g \<longleftrightarrow>
     RG_EmptyFallbackPass g \<and> RG_EffectiveEmptyPass g \<and> length (RG_AllNodeLogicalIDs g) = 0"

definition has_builtin :: "ResolvedGroup \<Rightarrow> bool" where
  "has_builtin g = list_ex (\<lambda>m. Mem_Kind m = MemberKindBuiltin) (RG_Members g)"

subsection \<open>The first pass over the groups\<close>

definition make_ctx ::
  "regex_engines \<Rightarrow> NodeGroup list \<Rightarrow> Node list \<Rightarrow> (string, Node) gomap \<Rightarrow> (string, Node) gomap \<Rightarrow>
   (string, NodeSource list) gomap \<Rightarrow> (string, latest_obs) gomap \<Rightarrow> time \<Rightarrow> rctx" where
  "make_ctx eng groups globalAdmittedNodes globalAdmittedMap admittedNodeMap nodeSources latestObs asOf =
     \<lparr>ctx_eng = eng,
      ctx_groupMap = foldl (\<lambda>m g. gm_put m (Group_ID g) g) [] groups,
      ctx_groupSources = foldl (\<lambda>m g. gm_put m (Group_ID g) (sort_key Src_Position (Group_Sources g))) [] groups,
      ctx_sortedGlobalNodes = sort_key (\<lambda>n. (Node_DisplayName n, Node_LogicalID n)) globalAdmittedNodes,
      ctx_globalAdmittedMap = globalAdmittedMap, ctx_admittedNodeMap = admittedNodeMap,
      ctx_nodeSources = nodeSources, ctx_latestObs = latestObs, ctx_asOf = asOf\<rparr>"

definition resolved_group :: "rctx \<Rightarrow> nat \<Rightarrow> NodeGroup \<Rightarrow> groupMemo \<Rightarrow> ResolvedGroup" where
  "resolved_group ctx i g m =
     \<lparr>RG_EmptyFallbackPass = Group_EmptyFallbackPass g, RG_EffectiveEmptyPass = memo_effectiveEmptyPass m,
      RG_ID = Group_ID g, RG_Name = Group_Name g, RG_GroupType = Group_GroupType g,
      RG_Members = memo_members m, RG_ChildGroupIDs = memo_childGroupIDs m,
      RG_NodeLogicalIDs = memo_nodeLogicalIDs m, RG_AllNodeLogicalIDs = memo_expandedNodeIDs m,
      RG_ExpandedNodeIDs = memo_expandedNodeIDs m,
      RG_Sources = gm_get_or [] (ctx_groupSources ctx) (Group_ID g), RG_Position = i\<rparr>"

definition group_count :: "groupMemo \<Rightarrow> GroupFilterCount" where
  "group_count m =
     (let kept = length (memo_expandedNodeIDs m);
          candidate = (if memo_candidateCount m < kept then kept else memo_candidateCount m)
      in \<lparr>GFC_Candidate = candidate, GFC_Kept = kept, GFC_Excluded = candidate - kept\<rparr>)"

fun resolve_list ::
  "nat \<Rightarrow> rctx \<Rightarrow> nat \<Rightarrow> NodeGroup list \<Rightarrow> rstate \<times> (string, GroupFilterCount) gomap \<Rightarrow>
   (ResolvedGroup list \<times> rstate \<times> (string, GroupFilterCount) gomap) option" where
  "resolve_list fuel ctx i [] (st, counts) = Some ([], st, counts)"
| "resolve_list fuel ctx i (g # gs) (st, counts) =
     (case resolveGroupMemo fuel ctx (Group_ID g) st of
        None \<Rightarrow> None
      | Some (m, st') \<Rightarrow>
          (case resolve_list fuel ctx (Suc i) gs (st', gm_put counts (Group_ID g) (group_count m)) of
             None \<Rightarrow> None
           | Some (rgs, st'', counts') \<Rightarrow> Some (resolved_group ctx i g m # rgs, st'', counts')))"

subsection \<open>Derived groups\<close>

definition derived_filter :: "rctx \<Rightarrow> string \<Rightarrow> string \<Rightarrow> NodeFilterSpec option" where
  "derived_filter ctx parentID childID =
     (case find (\<lambda>s. Src_Operation s = OperationAdd \<and> Src_Kind s = SourceKindGroupRef \<and>
                     Src_TargetGroupID s = Some childID) (gm_get_or [] (ctx_groupSources ctx) parentID) of
        None \<Rightarrow> None | Some s \<Rightarrow> Src_FilterSpec s)"

record projection =
  pj_members :: "ResolvedGroupMember list"
  pj_nodeIDs :: "string list"
  pj_filteredOut :: bool

definition project_leaf :: "rctx \<Rightarrow> NodeFilterSpec option \<Rightarrow> projection \<Rightarrow> resolvedItem \<Rightarrow> projection" where
  "project_leaf ctx pFilter pj leaf =
     (if item_kind leaf = MemberKindNode
      then (case gm_get (ctx_globalAdmittedMap ctx) (item_targetID leaf) of
              Some node \<Rightarrow>
                if fst (ctx_matches ctx pFilter node (item_targetID leaf))
                then pj\<lparr>pj_members := pj_members pj @
                          [\<lparr>Mem_Kind = MemberKindNode, Mem_TargetID = item_targetID leaf,
                            Mem_DisplayName = Node_DisplayName node, Mem_Position = length (pj_members pj)\<rparr>],
                        pj_nodeIDs := pj_nodeIDs pj @ [item_targetID leaf]\<rparr>
                else pj\<lparr>pj_filteredOut := True\<rparr>
            | None \<Rightarrow> pj\<lparr>pj_filteredOut := True\<rparr>)
      else pj\<lparr>pj_members := pj_members pj @ [item_member (length (pj_members pj)) leaf]\<rparr>)"

definition project_leafs :: "rctx \<Rightarrow> NodeFilterSpec option \<Rightarrow> resolvedItem list \<Rightarrow> projection" where
  "project_leafs ctx pFilter leafs =
     foldl (project_leaf ctx pFilter) \<lparr>pj_members = [], pj_nodeIDs = [], pj_filteredOut = False\<rparr> leafs"

definition derived_group :: "string \<Rightarrow> string \<Rightarrow> string \<Rightarrow> projection \<Rightarrow> nat \<Rightarrow> ResolvedGroup" where
  "derived_group derivedID derivedName groupType pj position =
     \<lparr>RG_EmptyFallbackPass = False, RG_EffectiveEmptyPass = False, RG_ID = derivedID, RG_Name = derivedName,
      RG_GroupType = groupType, RG_Members = pj_members pj, RG_ChildGroupIDs = [],
      RG_NodeLogicalIDs = pj_nodeIDs pj, RG_AllNodeLogicalIDs = pj_nodeIDs pj, RG_ExpandedNodeIDs = pj_nodeIDs pj,
      RG_Sources = [], RG_Position = position\<rparr>"

fun replace_first :: "'a \<Rightarrow> 'a \<Rightarrow> 'a list \<Rightarrow> 'a list" where
  "replace_first x y [] = []"
| "replace_first x y (z # zs) = (if z = x then y # zs else z # replace_first x y zs)"

text \<open>
  One member of a parent. Every group has been resolved by now, so the recursive call of the source
  finds the child in the memo table.
\<close>

definition derive_member ::
  "rctx \<Rightarrow> rstate \<Rightarrow> (string, ResolvedGroup) gomap \<Rightarrow> nat \<Rightarrow> nat \<Rightarrow> ResolvedGroup \<times> ResolvedGroup list \<Rightarrow>
   ResolvedGroup \<times> ResolvedGroup list" where
  "derive_member ctx st resolvedGroupMap nResolved mIdx acc =
     (let (parent, derived) = acc;
          member = RG_Members parent ! mIdx;
          childID = Mem_TargetID member;
          pFilter = derived_filter ctx (RG_ID parent) childID
      in if Mem_Kind member \<noteq> MemberKindGroup \<or> NodeFilterSpec_IsEmpty pFilter then acc
         else case gm_get resolvedGroupMap childID of
                None \<Rightarrow> acc
              | Some childGroup \<Rightarrow>
                  (let pj = project_leafs ctx pFilter (memo_leafItems (gm_get_or empty_memo (rs_memo st) childID))
                   in if \<not> pj_filteredOut pj then acc
                      else let derivedID = deterministicDerivedUUID (RG_ID parent) childID;
                               derivedName = RG_Name childGroup @ '' ['' @ RG_Name parent @ '']''
                           in (parent\<lparr>RG_Members := (RG_Members parent)[mIdx :=
                                          member\<lparr>Mem_TargetID := derivedID, Mem_DisplayName := derivedName\<rparr>],
                                      RG_ChildGroupIDs := replace_first childID derivedID (RG_ChildGroupIDs parent)\<rparr>,
                               derived @ [derived_group derivedID derivedName (RG_GroupType childGroup) pj
                                            (nResolved + length derived)])))"

definition derive_parent ::
  "rctx \<Rightarrow> rstate \<Rightarrow> (string, ResolvedGroup) gomap \<Rightarrow> nat \<Rightarrow> ResolvedGroup \<times> ResolvedGroup list \<Rightarrow>
   ResolvedGroup \<times> ResolvedGroup list" where
  "derive_parent ctx st resolvedGroupMap nResolved acc =
     fold (derive_member ctx st resolvedGroupMap nResolved) [0..<length (RG_Members (fst acc))] acc"

fun derive_all ::
  "rctx \<Rightarrow> rstate \<Rightarrow> (string, ResolvedGroup) gomap \<Rightarrow> nat \<Rightarrow> ResolvedGroup list \<Rightarrow> ResolvedGroup list \<Rightarrow>
   ResolvedGroup list \<times> ResolvedGroup list" where
  "derive_all ctx st rgMap nResolved [] derived = ([], derived)"
| "derive_all ctx st rgMap nResolved (parent # parents) derived =
     (let (parent', derived') = derive_parent ctx st rgMap nResolved (parent, derived);
          (parents', derived'') = derive_all ctx st rgMap nResolved parents derived'
      in (parent' # parents', derived''))"

definition group_table :: "ResolvedGroup list \<Rightarrow> (string, ResolvedGroup) gomap" where
  "group_table rgs = foldl (\<lambda>m rg. gm_put m (RG_ID rg) rg) [] rgs"

subsection \<open>Nodes reachable from a group\<close>

type_synonym collect_state = "string list \<times> string list"

fun collect :: "nat \<Rightarrow> (string, ResolvedGroup) gomap \<Rightarrow> string \<Rightarrow> collect_state \<Rightarrow> collect_state option"
  and collect_children :: "nat \<Rightarrow> (string, ResolvedGroup) gomap \<Rightarrow> string list \<Rightarrow> collect_state \<Rightarrow> collect_state option" where
  "collect 0 rgMap groupID cs = None"
| "collect (Suc n) rgMap groupID (visited, nodes) =
     (if groupID \<in> set visited then Some (visited, nodes)
      else case gm_get rgMap groupID of
             None \<Rightarrow> Some (groupID # visited, nodes)
           | Some target \<Rightarrow>
               collect_children n rgMap (RG_ChildGroupIDs target)
                 (groupID # visited, foldl add_key nodes (RG_NodeLogicalIDs target)))"
| "collect_children n rgMap [] cs = Some cs"
| "collect_children n rgMap (cID # cIDs) cs =
     (case collect n rgMap cID cs of None \<Rightarrow> None | Some cs' \<Rightarrow> collect_children n rgMap cIDs cs')"

definition finish_group :: "(string, ResolvedGroup) gomap \<Rightarrow> ResolvedGroup \<Rightarrow> ResolvedGroup option" where
  "finish_group rgMap rg =
     (case collect (Suc (Suc (length rgMap))) rgMap (RG_ID rg) ([], []) of
        None \<Rightarrow> None
      | Some (visited, nodes) \<Rightarrow>
          (let allNodesList = sort nodes
           in Some (rg\<lparr>RG_AllNodeLogicalIDs := allNodesList, RG_ExpandedNodeIDs := allNodesList,
                       RG_EffectiveEmptyPass := (RG_EmptyFallbackPass rg \<and> length allNodesList = 0 \<and> \<not> has_builtin rg)\<rparr>)))"

fun finish_groups :: "(string, ResolvedGroup) gomap \<Rightarrow> ResolvedGroup list \<Rightarrow> ResolvedGroup list option" where
  "finish_groups rgMap [] = Some []"
| "finish_groups rgMap (rg # rgs) =
     (case finish_group rgMap rg of
        None \<Rightarrow> None
      | Some rg' \<Rightarrow> (case finish_groups rgMap rgs of None \<Rightarrow> None | Some rgs' \<Rightarrow> Some (rg' # rgs')))"

subsection \<open>Empty groups\<close>

definition filter_defined :: "NodeFilterSpec option \<Rightarrow> (string, NodeFilterSpec) gomap \<Rightarrow> bool" where
  "filter_defined globalFilter groupFilters \<longleftrightarrow>
     \<not> NodeFilterSpec_IsEmpty globalFilter \<or> list_ex (\<lambda>(gid, gf). \<not> NodeFilterSpec_IsEmpty (Some gf)) groupFilters"

definition empty_diagnostic ::
  "(string, PolicyRule) gomap \<Rightarrow> bool \<Rightarrow> bool \<Rightarrow> ResolvedGroup \<Rightarrow> Diagnostic list" where
  "empty_diagnostic routedGroups noNodes anyFilterDefined rg =
     (let hasDest = (0 < length (RG_AllNodeLogicalIDs rg) \<or> has_builtin rg);
          name = go_quote (RG_Name rg) @ '' ('' @ RG_ID rg @ '')''
      in if \<not> UsesEmptyPass rg \<and> (length (RG_Members rg) = 0 \<or> \<not> hasDest)
         then (case gm_get routedGroups (RG_ID rg) of
                 Some rule \<Rightarrow>
                   (let routed = ''routed group '' @ name @ '' referenced by rule '' @
                                 go_quote (Rule_Expression rule) @ '' has 0 available nodes'';
                        msg = (if noNodes then ''current effective inventory is empty; '' @ routed
                               else if anyFilterDefined then routed @ '' after filtering'' else routed)
                    in [diagnostic DiagnosticSeverityError ''empty_routed_group'' msg (RG_ID rg) []])
               | None \<Rightarrow>
                   [diagnostic DiagnosticSeverityWarning ''empty_group''
                      (''group '' @ go_quote (RG_Name rg) @ '' has 0 active members after resolution'') (RG_ID rg) []])
         else [])"

subsection \<open>All groups\<close>

definition resolveGroups ::
  "regex_engines \<Rightarrow> NodeGroup list \<Rightarrow> Node list \<Rightarrow> (string, Node) gomap \<Rightarrow> (string, Node) gomap \<Rightarrow>
   (string, NodeFilterSpec) gomap \<Rightarrow> NodeFilterSpec option \<Rightarrow> (string, NodeSource list) gomap \<Rightarrow>
   (string, latest_obs) gomap \<Rightarrow> time \<Rightarrow> PolicyRule list \<Rightarrow>
   (ResolvedGroup list \<times> Diagnostic list \<times> (string, GroupFilterCount) gomap) option" where
  "resolveGroups eng groups globalAdmittedNodes globalAdmittedMap admittedNodeMap groupFilters globalFilter
     nodeSources latestObs asOf rules =
     (let ctx = make_ctx eng groups globalAdmittedNodes globalAdmittedMap admittedNodeMap nodeSources latestObs asOf;
          sortedGroups = sort_key (\<lambda>g. (Group_Name g, Group_ID g)) groups;
          st0 = \<lparr>rs_memo = [], rs_resolving = [], rs_diagnostics = []\<rparr>
      in case resolve_list (length groups) ctx 0 sortedGroups (st0, []) of
           None \<Rightarrow> None
         | Some (rgs, st, counts) \<Rightarrow>
             (let (parents, derived) = derive_all ctx st (group_table rgs) (length rgs) rgs [];
                  rgs1 = parents @ derived
              in case finish_groups (group_table rgs1) rgs1 of
                   None \<Rightarrow> None
                 | Some rgs2 \<Rightarrow>
                     (let routedGroups = foldl (\<lambda>m rule. gm_put m (Rule_TargetGroupID rule) rule) [] rules;
                          emptyDiags = concat (map (empty_diagnostic routedGroups (length globalAdmittedNodes = 0)
                                                      (filter_defined globalFilter groupFilters)) rgs2)
                      in Some (rgs2, rs_diagnostics st @ emptyDiags, counts))))"

subsection \<open>Rules\<close>

record ResolvedRule =
  RR_ID :: string
  RR_TargetGroupID :: string
  RR_TargetGroupName :: string
  RR_Expression :: string
  RR_Position :: int
  RR_IsTerminal :: bool

definition resolved_rule :: "(string, string) gomap \<Rightarrow> PolicyRule \<Rightarrow> ResolvedRule" where
  "resolved_rule groupNameMap r =
     \<lparr>RR_ID = Rule_ID r, RR_TargetGroupID = Rule_TargetGroupID r,
      RR_TargetGroupName = gm_get_or [] groupNameMap (Rule_TargetGroupID r),
      RR_Expression = Rule_Expression r, RR_Position = Rule_Position r,
      RR_IsTerminal = IsMatchRule (Rule_Expression r)\<rparr>"

fun number_rules :: "int \<Rightarrow> ResolvedRule list \<Rightarrow> ResolvedRule list" where
  "number_rules pos [] = []"
| "number_rules pos (r # rs) = r\<lparr>RR_Position := pos\<rparr> # number_rules (pos + 1) rs"

definition resolveRules :: "PolicyRule list \<Rightarrow> NodeGroup list \<Rightarrow> ResolvedRule list" where
  "resolveRules rules groups =
     (let groupNameMap = foldl (\<lambda>m g. gm_put m (Group_ID g) (Group_Name g)) [] groups;
          resolved = map (resolved_rule groupNameMap) (sort_key Rule_Position rules);
          standardRules = filter (\<lambda>r. \<not> RR_IsTerminal r) resolved;
          terminalRules = filter RR_IsTerminal resolved
      in number_rules 0 (standardRules @ terminalRules))"

subsection \<open>The whole pipeline\<close>

record DNSConfig =
  DNS_Enabled :: bool
  DNS_Nameservers :: "string list"
  DNS_Fallback :: "string list"

record ResolvedNode =
  RN_LogicalID :: string
  RN_DisplayName :: string
  RN_Protocol :: string
  RN_Server :: string
  RN_Port :: int
  RN_Credentials :: InboundProtocolCredential
  RN_Active :: bool
  RN_ConnectionRevision :: int
  RN_Position :: nat

record FilterLayerCounts =
  FLC_RawTotal :: nat
  FLC_AdmittedTotal :: nat
  FLC_GlobalFilteredTotal :: nat
  FLC_GroupFilteredTotal :: nat
  FLC_GroupCounts :: "(string, GroupFilterCount) gomap"

record ResolvedPolicySnapshot =
  Snap_RevisionID :: string
  Snap_InventoryWatermark :: string
  Snap_CompilerVersion :: string
  Snap_Nodes :: "ResolvedNode list"
  Snap_NodeLogicalIDs :: "string list"
  Snap_Groups :: "ResolvedGroup list"
  Snap_Rules :: "ResolvedRule list"
  Snap_DNS :: DNSConfig
  Snap_Diagnostics :: "Diagnostic list"
  Snap_RiskPolicyRevision :: string
  Snap_RiskDecisionDigest :: string
  Snap_RiskEvaluatedAt :: "time option"
  Snap_AdmittedNodeIDs :: "string list"
  Snap_ExcludedNodeIDs :: "string list"
  Snap_FilterCounts :: FilterLayerCounts
  Snap_ResolvedAt :: time

record ResolveInput =
  In_RevisionID :: string
  In_InventoryWatermark :: string
  In_CompilerVersion :: string
  In_Nodes :: "Node list"
  In_Groups :: "NodeGroup list"
  In_GroupSources :: "(string, MemberSource list) gomap option"
  In_Edges :: "(string, GroupEdge list) gomap"
  In_PolicyRules :: "PolicyRule list"
  In_AdmissionRules :: "AdmissionRule list"
  In_DNS :: DNSConfig
  In_RiskPolicyRevision :: string
  In_RiskDecisionDigest :: string
  In_RiskEvaluatedAt :: "time option"
  In_RiskReviewAction :: string
  In_RiskDecisions :: "RiskDecision list"
  In_ExcludedNodeIDs :: "string list"
  In_GlobalFilter :: "NodeFilterSpec option"
  In_GroupFilters :: "(string, NodeFilterSpec) gomap"
  In_NodeSources :: "(string, NodeSource list) gomap"
  In_LatestObservations :: "(string, latest_obs) gomap"
  In_AsOf :: time

text \<open>Sources are the only graph input: legacy edges and group filters are dropped.\<close>

definition normalize_input :: "ResolveInput \<Rightarrow> ResolveInput" where
  "normalize_input input =
     input\<lparr>In_CompilerVersion := (if In_CompilerVersion input = [] then ''1.0.0'' else In_CompilerVersion input),
           In_Groups := map (\<lambda>g. (case In_GroupSources input of
                                    None \<Rightarrow> g
                                  | Some srcs \<Rightarrow> g\<lparr>Group_Sources := gm_get_or [] srcs (Group_ID g)\<rparr>)
                                 \<lparr>Group_NodeFilter := None\<rparr>) (In_Groups input),
           In_Edges := [], In_GroupFilters := []\<rparr>"

definition global_keep :: "regex_engines \<Rightarrow> ResolveInput \<Rightarrow> time \<Rightarrow> Node \<Rightarrow> bool \<times> string" where
  "global_keep eng input asOf node =
     (if NodeFilterSpec_IsEmpty (In_GlobalFilter input) then (True, [])
      else MatchesFilter eng (In_GlobalFilter input) node
             (gm_get_or [] (In_NodeSources input) (Node_LogicalID node))
             (gm_get_or Map.empty (In_LatestObservations input) (Node_LogicalID node)) asOf)"

record global_stage =
  gs_nodes :: "Node list"
  gs_map :: "(string, Node) gomap"
  gs_excluded :: "string list"
  gs_diagnostics :: "Diagnostic list"

definition global_step :: "regex_engines \<Rightarrow> ResolveInput \<Rightarrow> time \<Rightarrow> global_stage \<Rightarrow> Node \<Rightarrow> global_stage" where
  "global_step eng input asOf gs node =
     (let (matched, reason) = global_keep eng input asOf node
      in if matched
         then gs\<lparr>gs_nodes := gs_nodes gs @ [node], gs_map := gm_put (gs_map gs) (Node_LogicalID node) node\<rparr>
         else gs\<lparr>gs_excluded := gs_excluded gs @ [Node_LogicalID node],
                 gs_diagnostics := gs_diagnostics gs @
                   [diagnostic DiagnosticSeverityInfo ''global_filter_excluded''
                      (''node '' @ go_quote (Node_DisplayName node) @ '' excluded by global filter: '' @ reason)
                      (Node_LogicalID node) reason]\<rparr>)"

definition apply_global_filter :: "regex_engines \<Rightarrow> ResolveInput \<Rightarrow> time \<Rightarrow> Node list \<Rightarrow> global_stage" where
  "apply_global_filter eng input asOf nodes =
     foldl (global_step eng input asOf) \<lparr>gs_nodes = [], gs_map = [], gs_excluded = [], gs_diagnostics = []\<rparr> nodes"

definition resolved_node :: "nat \<Rightarrow> Node \<Rightarrow> ResolvedNode" where
  "resolved_node i n =
     \<lparr>RN_LogicalID = Node_LogicalID n, RN_DisplayName = Node_DisplayName n, RN_Protocol = Node_Protocol n,
      RN_Server = Node_Server n, RN_Port = Node_Port n, RN_Credentials = Node_Credentials n,
      RN_Active = Node_Active n, RN_ConnectionRevision = Node_ConnectionRevision n, RN_Position = i\<rparr>"

definition sorted_nodes :: "Node list \<Rightarrow> ResolvedNode list" where
  "sorted_nodes nodes =
     (let ns = map (\<lambda>(i, n). resolved_node i n) (enumerate 0 nodes);
          ns = sort_key (\<lambda>n. (RN_DisplayName n, RN_LogicalID n)) ns
      in map (\<lambda>(i, n). n\<lparr>RN_Position := i\<rparr>) (enumerate 0 ns))"

definition input_admission :: "regex_engines \<Rightarrow> ResolveInput \<Rightarrow> nodeAdmissionResult" where
  "input_admission eng input =
     evaluateNodeAdmission eng (In_Nodes input) (In_AdmissionRules input)
       (In_ExcludedNodeIDs input @
        fst (evaluateRiskAdmission (In_Nodes input) (In_RiskPolicyRevision input) (In_RiskDecisions input)
               (In_RiskReviewAction input)))"

definition resolve_normalized ::
  "regex_engines \<Rightarrow> ResolveInput \<Rightarrow> time \<Rightarrow> ResolvedPolicySnapshot option" where
  "resolve_normalized eng input now =
     (let asOf = (if In_AsOf input = zero_time then now else In_AsOf input);
          riskDiagnostics = snd (evaluateRiskAdmission (In_Nodes input) (In_RiskPolicyRevision input)
                                   (In_RiskDecisions input) (In_RiskReviewAction input));
          adm = input_admission eng input;
          gs = apply_global_filter eng input asOf (Adm_AdmittedNodes adm);
          nodes = sorted_nodes (gs_nodes gs);
          excluded = uniqueStrings (sort (Adm_ExcludedNodeIDs adm @ gs_excluded gs))
      in case resolveGroups eng (In_Groups input) (gs_nodes gs) (gs_map gs) (Adm_AdmittedNodeMap adm)
                (In_GroupFilters input) (In_GlobalFilter input) (In_NodeSources input)
                (In_LatestObservations input) asOf (In_PolicyRules input) of
           None \<Rightarrow> None
         | Some (rgs, groupDiagnostics, counts) \<Rightarrow>
             Some \<lparr>Snap_RevisionID = In_RevisionID input, Snap_InventoryWatermark = In_InventoryWatermark input,
                   Snap_CompilerVersion = In_CompilerVersion input, Snap_Nodes = nodes,
                   Snap_NodeLogicalIDs = map RN_LogicalID nodes, Snap_Groups = rgs,
                   Snap_Rules = resolveRules (In_PolicyRules input) (In_Groups input),
                   Snap_DNS = In_DNS input,
                   Snap_Diagnostics = sort_key (\<lambda>d. (Diag_Code d, Diag_Target d, Diag_Message d))
                     (Adm_Diagnostics adm @ riskDiagnostics @ gs_diagnostics gs @ groupDiagnostics),
                   Snap_RiskPolicyRevision = In_RiskPolicyRevision input,
                   Snap_RiskDecisionDigest = In_RiskDecisionDigest input,
                   Snap_RiskEvaluatedAt = In_RiskEvaluatedAt input,
                   Snap_AdmittedNodeIDs = sort (map Node_LogicalID (gs_nodes gs)),
                   Snap_ExcludedNodeIDs = excluded,
                   Snap_FilterCounts =
                     \<lparr>FLC_RawTotal = length (In_Nodes input), FLC_AdmittedTotal = length (Adm_AdmittedNodes adm),
                      FLC_GlobalFilteredTotal = length (gs_nodes gs),
                      FLC_GroupFilteredTotal = length (remdups (concat (map RG_AllNodeLogicalIDs rgs))),
                      FLC_GroupCounts = counts\<rparr>,
                   Snap_ResolvedAt = now\<rparr>)"

text \<open>\<open>ctxErr\<close> is the error of a cancelled context, \<open>now\<close> the clock.\<close>

definition Resolve ::
  "regex_engines \<Rightarrow> go_error \<Rightarrow> time \<Rightarrow> ResolveInput \<Rightarrow> ResolvedPolicySnapshot result option" where
  "Resolve eng ctxErr now input0 =
     (case ctxErr of
        Some e \<Rightarrow> Some (Inl e)
      | None \<Rightarrow>
          (let input = normalize_input input0
           in case ValidatePolicyTopology eng (In_Groups input) [] (In_PolicyRules input) False of
                Some e \<Rightarrow> Some (Inl e)
              | None \<Rightarrow> (case NodeFilterSpec_Validate eng (In_GlobalFilter input) of
                  Some e \<Rightarrow> Some (Inl e)
                | None \<Rightarrow> map_option Inr (resolve_normalized eng input now))))"

subsection \<open>Collecting is reachability\<close>

definition child_rel :: "(string, ResolvedGroup) gomap \<Rightarrow> (string \<times> string) set" where
  "child_rel rgMap = {(u, v). \<exists>t. gm_get rgMap u = Some t \<and> v \<in> set (RG_ChildGroupIDs t)}"

definition nodes_at :: "(string, ResolvedGroup) gomap \<Rightarrow> string \<Rightarrow> string set" where
  "nodes_at rgMap u = (case gm_get rgMap u of None \<Rightarrow> {} | Some t \<Rightarrow> set (RG_NodeLogicalIDs t))"

definition collect_post ::
  "(string, ResolvedGroup) gomap \<Rightarrow> nat \<Rightarrow> string set \<Rightarrow> collect_state \<Rightarrow> collect_state option \<Rightarrow> bool" where
  "collect_post rgMap n starts cs r \<longleftrightarrow>
     (case r of
        None \<Rightarrow> n \<le> card (fst ` set rgMap - set (fst cs))
      | Some cs' \<Rightarrow>
          set (fst cs) \<union> starts \<subseteq> set (fst cs') \<and>
          set (fst cs') - set (fst cs) \<subseteq> (child_rel rgMap)\<^sup>* `` starts \<and>
          set (snd cs') = set (snd cs) \<union> (\<Union>u \<in> set (fst cs') - set (fst cs). nodes_at rgMap u) \<and>
          (\<forall>u \<in> set (fst cs') - set (fst cs). child_rel rgMap `` {u} \<subseteq> set (fst cs')) \<and>
          (distinct (snd cs) \<longrightarrow> distinct (snd cs')))"

lemma collect_post_SomeI:
  assumes "set (fst cs) \<union> starts \<subseteq> set (fst cs')"
    and "set (fst cs') - set (fst cs) \<subseteq> (child_rel rgMap)\<^sup>* `` starts"
    and "set (snd cs') = set (snd cs) \<union> (\<Union>u \<in> set (fst cs') - set (fst cs). nodes_at rgMap u)"
    and "\<And>u. u \<in> set (fst cs') - set (fst cs) \<Longrightarrow> child_rel rgMap `` {u} \<subseteq> set (fst cs')"
    and "distinct (snd cs) \<Longrightarrow> distinct (snd cs')"
  shows "collect_post rgMap n starts cs (Some cs')"
  using assms by (simp add: collect_post_def)

lemma set_foldl_add_key [simp]: "set (foldl add_key ks xs) = set ks \<union> set xs"
  by (induction xs arbitrary: ks) auto

lemma distinct_foldl_add_key [simp]: "distinct ks \<Longrightarrow> distinct (foldl add_key ks xs)"
  by (induction xs arbitrary: ks) auto

lemma gm_get_key: "gm_get m k = Some v \<Longrightarrow> k \<in> fst ` set m"
  by (metis fst_conv gm_get_Some_in image_eqI)

lemma collect_post_step:
  assumes "groupID \<notin> set visited" "gm_get rgMap groupID = Some target"
    and post: "collect_post rgMap n (set (RG_ChildGroupIDs target))
                 (groupID # visited, foldl add_key nodes (RG_NodeLogicalIDs target)) r"
  shows "collect_post rgMap (Suc n) {groupID} (visited, nodes) r"
proof (cases r)
  case None
  have "groupID \<in> fst ` set rgMap - set visited"
    using gm_get_key[OF assms(2)] assms(1) by blast
  from card_Suc_Diff1[OF _ this]
  have "card (fst ` set rgMap - set visited) = Suc (card (fst ` set rgMap - set visited - {groupID}))" by simp
  moreover have "fst ` set rgMap - set visited - {groupID} = fst ` set rgMap - set (groupID # visited)" by auto
  ultimately have "card (fst ` set rgMap - set visited) = Suc (card (fst ` set rgMap - set (groupID # visited)))"
    by (simp only:)
  with None post show ?thesis by (simp add: collect_post_def)
next
  case (Some cs')
  obtain vis' nodes' where cs': "cs' = (vis', nodes')" by (cases cs')
  let ?R = "child_rel rgMap"
  have kids: "?R `` {groupID} = set (RG_ChildGroupIDs target)" using assms(2) by (auto simp: child_rel_def)
  have p: "insert groupID (set visited) \<union> set (RG_ChildGroupIDs target) \<subseteq> set vis'"
    "set vis' - insert groupID (set visited) \<subseteq> ?R\<^sup>* `` set (RG_ChildGroupIDs target)"
    "set nodes' = set nodes \<union> set (RG_NodeLogicalIDs target) \<union>
       (\<Union>u \<in> set vis' - insert groupID (set visited). nodes_at rgMap u)"
    "\<forall>u \<in> set vis' - insert groupID (set visited). ?R `` {u} \<subseteq> set vis'"
    "distinct nodes \<longrightarrow> distinct nodes'"
    using post Some cs' by (auto simp: collect_post_def)
  have diff: "set vis' - set visited = insert groupID (set vis' - insert groupID (set visited))"
    using p(1) assms(1) by auto
  have "?R\<^sup>* `` set (RG_ChildGroupIDs target) \<subseteq> ?R\<^sup>* `` {groupID}"
    using kids by (auto intro: converse_rtrancl_into_rtrancl)
  moreover have "nodes_at rgMap groupID = set (RG_NodeLogicalIDs target)" using assms(2) by (simp add: nodes_at_def)
  ultimately have "collect_post rgMap (Suc n) {groupID} (visited, nodes) (Some (vis', nodes'))"
    using p kids by (intro collect_post_SomeI) (auto simp: diff)
  then show ?thesis using Some cs' by simp
qed

lemma collect_post_seq:
  assumes "collect_post rgMap n {c} cs (Some cs1)" "collect_post rgMap n (set cids) cs1 r"
  shows "collect_post rgMap n (insert c (set cids)) cs r"
proof (cases r)
  case None
  have "card (fst ` set rgMap - set (fst cs1)) \<le> card (fst ` set rgMap - set (fst cs))"
    using assms(1) by (intro card_mono) (auto simp: collect_post_def)
  with None assms(2) show ?thesis by (simp add: collect_post_def)
next
  case (Some cs2)
  have a: "set (fst cs) \<union> {c} \<subseteq> set (fst cs1)" "set (fst cs1) - set (fst cs) \<subseteq> (child_rel rgMap)\<^sup>* `` {c}"
    "set (snd cs1) = set (snd cs) \<union> (\<Union>u \<in> set (fst cs1) - set (fst cs). nodes_at rgMap u)"
    "\<forall>u \<in> set (fst cs1) - set (fst cs). child_rel rgMap `` {u} \<subseteq> set (fst cs1)"
    "distinct (snd cs) \<longrightarrow> distinct (snd cs1)"
    using assms(1) by (auto simp: collect_post_def)
  have b: "set (fst cs1) \<union> set cids \<subseteq> set (fst cs2)" "set (fst cs2) - set (fst cs1) \<subseteq> (child_rel rgMap)\<^sup>* `` set cids"
    "set (snd cs2) = set (snd cs1) \<union> (\<Union>u \<in> set (fst cs2) - set (fst cs1). nodes_at rgMap u)"
    "\<forall>u \<in> set (fst cs2) - set (fst cs1). child_rel rgMap `` {u} \<subseteq> set (fst cs2)"
    "distinct (snd cs1) \<longrightarrow> distinct (snd cs2)"
    using assms(2) Some by (auto simp: collect_post_def)
  have diff: "set (fst cs2) - set (fst cs) = (set (fst cs1) - set (fst cs)) \<union> (set (fst cs2) - set (fst cs1))"
    using a(1) b(1) by auto
  have "collect_post rgMap n (insert c (set cids)) cs (Some cs2)"
  proof (rule collect_post_SomeI)
    show "set (fst cs) \<union> insert c (set cids) \<subseteq> set (fst cs2)" using a(1) b(1) by blast
    show "set (fst cs2) - set (fst cs) \<subseteq> (child_rel rgMap)\<^sup>* `` insert c (set cids)"
      unfolding diff using a(2) b(2) by blast
    show "set (snd cs2) = set (snd cs) \<union> (\<Union>u \<in> set (fst cs2) - set (fst cs). nodes_at rgMap u)"
      unfolding diff UN_Un a(3) b(3) by (simp only: Un_assoc)
    show "child_rel rgMap `` {u} \<subseteq> set (fst cs2)" if "u \<in> set (fst cs2) - set (fst cs)" for u
      using that a(4) b(1,4) by blast
  qed (use a(5) b(5) in blast)
  with Some show ?thesis by simp
qed

lemma collect_correct:
  shows "collect_post rgMap n {groupID} cs (collect n rgMap groupID cs)"
    and "collect_post rgMap n (set cids) cs (collect_children n rgMap cids cs)"
proof (induction n rgMap groupID cs and n rgMap cids cs rule: collect_collect_children.induct)
  case (1 rgMap groupID cs)
  show ?case by (simp add: collect_post_def)
next
  case (2 n rgMap groupID visited nodes)
  show ?case
  proof (cases "groupID \<in> set visited")
    case True
    then show ?thesis by (simp add: collect_post_def)
  next
    case False
    show ?thesis
    proof (cases "gm_get rgMap groupID")
      case None
      then have "child_rel rgMap `` {groupID} = {}" "nodes_at rgMap groupID = {}"
        by (auto simp: child_rel_def nodes_at_def)
      with False None show ?thesis by (auto simp: collect_post_def insert_Diff_if)
    next
      case (Some target)
      from collect_post_step[OF False this 2[OF False Some]] False Some show ?thesis by simp
    qed
  qed
next
  case (3 n rgMap cs)
  show ?case by (simp add: collect_post_def)
next
  case (4 n rgMap cID cIDs cs)
  show ?case
  proof (cases "collect n rgMap cID cs")
    case None
    with 4(1) show ?thesis by (simp add: collect_post_def)
  next
    case (Some cs1)
    from collect_post_seq[OF 4(1)[unfolded Some] 4(2)[OF Some]] Some show ?thesis by simp
  qed
qed

lemma collect_reachable:
  assumes "length rgMap < n"
  obtains visited nodes where "collect n rgMap groupID ([], []) = Some (visited, nodes)"
    and "set nodes = (\<Union>u \<in> (child_rel rgMap)\<^sup>* `` {groupID}. nodes_at rgMap u)" and "distinct nodes"
proof -
  have "card (fst ` set rgMap) \<le> length rgMap"
    using card_image_le[of "set rgMap" fst] card_length[of rgMap] by simp
  with assms have "collect n rgMap groupID ([], []) \<noteq> None"
    using collect_correct(1)[of rgMap n groupID "([], [])"] by (cases "collect n rgMap groupID ([], [])") (auto simp: collect_post_def)
  then obtain visited nodes where res: "collect n rgMap groupID ([], []) = Some (visited, nodes)" by auto
  with collect_correct(1)[of rgMap n groupID "([], [])"]
  have post: "groupID \<in> set visited" "set visited \<subseteq> (child_rel rgMap)\<^sup>* `` {groupID}"
    "set nodes = (\<Union>u \<in> set visited. nodes_at rgMap u)" "\<forall>u \<in> set visited. child_rel rgMap `` {u} \<subseteq> set visited"
    "distinct nodes" by (auto simp: collect_post_def)
  have "v \<in> set visited" if "(groupID, v) \<in> (child_rel rgMap)\<^sup>*" for v
    using that by (induction rule: rtrancl_induct) (use post(1,4) in auto)
  with post(2) have "set visited = (child_rel rgMap)\<^sup>* `` {groupID}" by auto
  with res post that show ?thesis by simp
qed

subsection \<open>The references of a resolved group\<close>

definition rg_inv :: "string set \<Rightarrow> string set \<Rightarrow> ResolvedGroup \<Rightarrow> bool" where
  "rg_inv A G rg \<longleftrightarrow>
     (\<forall>m \<in> set (RG_Members rg).
        Mem_Kind m = MemberKindNode \<and> Mem_TargetID m \<in> A \<or>
        Mem_Kind m = MemberKindGroup \<and> Mem_TargetID m \<in> G \<or> Mem_Kind m = MemberKindBuiltin) \<and>
     RG_NodeLogicalIDs rg = kind_targets MemberKindNode (RG_Members rg) \<and>
     mset (RG_ChildGroupIDs rg) = mset (kind_targets MemberKindGroup (RG_Members rg))"

lemma rg_inv_mono: "rg_inv A G rg \<Longrightarrow> G \<subseteq> G' \<Longrightarrow> rg_inv A G' rg"
  by (fastforce simp: rg_inv_def)

lemma rg_inv_member:
  assumes "rg_inv A G rg" "m \<in> set (RG_Members rg)"
  shows "Mem_Kind m = MemberKindNode \<Longrightarrow> Mem_TargetID m \<in> A"
    and "Mem_Kind m = MemberKindGroup \<Longrightarrow> Mem_TargetID m \<in> G"
  using assms by (auto simp: rg_inv_def member_kinds)

lemma rg_inv_nodes: "rg_inv A G rg \<Longrightarrow> set (RG_NodeLogicalIDs rg) \<subseteq> A"
  by (auto simp: kind_targets_def rg_inv_member(1)) (auto simp: rg_inv_def kind_targets_def member_kinds)

lemma rg_inv_children:
  assumes "rg_inv A G rg"
  shows "set (RG_ChildGroupIDs rg) \<subseteq> G"
proof -
  have "set (RG_ChildGroupIDs rg) = set (kind_targets MemberKindGroup (RG_Members rg))"
    using assms by (intro mset_eq_setD) (simp add: rg_inv_def)
  then show ?thesis using rg_inv_member(2)[OF assms] by (auto simp: kind_targets_def)
qed

lemma rg_inv_resolved_group:
  "memo_ok ctx m \<Longrightarrow> rg_inv (ctx_admitted ctx) (ctx_groups ctx) (resolved_group ctx i g m)"
  by (auto simp: rg_inv_def resolved_group_def memo_ok_def member_ok_def)

lemma resolve_list_inv:
  assumes "ctx_ok ctx"
  shows "st_ok ctx st \<Longrightarrow> resolve_list fuel ctx i gs (st, counts) = Some (rgs, st', counts') \<Longrightarrow>
    st_ok ctx st' \<and> map RG_ID rgs = map Group_ID gs \<and>
    (\<forall>rg \<in> set rgs. rg_inv (ctx_admitted ctx) (ctx_groups ctx) rg)"
proof (induction gs arbitrary: i st counts rgs)
  case (Cons g gs)
  then obtain m st1 rgs1 where step: "resolveGroupMemo fuel ctx (Group_ID g) st = Some (m, st1)"
    "resolve_list fuel ctx (Suc i) gs (st1, gm_put counts (Group_ID g) (group_count m)) = Some (rgs1, st', counts')"
    "rgs = resolved_group ctx i g m # rgs1"
    by (auto split: option.splits prod.splits)
  have "memo_ok ctx m" "st_ok ctx st1"
    using memo_callback.call_sound[OF resolveGroupMemo_callback[OF assms] Cons.prems(1) step(1)] by auto
  with Cons.IH[OF this(2) step(2)] step(3) show ?case
    by (auto simp: rg_inv_resolved_group) (simp add: resolved_group_def)
qed simp

lemma resolve_list_total:
  assumes "ctx_ok ctx"
    and "\<And>gid t. gm_get (ctx_groupMap ctx) gid \<noteq> None \<Longrightarrow>
           t \<in> source_targets (gm_get_or [] (ctx_groupSources ctx) gid) \<Longrightarrow> rank t < (rank gid :: nat)"
  shows "st_ok ctx st \<Longrightarrow> \<forall>g \<in> set gs. rank (Group_ID g) < fuel \<Longrightarrow>
    \<exists>rgs st' counts'. resolve_list fuel ctx i gs (st, counts) = Some (rgs, st', counts')"
proof (induction gs arbitrary: i st counts)
  case (Cons g gs)
  then obtain m st1 where m: "resolveGroupMemo fuel ctx (Group_ID g) st = Some (m, st1)"
    using resolveGroupMemo_total[where rank = rank and gid = "Group_ID g" and n = fuel, OF assms Cons.prems(1)] by auto
  then have "st_ok ctx st1"
    using memo_callback.call_sound[OF resolveGroupMemo_callback[OF assms(1)] Cons.prems(1)] by blast
  with Cons.IH[OF this, of "Suc i" "gm_put counts (Group_ID g) (group_count m)"] Cons.prems m
  show ?case by auto
qed simp

lemma mset_replace_first: "x \<in> set xs \<Longrightarrow> mset (replace_first x y xs) = mset xs - {#x#} + {#y#}"
  by (induction xs) (auto simp: add_mset_commute)

lemma kind_targets_update:
  assumes "i < length ms" "Mem_Kind (ms ! i) = k" "Mem_Kind m = k"
  shows "mset (kind_targets k (ms[i := m])) = mset (kind_targets k ms) - {#Mem_TargetID (ms ! i)#} + {#Mem_TargetID m#}"
    and "Mem_TargetID (ms ! i) \<in> set (kind_targets k ms)"
    and "k' \<noteq> k \<Longrightarrow> kind_targets k' (ms[i := m]) = kind_targets k' ms"
proof -
  have ms: "ms = take i ms @ ms ! i # drop (Suc i) ms" using assms(1) by (simp add: id_take_nth_drop)
  have upd: "ms[i := m] = take i ms @ m # drop (Suc i) ms" using assms(1) by (simp add: upd_conv_take_nth_drop)
  show "mset (kind_targets k (ms[i := m])) = mset (kind_targets k ms) - {#Mem_TargetID (ms ! i)#} + {#Mem_TargetID m#}"
    unfolding upd by (subst (2) ms) (simp add: kind_targets_def assms(2,3))
  show "Mem_TargetID (ms ! i) \<in> set (kind_targets k ms)" using assms by (auto simp: kind_targets_def)
  show "kind_targets k' (ms[i := m]) = kind_targets k' ms" if "k' \<noteq> k"
    unfolding upd using that assms by (subst (3) ms) (simp add: kind_targets_def)
qed

lemma rg_inv_redirect:
  assumes inv: "rg_inv A G rg" and i: "i < length (RG_Members rg)" "Mem_Kind (RG_Members rg ! i) = MemberKindGroup"
  shows "rg_inv A (insert newID G) (rg\<lparr>RG_Members := (RG_Members rg)[i :=
             (RG_Members rg ! i)\<lparr>Mem_TargetID := newID, Mem_DisplayName := name\<rparr>],
           RG_ChildGroupIDs := replace_first (Mem_TargetID (RG_Members rg ! i)) newID (RG_ChildGroupIDs rg)\<rparr>)"
proof -
  let ?new = "(RG_Members rg ! i)\<lparr>Mem_TargetID := newID, Mem_DisplayName := name\<rparr>"
  note upd = kind_targets_update[OF i(1), of MemberKindGroup ?new]
  have "Mem_TargetID (RG_Members rg ! i) \<in> set (RG_ChildGroupIDs rg)"
    using inv upd(2) i(2) by (auto simp: rg_inv_def dest!: mset_eq_setD)
  then have "mset (replace_first (Mem_TargetID (RG_Members rg ! i)) newID (RG_ChildGroupIDs rg)) =
      mset (kind_targets MemberKindGroup ((RG_Members rg)[i := ?new]))"
    using inv upd(1) i(2) by (simp add: rg_inv_def mset_replace_first)
  moreover have "kind_targets MemberKindNode ((RG_Members rg)[i := ?new]) = RG_NodeLogicalIDs rg"
    using inv upd(3)[of MemberKindNode] i(2) by (simp add: rg_inv_def member_kinds)
  moreover have "m = ?new \<or> m \<in> set (RG_Members rg)" if "m \<in> set ((RG_Members rg)[i := ?new])" for m
    using that set_update_subset_insert by fastforce
  ultimately show ?thesis using inv i(2) unfolding rg_inv_def by fastforce
qed

subsection \<open>Derived groups keep the references\<close>

definition pj_inv :: "string set \<Rightarrow> projection \<Rightarrow> bool" where
  "pj_inv A pj \<longleftrightarrow>
     (\<forall>m \<in> set (pj_members pj). Mem_Kind m = MemberKindNode \<and> Mem_TargetID m \<in> A \<or> Mem_Kind m = MemberKindBuiltin) \<and>
     pj_nodeIDs pj = kind_targets MemberKindNode (pj_members pj) \<and>
     map Mem_Position (pj_members pj) = [0..<length (pj_members pj)]"

lemma project_leaf_inv:
  "pj_inv (ctx_admitted ctx) pj \<Longrightarrow> leaf_ok ctx leaf \<Longrightarrow> pj_inv (ctx_admitted ctx) (project_leaf ctx spec pj leaf)"
  by (auto simp: pj_inv_def project_leaf_def leaf_ok_def item_ok_def item_member_def kind_targets_def
        ctx_admitted_def member_kinds split: option.splits)

lemma project_leafs_inv:
  assumes "\<forall>leaf \<in> set leafs. leaf_ok ctx leaf"
  shows "pj_inv (ctx_admitted ctx) (project_leafs ctx spec leafs)"
proof -
  have "pj_inv (ctx_admitted ctx) (foldl (project_leaf ctx spec) pj leafs)" if "pj_inv (ctx_admitted ctx) pj" for pj
    using that assms by (induction leafs arbitrary: pj) (auto simp: project_leaf_inv)
  moreover have "pj_inv A \<lparr>pj_members = [], pj_nodeIDs = [], pj_filteredOut = False\<rparr>" for A
    by (simp add: pj_inv_def kind_targets_def)
  ultimately show ?thesis by (simp add: project_leafs_def)
qed

lemma rg_inv_derived: "pj_inv A pj \<Longrightarrow> rg_inv A {} (derived_group did name gt pj pos)"
proof -
  assume pj: "pj_inv A pj"
  then have "filter (\<lambda>m. Mem_Kind m = MemberKindGroup) (pj_members pj) = []"
    by (auto simp: pj_inv_def filter_empty_conv member_kinds)
  with pj show ?thesis by (auto simp: pj_inv_def rg_inv_def derived_group_def kind_targets_def)
qed

definition derive_inv :: "string set \<Rightarrow> string set \<Rightarrow> ResolvedGroup \<times> ResolvedGroup list \<Rightarrow> bool" where
  "derive_inv A G acc \<longleftrightarrow>
     rg_inv A (G \<union> RG_ID ` set (snd acc)) (fst acc) \<and> (\<forall>d \<in> set (snd acc). rg_inv A {} d)"

lemma memo_leafs_ok: "st_ok ctx st \<Longrightarrow> \<forall>leaf \<in> set (memo_leafItems (gm_get_or empty_memo (rs_memo st) gid)). leaf_ok ctx leaf"
  by (auto simp: st_ok_def gm_get_or_def memo_ok_def empty_memo_def split: option.splits)

lemma derive_member_cases:
  obtains (same) "derive_member ctx st rgMap n i (parent, derived) = (parent, derived)"
  | (derive) newID name gt pj pos where
      "derive_member ctx st rgMap n i (parent, derived) =
         (parent\<lparr>RG_Members := (RG_Members parent)[i :=
                   (RG_Members parent ! i)\<lparr>Mem_TargetID := newID, Mem_DisplayName := name\<rparr>],
                 RG_ChildGroupIDs := replace_first (Mem_TargetID (RG_Members parent ! i)) newID (RG_ChildGroupIDs parent)\<rparr>,
          derived @ [derived_group newID name gt pj pos])"
      "Mem_Kind (RG_Members parent ! i) = MemberKindGroup"
      "pj = project_leafs ctx (derived_filter ctx (RG_ID parent) (Mem_TargetID (RG_Members parent ! i)))
              (memo_leafItems (gm_get_or empty_memo (rs_memo st) (Mem_TargetID (RG_Members parent ! i))))"
proof -
  let ?child = "Mem_TargetID (RG_Members parent ! i)"
  let ?spec = "derived_filter ctx (RG_ID parent) ?child"
  let ?pj = "project_leafs ctx ?spec (memo_leafItems (gm_get_or empty_memo (rs_memo st) ?child))"
  show thesis
  proof (cases "Mem_Kind (RG_Members parent ! i) \<noteq> MemberKindGroup \<or> NodeFilterSpec_IsEmpty ?spec \<or>
      gm_get rgMap ?child = None \<or> \<not> pj_filteredOut ?pj")
    case True
    then have "derive_member ctx st rgMap n i (parent, derived) = (parent, derived)"
      by (auto simp: derive_member_def Let_def split: option.split)
    then show thesis by (rule same)
  next
    case False
    then obtain cg where cg: "gm_get rgMap ?child = Some cg" by auto
    from False cg show thesis by (intro derive[OF _ _ refl]) (simp_all add: derive_member_def Let_def)
  qed
qed

lemma derive_member_inv:
  assumes "st_ok ctx st" "derive_inv (ctx_admitted ctx) G (parent, derived)" "i < length (RG_Members parent)"
    and res: "derive_member ctx st rgMap n i (parent, derived) = (parent', derived')"
  shows "derive_inv (ctx_admitted ctx) G (parent', derived') \<and> length (RG_Members parent') = length (RG_Members parent) \<and>
         RG_ID parent' = RG_ID parent \<and> set derived \<subseteq> set derived'"
proof (cases ctx st rgMap n i parent derived rule: derive_member_cases)
  case same
  with assms show ?thesis by simp
next
  case (derive newID name gt pj pos)
  have "pj_inv (ctx_admitted ctx) pj" unfolding derive(3) by (intro project_leafs_inv memo_leafs_ok assms(1))
  then have "rg_inv (ctx_admitted ctx) {} (derived_group newID name gt pj pos)" by (rule rg_inv_derived)
  moreover have "RG_ID (derived_group newID name gt pj pos) = newID" by (simp add: derived_group_def)
  ultimately show ?thesis
    using derive(1) res assms(2,3) rg_inv_redirect[OF _ assms(3) derive(2)] by (auto simp: derive_inv_def)
qed

lemma derive_parent_inv:
  assumes st: "st_ok ctx st" and inv: "derive_inv (ctx_admitted ctx) G (parent, derived)"
    and res: "derive_parent ctx st rgMap n (parent, derived) = (parent', derived')"
  shows "derive_inv (ctx_admitted ctx) G (parent', derived') \<and> RG_ID parent' = RG_ID parent \<and> set derived \<subseteq> set derived'"
proof -
  have "derive_inv (ctx_admitted ctx) G acc' \<and> RG_ID (fst acc') = RG_ID parent \<and> set derived \<subseteq> set (snd acc')"
    if "derive_inv (ctx_admitted ctx) G acc" "\<forall>i \<in> set is. i < length (RG_Members (fst acc))"
      "RG_ID (fst acc) = RG_ID parent" "set derived \<subseteq> set (snd acc)"
      "fold (derive_member ctx st rgMap n) is acc = acc'" for "is" acc acc'
    using that
  proof (induction "is" arbitrary: acc)
    case (Cons i "is")
    obtain p d where acc: "acc = (p, d)" by (cases acc)
    obtain p' d' where step: "derive_member ctx st rgMap n i (p, d) = (p', d')" by (cases "derive_member ctx st rgMap n i (p, d)")
    from derive_member_inv[OF st _ _ step, of G] Cons.prems acc
    have "derive_inv (ctx_admitted ctx) G (p', d')" "length (RG_Members p') = length (RG_Members p)"
      "RG_ID p' = RG_ID p" "set d \<subseteq> set d'" by auto
    with Cons.IH[of "(p', d')"] Cons.prems acc step show ?case by auto
  qed auto
  from this[OF inv, of "[0..<length (RG_Members parent)]"] res show ?thesis by (auto simp: derive_parent_def)
qed

lemma derive_all_inv:
  assumes st: "st_ok ctx st"
  shows "\<forall>p \<in> set parents. rg_inv (ctx_admitted ctx) G p \<Longrightarrow> \<forall>d \<in> set derived. rg_inv (ctx_admitted ctx) {} d \<Longrightarrow>
    derive_all ctx st rgMap n parents derived = (parents', derived') \<Longrightarrow>
    (\<forall>p \<in> set parents'. rg_inv (ctx_admitted ctx) (G \<union> RG_ID ` set derived') p) \<and>
    (\<forall>d \<in> set derived'. rg_inv (ctx_admitted ctx) {} d) \<and> map RG_ID parents' = map RG_ID parents \<and>
    set derived \<subseteq> set derived'"
proof (induction parents arbitrary: derived parents' derived')
  case (Cons p ps)
  obtain p' d' where p': "derive_parent ctx st rgMap n (p, derived) = (p', d')"
    by (cases "derive_parent ctx st rgMap n (p, derived)")
  obtain ps' d'' where ps': "derive_all ctx st rgMap n ps d' = (ps', d'')" by (cases "derive_all ctx st rgMap n ps d'")
  have eq: "parents' = p' # ps'" "derived' = d''" using Cons.prems(3) p' ps' by (auto simp: Let_def)
  have "derive_inv (ctx_admitted ctx) G (p, derived)"
    using Cons.prems(1,2) by (auto simp: derive_inv_def intro: rg_inv_mono)
  from derive_parent_inv[OF st this p']
  have first: "rg_inv (ctx_admitted ctx) (G \<union> RG_ID ` set d') p'" "\<forall>d \<in> set d'. rg_inv (ctx_admitted ctx) {} d"
    "RG_ID p' = RG_ID p" "set derived \<subseteq> set d'" by (auto simp: derive_inv_def)
  have rest: "(\<forall>p \<in> set ps'. rg_inv (ctx_admitted ctx) (G \<union> RG_ID ` set d'') p) \<and>
    (\<forall>d \<in> set d''. rg_inv (ctx_admitted ctx) {} d) \<and> map RG_ID ps' = map RG_ID ps \<and> set d' \<subseteq> set d''"
    using Cons.IH[OF _ first(2) ps'] Cons.prems(1) by simp
  then have "rg_inv (ctx_admitted ctx) (G \<union> RG_ID ` set d'') p'"
    by (intro rg_inv_mono[OF first(1)] Un_mono image_mono subset_refl) blast
  with rest first(3,4) eq show ?case by auto
qed auto

subsection \<open>Tables of groups\<close>

lemma gm_get_foldl_put:
  "gm_get (foldl (\<lambda>m x. gm_put m (f x) (h x)) m xs) k =
   (case find (\<lambda>x. f x = k) (List.rev xs) of None \<Rightarrow> gm_get m k | Some x \<Rightarrow> Some (h x))"
  by (induction xs rule: rev_induct) auto

lemma find_Some_mem: "find P xs = Some x \<Longrightarrow> x \<in> set xs \<and> P x"
  by (auto simp: find_Some_iff)

lemma gm_get_foldl_put_Some:
  assumes "gm_get (foldl (\<lambda>m x. gm_put m (f x) (h x)) [] xs) k = Some v"
  shows "\<exists>x \<in> set xs. f x = k \<and> v = h x"
  using assms find_Some_mem by (fastforce simp: gm_get_foldl_put split: option.splits)

lemma gm_get_foldl_put_None:
  "gm_get (foldl (\<lambda>m x. gm_put m (f x) (h x)) [] xs) k = None \<longleftrightarrow> k \<notin> f ` set xs"
  by (auto simp: gm_get_foldl_put find_None_iff dest: find_Some_mem split: option.splits)

lemma ctx_groups_make_ctx [simp]: "ctx_groups (make_ctx eng groups ns gm am src obs asOf) = Group_ID ` set groups"
  by (auto simp: ctx_groups_def make_ctx_def gm_get_foldl_put_None)

lemma ctx_admitted_make_ctx [simp]: "ctx_admitted (make_ctx eng groups ns gm am src obs asOf) = {nid. gm_get gm nid \<noteq> None}"
  by (simp add: ctx_admitted_def make_ctx_def)

lemma ctx_ok_make_ctx:
  "\<forall>n \<in> set ns. gm_get gm (Node_LogicalID n) \<noteq> None \<Longrightarrow> ctx_ok (make_ctx eng groups ns gm am src obs asOf)"
  by (simp add: ctx_ok_def make_ctx_def ctx_admitted_def)

definition same_links :: "ResolvedGroup \<Rightarrow> ResolvedGroup \<Rightarrow> bool" where
  "same_links rg rg' \<longleftrightarrow>
     RG_ID rg' = RG_ID rg \<and> RG_Members rg' = RG_Members rg \<and>
     RG_ChildGroupIDs rg' = RG_ChildGroupIDs rg \<and> RG_NodeLogicalIDs rg' = RG_NodeLogicalIDs rg"

lemma group_table_links:
  assumes "list_all2 same_links rgs rgs'"
  shows "rel_option same_links (gm_get (group_table rgs) u) (gm_get (group_table rgs') u)"
proof -
  have "rel_option same_links (gm_get (foldl (\<lambda>m rg. gm_put m (RG_ID rg) rg) m rgs) u)
      (gm_get (foldl (\<lambda>m rg. gm_put m (RG_ID rg) rg) m' rgs') u)"
    if "\<And>u. rel_option same_links (gm_get m u) (gm_get m' u)" for m m'
    using assms that
    by (induction arbitrary: m m' rule: list_all2_induct) (auto simp: same_links_def)
  then show ?thesis by (simp add: group_table_def)
qed

lemma reach_cong:
  assumes "list_all2 same_links rgs rgs'"
  shows "child_rel (group_table rgs') = child_rel (group_table rgs)" "nodes_at (group_table rgs') = nodes_at (group_table rgs)"
proof -
  have rel: "rel_option same_links (gm_get (group_table rgs) u) (gm_get (group_table rgs') u)" for u
    by (rule group_table_links[OF assms])
  show "nodes_at (group_table rgs') = nodes_at (group_table rgs)"
  proof
    fix u show "nodes_at (group_table rgs') u = nodes_at (group_table rgs) u"
      using rel[of u] by (auto simp: nodes_at_def same_links_def split: option.splits)
  qed
  have "(u, v) \<in> child_rel (group_table rgs') \<longleftrightarrow> (u, v) \<in> child_rel (group_table rgs)" for u v
    using rel[of u] by (cases "gm_get (group_table rgs) u"; cases "gm_get (group_table rgs') u")
      (auto simp: child_rel_def same_links_def)
  then show "child_rel (group_table rgs') = child_rel (group_table rgs)" by auto
qed

text \<open>The nodes that a group reaches through the groups of a list.\<close>

definition reachable_nodes :: "ResolvedGroup list \<Rightarrow> string \<Rightarrow> string set" where
  "reachable_nodes rgs gid = (\<Union>u \<in> (child_rel (group_table rgs))\<^sup>* `` {gid}. nodes_at (group_table rgs) u)"

definition rg_final :: "ResolvedGroup list \<Rightarrow> ResolvedGroup \<Rightarrow> bool" where
  "rg_final rgs rg \<longleftrightarrow>
     set (RG_AllNodeLogicalIDs rg) = reachable_nodes rgs (RG_ID rg) \<and>
     sorted (RG_AllNodeLogicalIDs rg) \<and> distinct (RG_AllNodeLogicalIDs rg) \<and>
     RG_ExpandedNodeIDs rg = RG_AllNodeLogicalIDs rg \<and>
     RG_EffectiveEmptyPass rg = (RG_EmptyFallbackPass rg \<and> RG_AllNodeLogicalIDs rg = [] \<and> \<not> has_builtin rg)"

lemma finish_group_spec:
  "\<exists>rg'. finish_group (group_table rgs) rg = Some rg' \<and> same_links rg rg' \<and> rg_final rgs rg'"
proof -
  obtain visited nodes where c:
    "collect (Suc (Suc (length (group_table rgs)))) (group_table rgs) (RG_ID rg) ([], []) = Some (visited, nodes)"
    "set nodes = reachable_nodes rgs (RG_ID rg)" "distinct nodes"
    using collect_reachable[of "group_table rgs" "Suc (Suc (length (group_table rgs)))" "RG_ID rg"]
    by (auto simp: reachable_nodes_def)
  then show ?thesis
    by (auto simp: finish_group_def same_links_def rg_final_def has_builtin_def Let_def)
qed

lemma finish_groups_spec:
  "\<exists>rgs'. finish_groups (group_table all) rgs = Some rgs' \<and> list_all2 same_links rgs rgs' \<and>
     (\<forall>rg \<in> set rgs'. rg_final all rg)"
proof (induction rgs)
  case (Cons rg rgs)
  then show ?case using finish_group_spec[of all rg] by fastforce
qed simp

subsection \<open>Resolving the groups\<close>

lemma rg_inv_same_links: "same_links rg rg' \<Longrightarrow> rg_inv A G rg \<Longrightarrow> rg_inv A G rg'"
  by (auto simp: same_links_def rg_inv_def)

lemma same_links_ids: "list_all2 same_links rgs rgs' \<Longrightarrow> map RG_ID rgs' = map RG_ID rgs"
  by (induction rule: list_all2_induct) (auto simp: same_links_def)

lemma rg_inv_links:
  "list_all2 same_links rgs rgs' \<Longrightarrow> \<forall>rg \<in> set rgs. rg_inv A G rg \<Longrightarrow> \<forall>rg \<in> set rgs'. rg_inv A G rg"
  by (induction rule: list_all2_induct) (auto intro: rg_inv_same_links)

lemma nodes_reached_admitted:
  assumes "\<forall>rg \<in> set rgs. rg_inv A G rg"
  shows "reachable_nodes rgs gid \<subseteq> A"
proof -
  have "nodes_at (group_table rgs) u \<subseteq> A" for u
  proof (cases "gm_get (group_table rgs) u")
    case (Some rg)
    then have "rg \<in> set rgs" using gm_get_foldl_put_Some by (fastforce simp: group_table_def)
    then have "rg_inv A G rg" using assms by blast
    from rg_inv_nodes[OF this] Some show ?thesis by (simp add: nodes_at_def)
  qed (simp add: nodes_at_def)
  then show ?thesis by (auto simp: reachable_nodes_def)
qed

lemma resolveGroups_inv:
  assumes nodes: "\<forall>n \<in> set ns. gm_get gm (Node_LogicalID n) \<noteq> None"
    and res: "resolveGroups eng groups ns gm am gf glob src obs asOf rules = Some (rgs, diags, counts)"
  defines "A \<equiv> {nid. gm_get gm nid \<noteq> None}"
  shows "(\<forall>rg \<in> set rgs. rg_inv A (RG_ID ` set rgs) rg \<and> rg_final rgs rg \<and> set (RG_AllNodeLogicalIDs rg) \<subseteq> A) \<and>
         Group_ID ` set groups \<subseteq> RG_ID ` set rgs"
proof -
  let ?ctx = "make_ctx eng groups ns gm am src obs asOf"
  let ?gs = "sort_key (\<lambda>g. (Group_Name g, Group_ID g)) groups"
  let ?st0 = "\<lparr>rs_memo = [], rs_resolving = [], rs_diagnostics = []\<rparr>"
  from res obtain rgs0 st parents derived where r:
    "resolve_list (length groups) ?ctx 0 ?gs (?st0, []) = Some (rgs0, st, counts)"
    "derive_all ?ctx st (group_table rgs0) (length rgs0) rgs0 [] = (parents, derived)"
    "finish_groups (group_table (parents @ derived)) (parents @ derived) = Some rgs"
    by (auto simp: resolveGroups_def Let_def split: option.splits prod.splits)
  have ok: "ctx_ok ?ctx" using nodes by (rule ctx_ok_make_ctx)
  have A: "ctx_admitted ?ctx = A" by (simp add: A_def)
  have "st_ok ?ctx ?st0" by (simp add: st_ok_def)
  from resolve_list_inv[OF ok this r(1), unfolded A ctx_groups_make_ctx]
  have rgs0: "st_ok ?ctx st" "map RG_ID rgs0 = map Group_ID ?gs" "\<forall>rg \<in> set rgs0. rg_inv A (Group_ID ` set groups) rg"
    by blast+
  have ids0: "RG_ID ` set rgs0 = Group_ID ` set groups" using arg_cong[OF rgs0(2), of set] by simp
  from derive_all_inv[OF rgs0(1) _ _ r(2), of "Group_ID ` set groups", unfolded A] rgs0(3)
  have d: "\<forall>p \<in> set parents. rg_inv A (Group_ID ` set groups \<union> RG_ID ` set derived) p"
    "\<forall>d \<in> set derived. rg_inv A {} d" "map RG_ID parents = map RG_ID rgs0" by auto
  have "RG_ID ` set parents = Group_ID ` set groups" using arg_cong[OF d(3), of set] ids0 by simp
  then have ids: "RG_ID ` set (parents @ derived) = Group_ID ` set groups \<union> RG_ID ` set derived" by auto
  have inv1: "\<forall>rg \<in> set (parents @ derived). rg_inv A (RG_ID ` set (parents @ derived)) rg"
    using d(1,2) rg_inv_mono[of A "{}"] unfolding ids by (auto simp del: image_Un)
  obtain rgs' where "finish_groups (group_table (parents @ derived)) (parents @ derived) = Some rgs'"
    "list_all2 same_links (parents @ derived) rgs'" "\<forall>rg \<in> set rgs'. rg_final (parents @ derived) rg"
    using finish_groups_spec by blast
  with r(3) have links: "list_all2 same_links (parents @ derived) rgs" and final: "\<forall>rg \<in> set rgs. rg_final (parents @ derived) rg"
    by auto
  have ids2: "RG_ID ` set rgs = RG_ID ` set (parents @ derived)"
    using arg_cong[OF same_links_ids[OF links], of set] by (simp add: image_Un)
  have inv2: "\<forall>rg \<in> set rgs. rg_inv A (RG_ID ` set rgs) rg"
    using rg_inv_links[OF links inv1] unfolding ids2 .
  have reach: "reachable_nodes rgs = reachable_nodes (parents @ derived)"
    by (auto simp: reachable_nodes_def reach_cong[OF links])
  have "\<forall>rg \<in> set rgs. rg_final rgs rg" using final by (simp add: rg_final_def reach)
  moreover have "\<forall>rg \<in> set rgs. set (RG_AllNodeLogicalIDs rg) \<subseteq> A"
    using calculation nodes_reached_admitted[OF inv2] by (simp add: rg_final_def)
  ultimately show ?thesis using inv2 ids ids2 by auto
qed

subsection \<open>Enough fuel for a policy that validates\<close>

lemma acyclic_rank:
  assumes "acyclic E" "E \<subseteq> V \<times> V" "finite V"
  defines "rank \<equiv> \<lambda>u. card (E\<^sup>+ `` {u})"
  shows "(u, v) \<in> E \<Longrightarrow> rank v < rank u" and "u \<in> V \<Longrightarrow> rank u < card V"
proof -
  have sub: "E\<^sup>+ `` {u} \<subseteq> V" for u using trancl_subset_Sigma[OF assms(2)] by auto
  then have fin: "finite (E\<^sup>+ `` {u})" for u using assms(3) finite_subset by blast
  have self: "u \<notin> E\<^sup>+ `` {u}" for u using assms(1) by (simp add: acyclic_def)
  show "rank v < rank u" if "(u, v) \<in> E"
  proof -
    have "E\<^sup>+ `` {v} \<subset> E\<^sup>+ `` {u}" using that self[of v] by (auto intro: trancl_into_trancl2)
    then show ?thesis unfolding rank_def by (rule psubset_card_mono[OF fin])
  qed
  show "rank u < card V" if "u \<in> V"
    unfolding rank_def using sub[of u] self[of u] that assms(3) by (intro psubset_card_mono) auto
qed

lemma add_sources_valid:
  "add_sources eng S gid srcs adj = Inr adj' \<Longrightarrow> src \<in> set srcs \<Longrightarrow> ValidateMemberSource eng src = None"
  by (induction srcs arbitrary: adj) (auto split: option.splits if_splits)

lemma add_all_sources_valid:
  "add_all_sources eng S groups adj = Inr adj' \<Longrightarrow> g \<in> set groups \<Longrightarrow> src \<in> set (Group_Sources g) \<Longrightarrow>
   ValidateMemberSource eng src = None"
  by (induction groups arbitrary: adj) (auto dest: add_sources_valid split: sum.splits)

lemma valid_source_child:
  assumes "ValidateMemberSource eng src = None"
    and "Src_Kind src = SourceKindGroupRef \<or> Src_Kind src = SourceKindGroupNodes" "Src_TargetGroupID src = Some t"
  shows "source_child src = Some t"
proof -
  have "\<not> blank (Src_TargetGroupID src)"
    using assms by (auto simp: ValidateMemberSource_def validate_group_ref_def validate_group_nodes_def
        source_kinds split: if_splits)
  then have "t \<noteq> []" using assms(3) by (auto simp: blank_def trim_space_def trim_left_def)
  with assms(2,3) show ?thesis by (simp add: source_child_def given_def)
qed

lemma topology_valid:
  assumes "ValidatePolicyTopology eng groups edges rules req = None"
  shows "policy_edges groups edges \<subseteq> Group_ID ` set groups \<times> Group_ID ` set groups"
    and "acyclic (policy_edges groups edges)"
    and "g \<in> set groups \<Longrightarrow> src \<in> set (Group_Sources g) \<Longrightarrow> ValidateMemberSource eng src = None"
proof -
  from assms obtain adj where adj: "build_adjacency eng groups edges = Inr adj" "detect_cycle groups adj = None"
    by (auto simp: ValidatePolicyTopology_def split: option.splits sum.splits)
  show "policy_edges groups edges \<subseteq> Group_ID ` set groups \<times> Group_ID ` set groups" by (rule build_adjacency_rel(2)[OF adj(1)])
  show "acyclic (policy_edges groups edges)"
    using detect_cycle_correct[OF build_adjacency_closed[OF adj(1)]] adj(2) build_adjacency_rel(1)[OF adj(1)] by simp
  show "g \<in> set groups \<Longrightarrow> src \<in> set (Group_Sources g) \<Longrightarrow> ValidateMemberSource eng src = None"
    using adj(1) by (auto simp: build_adjacency_def Let_def dest: add_all_sources_valid split: sum.splits)
qed

lemma make_ctx_targets:
  assumes "ValidatePolicyTopology eng groups edges rules req = None"
    and "t \<in> source_targets (gm_get_or [] (ctx_groupSources (make_ctx eng groups ns gm am src obs asOf)) gid)"
  shows "(gid, t) \<in> policy_edges groups edges"
proof -
  let ?m = "foldl (\<lambda>m g. gm_put m (Group_ID g) (sort_key Src_Position (Group_Sources g))) [] groups"
  have "gm_get_or [] (ctx_groupSources (make_ctx eng groups ns gm am src obs asOf)) gid = gm_get_or [] ?m gid"
    by (simp add: make_ctx_def)
  with assms(2) obtain s where s1: "s \<in> set (gm_get_or [] ?m gid)" "Src_TargetGroupID s = Some t"
    "Src_Kind s = SourceKindGroupRef \<or> Src_Kind s = SourceKindGroupNodes"
    unfolding source_targets_def by auto
  then obtain srcs where s: "gm_get ?m gid = Some srcs" "s \<in> set srcs"
    by (cases "gm_get ?m gid") (auto simp: gm_get_or_def)
  then obtain g where g: "g \<in> set groups" "Group_ID g = gid" "s \<in> set (Group_Sources g)"
    using gm_get_foldl_put_Some[of Group_ID "\<lambda>g. sort_key Src_Position (Group_Sources g)"] by fastforce
  have "source_child s = Some t"
    using valid_source_child[OF topology_valid(3)[OF assms(1) g(1,3)] s1(3,2)] .
  then have "t \<in> set (List.map_filter source_child (Group_Sources g))"
    using g(3) by (force simp: List.map_filter_def)
  with g show ?thesis by (auto simp: policy_edges_def source_pairs_def)
qed

lemma resolveGroups_total:
  assumes valid: "ValidatePolicyTopology eng groups edges rules' req = None"
    and nodes: "\<forall>n \<in> set ns. gm_get gm (Node_LogicalID n) \<noteq> None"
  shows "resolveGroups eng groups ns gm am gf glob src obs asOf rules \<noteq> None"
proof -
  let ?ctx = "make_ctx eng groups ns gm am src obs asOf"
  let ?rank = "\<lambda>u. card ((policy_edges groups edges)\<^sup>+ `` {u})"
  note rank = acyclic_rank[OF topology_valid(2,1)[OF valid] finite_imageI[OF finite_set]]
  have "card (Group_ID ` set groups) \<le> length groups"
    using card_image_le[of "set groups" Group_ID] card_length[of groups] by simp
  then have bound: "\<forall>g \<in> set (sort_key (\<lambda>g. (Group_Name g, Group_ID g)) groups). ?rank (Group_ID g) < length groups"
    using rank(2) by fastforce
  have "\<exists>rgs st' counts'. resolve_list (length groups) ?ctx 0 (sort_key (\<lambda>g. (Group_Name g, Group_ID g)) groups)
      (\<lparr>rs_memo = [], rs_resolving = [], rs_diagnostics = []\<rparr>, []) = Some (rgs, st', counts')"
    by (rule resolve_list_total[where rank = ?rank, OF ctx_ok_make_ctx[OF nodes] _ _ bound])
      (auto intro: rank(1) make_ctx_targets[OF valid] simp: st_ok_def)
  then obtain rgs st counts where r: "resolve_list (length groups) ?ctx 0 (sort_key (\<lambda>g. (Group_Name g, Group_ID g)) groups)
      (\<lparr>rs_memo = [], rs_resolving = [], rs_diagnostics = []\<rparr>, []) = Some (rgs, st, counts)" by blast
  obtain parents derived where d: "derive_all ?ctx st (group_table rgs) (length rgs) rgs [] = (parents, derived)"
    by fastforce
  obtain rgs' where "finish_groups (group_table (parents @ derived)) (parents @ derived) = Some rgs'"
    using finish_groups_spec by blast
  with r d show ?thesis by (simp add: resolveGroups_def Let_def)
qed

subsection \<open>The stages of the pipeline\<close>

lemma global_fold:
  "gs_nodes (foldl (global_step eng input asOf) gs nodes) =
     gs_nodes gs @ filter (\<lambda>n. fst (global_keep eng input asOf n)) nodes \<and>
   gs_excluded (foldl (global_step eng input asOf) gs nodes) =
     gs_excluded gs @ map Node_LogicalID (filter (\<lambda>n. \<not> fst (global_keep eng input asOf n)) nodes) \<and>
   gs_map (foldl (global_step eng input asOf) gs nodes) =
     foldl (\<lambda>m n. gm_put m (Node_LogicalID n) n) (gs_map gs) (filter (\<lambda>n. fst (global_keep eng input asOf n)) nodes)"
proof (induction nodes arbitrary: gs)
  case (Cons n nodes)
  show ?case
    using Cons[of "global_step eng input asOf gs n"]
    by (cases "global_keep eng input asOf n") (auto simp: global_step_def)
qed simp

interpretation global_filter: node_stage "\<lambda>n. fst (global_keep eng input asOf n)"
  "\<lambda>nodes. gs_nodes (apply_global_filter eng input asOf nodes)"
  "\<lambda>nodes. gs_excluded (apply_global_filter eng input asOf nodes)" for eng input asOf
  by unfold_locales (auto simp: apply_global_filter_def global_fold)

lemma gs_map_keys:
  "gm_get (gs_map (apply_global_filter eng input asOf nodes)) nid = None \<longleftrightarrow>
   nid \<notin> Node_LogicalID ` set (gs_nodes (apply_global_filter eng input asOf nodes))"
  by (simp add: apply_global_filter_def global_fold gm_get_foldl_put_None)

text \<open>The context in which the groups of an input are resolved, and the calls made in it.\<close>

definition input_asOf :: "time \<Rightarrow> ResolveInput \<Rightarrow> time" where
  "input_asOf now input = (if In_AsOf input = zero_time then now else In_AsOf input)"

definition input_stage :: "regex_engines \<Rightarrow> ResolveInput \<Rightarrow> time \<Rightarrow> global_stage" where
  "input_stage eng input now =
     apply_global_filter eng input (input_asOf now input) (Adm_AdmittedNodes (input_admission eng input))"

definition input_ctx :: "regex_engines \<Rightarrow> ResolveInput \<Rightarrow> time \<Rightarrow> rctx" where
  "input_ctx eng input now =
     make_ctx eng (In_Groups input) (gs_nodes (input_stage eng input now)) (gs_map (input_stage eng input now))
       (Adm_AdmittedNodeMap (input_admission eng input)) (In_NodeSources input) (In_LatestObservations input)
       (input_asOf now input)"

lemma input_ctx_ok: "ctx_ok (input_ctx eng input now)"
  unfolding input_ctx_def input_stage_def by (rule ctx_ok_make_ctx) (simp add: gs_map_keys)

interpretation group_call: memo_callback "input_ctx eng input now" "resolveGroupMemo n (input_ctx eng input now)"
  for eng input now n
  by (rule resolveGroupMemo_callback) (rule input_ctx_ok)

text \<open>A group without references to other groups resolves with any positive fuel.\<close>

interpretation group_call_total: memo_callback_total "input_ctx eng input now"
  "resolveGroupMemo (Suc n) (input_ctx eng input now)"
  "{gid. source_targets (gm_get_or [] (ctx_groupSources (input_ctx eng input now)) gid) = {}}"
  for eng input now n
proof unfold_locales
  fix t st
  assume t: "t \<in> {gid. source_targets (gm_get_or [] (ctx_groupSources (input_ctx eng input now)) gid) = {}}"
    and st: "st_ok (input_ctx eng input now) st"
  have "memo_callback_total (input_ctx eng input now) (resolveGroupMemo n (input_ctx eng input now)) {}"
    by (intro memo_callback_total.intro group_call.memo_callback_axioms memo_callback_total_axioms.intro) simp
  from memo_callback_total.body_total[OF this st] t
  show "\<exists>m st'. resolveGroupMemo (Suc n) (input_ctx eng input now) t st = Some (m, st')" by simp
qed

subsection \<open>What a snapshot guarantees\<close>

definition input_groups :: "regex_engines \<Rightarrow> ResolveInput \<Rightarrow> time \<Rightarrow>
   (ResolvedGroup list \<times> Diagnostic list \<times> (string, GroupFilterCount) gomap) option" where
  "input_groups eng input now =
     resolveGroups eng (In_Groups input) (gs_nodes (input_stage eng input now)) (gs_map (input_stage eng input now))
       (Adm_AdmittedNodeMap (input_admission eng input)) (In_GroupFilters input) (In_GlobalFilter input)
       (In_NodeSources input) (In_LatestObservations input) (input_asOf now input) (In_PolicyRules input)"

lemma resolve_normalized_None: "resolve_normalized eng input now = None \<longleftrightarrow> input_groups eng input now = None"
  unfolding resolve_normalized_def input_groups_def[symmetric] input_stage_def[symmetric] input_asOf_def[symmetric] Let_def
  by (simp split: option.split prod.split)

lemma resolve_normalized_Some:
  assumes "resolve_normalized eng input now = Some snap"
  shows "\<exists>diags counts. input_groups eng input now = Some (Snap_Groups snap, diags, counts)"
    and "Snap_Nodes snap = sorted_nodes (gs_nodes (input_stage eng input now))"
    and "Snap_NodeLogicalIDs snap = map RN_LogicalID (Snap_Nodes snap)"
    and "Snap_AdmittedNodeIDs snap = sort (map Node_LogicalID (gs_nodes (input_stage eng input now)))"
    and "Snap_ExcludedNodeIDs snap =
           uniqueStrings (sort (Adm_ExcludedNodeIDs (input_admission eng input) @ gs_excluded (input_stage eng input now)))"
    and "Snap_Rules snap = resolveRules (In_PolicyRules input) (In_Groups input)"
  using assms
  unfolding resolve_normalized_def input_groups_def[symmetric] input_stage_def[symmetric] input_asOf_def[symmetric] Let_def
  by (auto split: option.splits prod.splits)

lemma Resolve_Some:
  assumes "Resolve eng ctxErr now input = Some (Inr snap)"
  shows "resolve_normalized eng (normalize_input input) now = Some snap"
    and "ValidatePolicyTopology eng (In_Groups (normalize_input input)) [] (In_PolicyRules (normalize_input input)) False = None"
  using assms by (auto simp: Resolve_def Let_def split: option.splits)

lemma gs_map_nodes:
  "\<forall>n \<in> set (gs_nodes (input_stage eng input now)). gm_get (gs_map (input_stage eng input now)) (Node_LogicalID n) \<noteq> None"
  by (simp add: input_stage_def gs_map_keys)

text \<open>
  C12. The resolver always returns: on every input it produces a snapshot or an error of the source,
  and the depth bounds of the model are never reached. The resolution of the groups nests at most
  as deep as there are groups, because a policy that passed validation has no cycle.
\<close>

theorem Resolve_returns: "Resolve eng ctxErr now input \<noteq> None"
proof -
  have "resolve_normalized eng input now \<noteq> None"
    if "ValidatePolicyTopology eng (In_Groups input) [] (In_PolicyRules input) False = None" for input
    using resolveGroups_total[OF that gs_map_nodes] by (simp add: resolve_normalized_None input_groups_def)
  then show ?thesis by (simp add: Resolve_def Let_def split: option.split)
qed

definition risk_excluded :: "ResolveInput \<Rightarrow> string \<Rightarrow> bool" where
  "risk_excluded input nid \<longleftrightarrow> In_RiskPolicyRevision input \<noteq> [] \<and>
     (\<exists>d \<in> set (In_RiskDecisions input). Dec_PolicyRevisionID d = In_RiskPolicyRevision input \<and>
        Dec_NodeLogicalID d = nid \<and> decision_excludes (In_RiskReviewAction input) d)"

definition first_rule_admits :: "regex_engines \<Rightarrow> AdmissionRule list \<Rightarrow> Node \<Rightarrow> bool" where
  "first_rule_admits eng rules n =
     (case find (\<lambda>rule. matchesAdmissionExpression eng n (AdmRule_Expression rule)) (exchange_sort AdmRule_Position rules) of
        None \<Rightarrow> True | Some rule \<Rightarrow> \<not> rule_excludes rule)"

definition publishable :: "regex_engines \<Rightarrow> time \<Rightarrow> ResolveInput \<Rightarrow> Node \<Rightarrow> bool" where
  "publishable eng now input n \<longleftrightarrow>
     n \<in> set (In_Nodes input) \<and> Node_Active n \<and> Node_LogicalID n \<notin> set (In_ExcludedNodeIDs input) \<and>
     \<not> risk_excluded input (Node_LogicalID n) \<and> first_rule_admits eng (In_AdmissionRules input) n \<and>
     fst (MatchesFilter eng (In_GlobalFilter input) n (gm_get_or [] (In_NodeSources input) (Node_LogicalID n))
            (gm_get_or Map.empty (In_LatestObservations input) (Node_LogicalID n)) (input_asOf now input))"

lemma risk_excluded_eq:
  assumes "n \<in> set (In_Nodes input)"
  shows "Node_LogicalID n \<in> set (fst (evaluateRiskAdmission (In_Nodes input) (In_RiskPolicyRevision input)
           (In_RiskDecisions input) (In_RiskReviewAction input))) \<longleftrightarrow> risk_excluded input (Node_LogicalID n)"
  using assms by (auto simp: evaluateRiskAdmission_set risk_excluded_def intro: rev_image_eqI)

lemma input_stage_nodes: "set (gs_nodes (input_stage eng input now)) = {n. publishable eng now input n}"
proof -
  have "fst (global_keep eng input (input_asOf now input) n) =
      fst (MatchesFilter eng (In_GlobalFilter input) n (gm_get_or [] (In_NodeSources input) (Node_LogicalID n))
            (gm_get_or Map.empty (In_LatestObservations input) (Node_LogicalID n)) (input_asOf now input))" for n
    by (auto simp: global_keep_def MatchesFilter_def split: option.split)
  then show ?thesis
    using risk_excluded_eq[of _ input]
    by (auto simp: input_stage_def global_filter.kept_eq input_admission_def admission.kept_eq admission_keep_def
          node_admitted_def publishable_def first_rule_admits_def)
qed

lemma publishable_normalize [simp]: "publishable eng now (normalize_input input) = publishable eng now input"
  by (rule ext) (simp add: publishable_def normalize_input_def risk_excluded_def input_asOf_def)

lemma snapshot_groups:
  assumes "Resolve eng ctxErr now input = Some (Inr snap)"
  shows "\<forall>rg \<in> set (Snap_Groups snap).
      rg_inv (Node_LogicalID ` {n. publishable eng now input n}) (RG_ID ` set (Snap_Groups snap)) rg \<and>
      rg_final (Snap_Groups snap) rg \<and> set (RG_AllNodeLogicalIDs rg) \<subseteq> Node_LogicalID ` {n. publishable eng now input n}"
    and "Group_ID ` set (In_Groups input) \<subseteq> RG_ID ` set (Snap_Groups snap)"
proof -
  let ?in = "normalize_input input"
  have A: "{nid. gm_get (gs_map (input_stage eng ?in now)) nid \<noteq> None} = Node_LogicalID ` {n. publishable eng now input n}"
    using input_stage_nodes[of eng ?in now] by (simp add: input_stage_def gs_map_keys)
  from resolve_normalized_Some(1)[OF Resolve_Some(1)[OF assms]] obtain diags counts where
    "input_groups eng ?in now = Some (Snap_Groups snap, diags, counts)" by blast
  from resolveGroups_inv[OF gs_map_nodes this[unfolded input_groups_def], unfolded A]
  show "\<forall>rg \<in> set (Snap_Groups snap).
      rg_inv (Node_LogicalID ` {n. publishable eng now input n}) (RG_ID ` set (Snap_Groups snap)) rg \<and>
      rg_final (Snap_Groups snap) rg \<and> set (RG_AllNodeLogicalIDs rg) \<subseteq> Node_LogicalID ` {n. publishable eng now input n}"
    "Group_ID ` set (In_Groups input) \<subseteq> RG_ID ` set (Snap_Groups snap)"
    by (auto simp: normalize_input_def image_image split: option.splits)
qed

lemma sorted_nodes_ids:
  "mset (map RN_LogicalID (sorted_nodes nodes)) = mset (map Node_LogicalID nodes)"
proof -
  have a: "map RN_LogicalID (map (\<lambda>(i, n). n\<lparr>RN_Position := i\<rparr>) (enumerate k ns)) = map RN_LogicalID ns" for k ns
    by (induction ns arbitrary: k) auto
  have b: "map RN_LogicalID (map (\<lambda>(i, n). resolved_node i n) (enumerate k nodes)) = map Node_LogicalID nodes" for k
    by (induction nodes arbitrary: k) (auto simp: resolved_node_def)
  have "mset (map RN_LogicalID (sort_key f ns)) = mset (map RN_LogicalID ns)" for f :: "ResolvedNode \<Rightarrow> string \<times> string" and ns
    by simp
  then show ?thesis unfolding sorted_nodes_def Let_def a b[of 0, symmetric] by blast
qed

lemma sorted_nodes_sorted: "sorted (map (\<lambda>n. (RN_DisplayName n, RN_LogicalID n)) (sorted_nodes nodes))"
proof -
  have "map (\<lambda>n. (RN_DisplayName n, RN_LogicalID n)) (map (\<lambda>(i, n). n\<lparr>RN_Position := i\<rparr>) (enumerate k ns)) =
      map (\<lambda>n. (RN_DisplayName n, RN_LogicalID n)) ns" for k and ns :: "ResolvedNode list"
    by (induction ns arbitrary: k) auto
  from this[of 0] show ?thesis unfolding sorted_nodes_def Let_def by (simp only: sorted_sort_key)
qed

lemma sorted_nodes_positions: "map RN_Position (sorted_nodes nodes) = [0..<length nodes]"
proof -
  have "map RN_Position (map (\<lambda>(i, n). n\<lparr>RN_Position := i\<rparr>) (enumerate k ns)) = [k..<k + length ns]" for k and ns :: "ResolvedNode list"
    by (induction ns arbitrary: k) (auto simp: upt_conv_Cons simp del: upt_Suc)
  from this[of 0] show ?thesis unfolding sorted_nodes_def Let_def by (simp only:) simp
qed

text \<open>
  C1. No node reaches a group that should not: every node that a group of a snapshot lists, as a
  member, directly or through the groups below it, is a node of the inventory that is active, is
  not excluded by name or by a risk decision, is not rejected or quarantined by the first admission
  rule that matches it, and passes the global filter.
\<close>

theorem Resolve_safe:
  assumes "Resolve eng ctxErr now input = Some (Inr snap)" "rg \<in> set (Snap_Groups snap)"
    and "nid \<in> set (RG_NodeLogicalIDs rg) \<union> set (RG_AllNodeLogicalIDs rg) \<union>
               Mem_TargetID ` {m \<in> set (RG_Members rg). Mem_Kind m = MemberKindNode}"
  shows "\<exists>n. publishable eng now input n \<and> Node_LogicalID n = nid"
proof -
  note inv = snapshot_groups(1)[OF assms(1), rule_format, OF assms(2)]
  have "nid \<in> Node_LogicalID ` {n. publishable eng now input n}"
    using assms(3) inv rg_inv_nodes[OF inv[THEN conjunct1]] rg_inv_member(1)[OF inv[THEN conjunct1]] by auto
  then show ?thesis by auto
qed

text \<open>
  C14. A snapshot is closed: every group of the input is in it, every group that a member of a group
  names is a group of the snapshot, derived filter groups included, and the list of child groups
  agrees with the members.
\<close>

theorem Resolve_closed:
  assumes "Resolve eng ctxErr now input = Some (Inr snap)"
  shows "Group_ID ` set (In_Groups input) \<subseteq> RG_ID ` set (Snap_Groups snap) \<and>
         (\<forall>rg \<in> set (Snap_Groups snap).
            Mem_TargetID ` {m \<in> set (RG_Members rg). Mem_Kind m = MemberKindGroup} \<subseteq> RG_ID ` set (Snap_Groups snap) \<and>
            set (RG_ChildGroupIDs rg) = Mem_TargetID ` {m \<in> set (RG_Members rg). Mem_Kind m = MemberKindGroup})"
proof (intro conjI ballI)
  show "Group_ID ` set (In_Groups input) \<subseteq> RG_ID ` set (Snap_Groups snap)" by (rule snapshot_groups(2)[OF assms])
next
  fix rg assume "rg \<in> set (Snap_Groups snap)"
  note inv = snapshot_groups(1)[OF assms, rule_format, OF this, THEN conjunct1]
  show "Mem_TargetID ` {m \<in> set (RG_Members rg). Mem_Kind m = MemberKindGroup} \<subseteq> RG_ID ` set (Snap_Groups snap)"
    using rg_inv_member(2)[OF inv] by auto
  have "mset (RG_ChildGroupIDs rg) = mset (kind_targets MemberKindGroup (RG_Members rg))"
    using inv by (simp add: rg_inv_def)
  from mset_eq_setD[OF this]
  show "set (RG_ChildGroupIDs rg) = Mem_TargetID ` {m \<in> set (RG_Members rg). Mem_Kind m = MemberKindGroup}"
    by (auto simp: kind_targets_def)
qed

text \<open>
  C15. The expanded nodes of a group are exactly the nodes listed by the groups reachable from it along
  child groups. The list is sorted and free of duplicates, and a group falls back to its empty
  pass exactly when the fallback is on, nothing is reachable and it has no built-in member.
\<close>

theorem Resolve_reachability:
  assumes "Resolve eng ctxErr now input = Some (Inr snap)" "rg \<in> set (Snap_Groups snap)"
  shows "set (RG_AllNodeLogicalIDs rg) = reachable_nodes (Snap_Groups snap) (RG_ID rg) \<and>
         sorted (RG_AllNodeLogicalIDs rg) \<and> distinct (RG_AllNodeLogicalIDs rg) \<and>
         RG_EffectiveEmptyPass rg = (RG_EmptyFallbackPass rg \<and>
           reachable_nodes (Snap_Groups snap) (RG_ID rg) = {} \<and> \<not> has_builtin rg)"
proof -
  have "rg_final (Snap_Groups snap) rg" using snapshot_groups(1)[OF assms(1)] assms(2) by blast
  then show ?thesis by (auto simp: rg_final_def)
qed

text \<open>
  C28. Every node of the inventory is accounted for: its identifier is among the admitted or the
  excluded ones of the snapshot, and in only one of the two lists when the inventory has no
  duplicate identifiers. The snapshot's nodes are the admitted ones, in order of name and identifier,
  with consecutive positions.
\<close>

theorem Resolve_accounts:
  assumes "Resolve eng ctxErr now input = Some (Inr snap)"
  shows "Node_LogicalID ` set (In_Nodes input) = set (Snap_AdmittedNodeIDs snap) \<union> set (Snap_ExcludedNodeIDs snap) \<and>
         (distinct (map Node_LogicalID (In_Nodes input)) \<longrightarrow>
            set (Snap_AdmittedNodeIDs snap) \<inter> set (Snap_ExcludedNodeIDs snap) = {}) \<and>
         mset (Snap_NodeLogicalIDs snap) = mset (Snap_AdmittedNodeIDs snap) \<and>
         sorted (map (\<lambda>n. (RN_DisplayName n, RN_LogicalID n)) (Snap_Nodes snap)) \<and>
         map RN_Position (Snap_Nodes snap) = [0..<length (Snap_AdmittedNodeIDs snap)] \<and>
         sorted (Snap_AdmittedNodeIDs snap) \<and> sorted (Snap_ExcludedNodeIDs snap) \<and> distinct (Snap_ExcludedNodeIDs snap)"
proof -
  let ?in = "normalize_input input"
  let ?asOf = "input_asOf now ?in"
  let ?nodes = "In_Nodes ?in"
  let ?adm = "Adm_AdmittedNodes (input_admission eng ?in)"
  note r = resolve_normalized_Some(2-5)[OF Resolve_Some(1)[OF assms]]
  have nodes: "?nodes = In_Nodes input" by (simp add: normalize_input_def)
  have adm: "set (Snap_AdmittedNodeIDs snap) = Node_LogicalID ` set (gs_nodes (input_stage eng ?in now))"
    unfolding r(3) by simp
  have ex: "set (Snap_ExcludedNodeIDs snap) =
      set (Adm_ExcludedNodeIDs (input_admission eng ?in)) \<union> set (gs_excluded (input_stage eng ?in now))"
    unfolding r(4) by (simp add: uniqueStrings_eq)
  have kept: "Node_LogicalID ` set ?nodes =
      Node_LogicalID ` set ?adm \<union> set (Adm_ExcludedNodeIDs (input_admission eng ?in))"
    unfolding input_admission_def by (rule admission.covers)
  have covers: "Node_LogicalID ` set ?nodes = set (Snap_AdmittedNodeIDs snap) \<union> set (Snap_ExcludedNodeIDs snap)"
    unfolding adm ex input_stage_def kept global_filter.covers[of ?adm eng ?in ?asOf] by blast
  have disj: "set (Snap_AdmittedNodeIDs snap) \<inter> set (Snap_ExcludedNodeIDs snap) = {}"
    if d: "distinct (map Node_LogicalID ?nodes)"
  proof -
    have "distinct (map Node_LogicalID ?adm)" using admission.kept_distinct[OF d] by (simp add: input_admission_def)
    from global_filter.disjoint[OF this, of eng ?in ?asOf] global_filter.kept_sound[of _ eng ?in ?asOf ?adm]
      admission.disjoint[OF d]
    show ?thesis unfolding adm ex input_stage_def by (fastforce simp: input_admission_def)
  qed
  have "mset (Snap_NodeLogicalIDs snap) = mset (Snap_AdmittedNodeIDs snap)"
    unfolding r(1-3) sorted_nodes_ids by simp
  then show ?thesis
    using covers disj unfolding nodes
    by (simp add: r(1,3,4) sorted_nodes_sorted sorted_nodes_positions uniqueStrings_eq sorted_remdups_adj
          sorted_remdups_adj_distinct)
qed

text \<open>
  C35. Resolving the rules neither drops nor invents one: the resolved rules are the policy's, in order of
  position with every MATCH rule moved behind the others, and they are numbered from 0.
\<close>

theorem resolveRules_order:
  "let out = resolveRules rules groups
   in map (\<lambda>r. (RR_ID r, RR_TargetGroupID r, RR_Expression r)) out =
        map (\<lambda>r. (Rule_ID r, Rule_TargetGroupID r, Rule_Expression r))
          (filter (\<lambda>r. \<not> IsMatchRule (Rule_Expression r)) (sort_key Rule_Position rules) @
           filter (\<lambda>r. IsMatchRule (Rule_Expression r)) (sort_key Rule_Position rules)) \<and>
      map RR_Position out = map int [0..<length rules] \<and> sorted (map RR_IsTerminal out)"
proof -
  have num: "map RR_Position (number_rules (int k) rs) = map int [k..<k + length rs]" for k rs
  proof (induction rs arbitrary: k)
    case (Cons r rs)
    from Cons[of "Suc k"] show ?case by (simp add: upt_conv_Cons add.commute del: upt_Suc)
  qed simp
  have fields: "map f (number_rules k rs) = map f rs" if "\<And>r p. f (r\<lparr>RR_Position := p\<rparr>) = f r" for f :: "ResolvedRule \<Rightarrow> 'a" and k rs
    using that by (induction rs arbitrary: k) auto
  have len: "length (filter (\<lambda>r. \<not> P r) xs) + length (filter P xs) = length xs" for P :: "'b \<Rightarrow> bool" and xs
    using sum_length_filter_compl[of P xs] by simp
  have const: "sorted (map P (filter P xs))" "sorted (map P (filter (\<lambda>x. \<not> P x) xs))" for P :: "'b \<Rightarrow> bool" and xs
    by (induction xs) auto
  show ?thesis
    unfolding resolveRules_def Let_def num[of 0, simplified]
    by (simp add: fields filter_map o_def resolved_rule_def sorted_append len const)
qed

subsection \<open>A concrete policy\<close>

definition example_node :: "char \<Rightarrow> bool \<Rightarrow> Node" where
  "example_node c active =
     zero_Node\<lparr>Node_LogicalID := replicate 64 c, Node_DisplayName := ''Tokyo'', Node_Active := active\<rparr>"

definition example_input :: ResolveInput where
  "example_input =
     \<lparr>In_RevisionID = ''r'', In_InventoryWatermark = [], In_CompilerVersion = [],
      In_Nodes = [example_node CHR ''a'' True, example_node CHR ''b'' False],
      In_Groups = [example_group (example_id CHR ''1'') [example_ref (example_id CHR ''2'')],
                   example_group (example_id CHR ''2'')
                     [(example_ref [])\<lparr>Src_Kind := SourceKindManualNode, Src_TargetGroupID := None,
                                      Src_NodeLogicalID := Some (replicate 64 CHR ''a'')\<rparr>]],
      In_GroupSources = None, In_Edges = [],
      In_PolicyRules = [\<lparr>Rule_ID = [], Rule_RevisionID = [], Rule_TargetGroupID = example_id CHR ''1'',
                         Rule_Expression = ''MATCH'', Rule_Position = 1\<rparr>],
      In_AdmissionRules = [], In_DNS = \<lparr>DNS_Enabled = False, DNS_Nameservers = [], DNS_Fallback = []\<rparr>,
      In_RiskPolicyRevision = [], In_RiskDecisionDigest = [], In_RiskEvaluatedAt = None, In_RiskReviewAction = [],
      In_RiskDecisions = [], In_ExcludedNodeIDs = [], In_GlobalFilter = None, In_GroupFilters = [],
      In_NodeSources = [], In_LatestObservations = [], In_AsOf = 0\<rparr>"

lemma example_resolved_check:
  "case Resolve literal_engines None 5 example_input of
     Some (Inr snap) \<Rightarrow> map RG_ID (Snap_Groups snap) = [example_id CHR ''1'', example_id CHR ''2''] \<and>
       map RG_AllNodeLogicalIDs (Snap_Groups snap) = [[replicate 64 CHR ''a''], [replicate 64 CHR ''a'']] \<and>
       Snap_ExcludedNodeIDs snap = [replicate 64 CHR ''b'']
   | _ \<Rightarrow> False"
  by code_simp

lemma example_resolved:
  obtains snap g1 g2 where "Resolve literal_engines None 5 example_input = Some (Inr snap)" "Snap_Groups snap = [g1, g2]"
    "RG_ID g1 = example_id CHR ''1''" "RG_AllNodeLogicalIDs g1 = [replicate 64 CHR ''a'']"
    "Snap_ExcludedNodeIDs snap = [replicate 64 CHR ''b'']"
  using example_resolved_check by (auto split: option.splits sum.splits simp: map_eq_Cons_conv)

theorem Resolve_safe_witness:
  "\<exists>n. publishable literal_engines 5 example_input n \<and> Node_LogicalID n = replicate 64 CHR ''a''"
proof -
  obtain snap g1 g2 where "Resolve literal_engines None 5 example_input = Some (Inr snap)" "Snap_Groups snap = [g1, g2]"
    "RG_AllNodeLogicalIDs g1 = [replicate 64 CHR ''a'']"
    by (rule example_resolved) blast
  then show ?thesis by (intro Resolve_safe[of _ None _ _ snap g1]) auto
qed

theorem Resolve_closed_witness:
  "\<exists>snap. Resolve literal_engines None 5 example_input = Some (Inr snap) \<and>
     example_id CHR ''2'' \<in> RG_ID ` set (Snap_Groups snap)"
proof -
  obtain snap where s: "Resolve literal_engines None 5 example_input = Some (Inr snap)"
    by (rule example_resolved) blast
  have "example_id CHR ''2'' \<in> Group_ID ` set (In_Groups example_input)"
    by (simp add: example_input_def example_group_def)
  with Resolve_closed[OF s] s show ?thesis by blast
qed

theorem Resolve_reachability_witness:
  "\<exists>snap. Resolve literal_engines None 5 example_input = Some (Inr snap) \<and>
     reachable_nodes (Snap_Groups snap) (example_id CHR ''1'') = {replicate 64 CHR ''a''}"
proof -
  obtain snap g1 g2 where s: "Resolve literal_engines None 5 example_input = Some (Inr snap)" "Snap_Groups snap = [g1, g2]"
    "RG_ID g1 = example_id CHR ''1''" "RG_AllNodeLogicalIDs g1 = [replicate 64 CHR ''a'']"
    by (rule example_resolved) blast
  with Resolve_reachability[OF s(1), of g1] show ?thesis by auto
qed

theorem Resolve_accounts_witness:
  "\<exists>snap. Resolve literal_engines None 5 example_input = Some (Inr snap) \<and>
     replicate 64 CHR ''a'' \<in> set (Snap_AdmittedNodeIDs snap) \<and> replicate 64 CHR ''b'' \<notin> set (Snap_AdmittedNodeIDs snap)"
proof -
  obtain snap where s: "Resolve literal_engines None 5 example_input = Some (Inr snap)"
    "Snap_ExcludedNodeIDs snap = [replicate 64 CHR ''b'']"
    by (rule example_resolved) blast
  have ids: "map Node_LogicalID (In_Nodes example_input) = [replicate 64 CHR ''a'', replicate 64 CHR ''b'']"
    by (simp add: example_input_def example_node_def)
  have "Node_LogicalID ` set (In_Nodes example_input) = {replicate 64 CHR ''a'', replicate 64 CHR ''b''}"
    using arg_cong[OF ids, of set] by simp
  moreover have "replicate 64 CHR ''a'' \<noteq> replicate 64 CHR ''b''" by (simp add: replicate_eq_replicate)
  moreover have "set (Snap_AdmittedNodeIDs snap) \<inter> {replicate 64 CHR ''b''} = {}"
    using Resolve_accounts[OF s(1)] s(2) ids by simp
  moreover have "Node_LogicalID ` set (In_Nodes example_input) = set (Snap_AdmittedNodeIDs snap) \<union> {replicate 64 CHR ''b''}"
    using Resolve_accounts[OF s(1)] s(2) by simp
  ultimately show ?thesis using s(1) by blast
qed

end
