(* ===== verification/Group_Pruning.thy ===== *)
theory Group_Pruning
  imports Policy_Resolver
begin

section \<open>Pruning empty optional groups (compiler/prune.go)\<close>

text \<open>
  Before a snapshot is rendered, the compiler drops groups that came out empty, as long as no
  rule targets them and every group that refers to them is a selector with other members. The
  rounds repeat until nothing changes. The sets of the code are lists read through membership.
\<close>

subsection \<open>References\<close>

definition ruleTargetGroupIDs :: "ResolvedPolicySnapshot \<Rightarrow> string list" where
  "ruleTargetGroupIDs snap = filter (\<lambda>s. s \<noteq> []) (map (trim_space \<circ> RR_TargetGroupID) (Snap_Rules snap))"

definition ruleTargetGroupNames :: "ResolvedPolicySnapshot \<Rightarrow> string list" where
  "ruleTargetGroupNames snap = filter (\<lambda>s. s \<noteq> []) (map (trim_space \<circ> RR_TargetGroupName) (Snap_Rules snap))"

definition member_refs :: "string \<Rightarrow> ResolvedGroup \<Rightarrow> ResolvedGroupMember \<Rightarrow> ResolvedGroup list" where
  "member_refs key grp m =
     (if Mem_Kind m = MemberKindGroup \<or> Mem_Kind m = []
      then (if key \<noteq> [] \<and> trim_space (Mem_TargetID m) = key then [grp] else []) @
           (if key \<noteq> [] \<and> trim_space (Mem_DisplayName m) = key then [grp] else [])
      else [])"

definition parentRefs :: "ResolvedPolicySnapshot \<Rightarrow> string \<Rightarrow> ResolvedGroup list" where
  "parentRefs snap key = concat (map (\<lambda>grp. concat (map (member_refs key grp) (RG_Members grp))) (Snap_Groups snap))"

definition add_parent :: "ResolvedGroup list \<Rightarrow> ResolvedGroup \<Rightarrow> ResolvedGroup list" where
  "add_parent ps p = (if list_ex (\<lambda>ep. RG_ID ep = RG_ID p) ps then ps else ps @ [p])"

definition allParents :: "ResolvedPolicySnapshot \<Rightarrow> ResolvedGroup \<Rightarrow> ResolvedGroup list" where
  "allParents snap grp = foldl add_parent (parentRefs snap (RG_ID grp)) (parentRefs snap (RG_Name grp))"

subsection \<open>One pass\<close>

definition refers_to :: "ResolvedGroup \<Rightarrow> ResolvedGroupMember \<Rightarrow> bool" where
  "refers_to grp m \<longleftrightarrow>
     (let mID = trim_space (Mem_TargetID m); mName = trim_space (Mem_DisplayName m)
      in mID \<noteq> [] \<and> mID = RG_ID grp \<or> mName \<noteq> [] \<and> mName = RG_Name grp)"

definition remainingMembers :: "ResolvedGroup \<Rightarrow> ResolvedGroup \<Rightarrow> nat" where
  "remainingMembers grp parent = length (filter (\<lambda>m. \<not> refers_to grp m) (RG_Members parent))"

definition canPrune :: "ResolvedPolicySnapshot \<Rightarrow> ResolvedGroup \<Rightarrow> bool" where
  "canPrune snap grp \<longleftrightarrow>
     \<not> UsesEmptyPass grp \<and> RG_Members grp = [] \<and>
     RG_ID grp \<notin> set (ruleTargetGroupIDs snap) \<and> RG_Name grp \<notin> set (ruleTargetGroupNames snap) \<and>
     list_all (\<lambda>parent. RG_GroupType parent = GroupTypeSelect \<and> remainingMembers grp parent \<noteq> 0) (allParents snap grp)"

text \<open>The notice starts with a sentence in Chinese, here as its UTF-8 bytes.\<close>

definition pruned_notice :: string where
  "pruned_notice = map char_of
     [87, 65, 82, 80, 230, 154, 130, 228, 184, 141, 229, 143, 175, 231, 148, 168, 239, 188, 140, 230,
      156, 172, 230, 172, 161, 229, 164, 135, 233, 128, 137, 231, 167, 187, 233, 153, 164, 239, 188,
      140, 231, 148, 168, 230, 136, 183, 232, 174, 190, 231, 189, 174, 228, 191, 157, 231, 149, 153 :: nat]"

definition prune_diagnostic :: "ResolvedPolicySnapshot \<Rightarrow> ResolvedGroup \<Rightarrow> Diagnostic" where
  "prune_diagnostic snap grp =
     (let parentNames = sort (remdups (map RG_Name (allParents snap grp)));
          msg = (if 0 < length parentNames
                 then pruned_notice @ '' (group '' @ RG_Name grp @ '' pruned from '' @ itoa (int (length parentNames)) @
                      '' selector references: '' @ join parentNames '', '' @ ''; reason: disabled-source)''
                 else ''group '' @ RG_Name grp @ '' is unused and has 0 active members; '' @
                      ''safely omitted from rendered configuration (reason: unused-empty)'')
      in diagnostic DiagnosticSeverityWarning ''optional_group_pruned'' msg (RG_Name grp) ''disabled-source'')"

definition pruneGroups :: "ResolvedPolicySnapshot \<Rightarrow> ResolvedGroup list" where
  "pruneGroups snap = filter (canPrune snap) (Snap_Groups snap)"

definition pruneGroupIDs :: "ResolvedPolicySnapshot \<Rightarrow> string list" where
  "pruneGroupIDs snap = filter (\<lambda>s. s \<noteq> []) (map RG_ID (pruneGroups snap))"

definition pruneGroupNames :: "ResolvedPolicySnapshot \<Rightarrow> string list" where
  "pruneGroupNames snap = filter (\<lambda>s. s \<noteq> []) (map RG_Name (pruneGroups snap))"

definition keeps_member :: "ResolvedPolicySnapshot \<Rightarrow> ResolvedGroupMember \<Rightarrow> bool" where
  "keeps_member snap m \<longleftrightarrow>
     (let mID = trim_space (Mem_TargetID m); mName = trim_space (Mem_DisplayName m)
      in \<not> (mID \<noteq> [] \<and> mID \<in> set (pruneGroupIDs snap) \<or> mName \<noteq> [] \<and> mName \<in> set (pruneGroupNames snap)))"

definition keeps_group :: "ResolvedPolicySnapshot \<Rightarrow> ResolvedGroup \<Rightarrow> bool" where
  "keeps_group snap grp \<longleftrightarrow> \<not> (RG_ID grp \<in> set (pruneGroupIDs snap) \<or> RG_Name grp \<in> set (pruneGroupNames snap))"

definition keptGroups :: "ResolvedPolicySnapshot \<Rightarrow> ResolvedGroup list" where
  "keptGroups snap =
     map (\<lambda>grp. grp\<lparr>RG_Members := filter (keeps_member snap) (RG_Members grp)\<rparr>)
       (filter (keeps_group snap) (Snap_Groups snap))"

definition pruneOnePass :: "ResolvedPolicySnapshot \<Rightarrow> ResolvedPolicySnapshot \<times> Diagnostic list \<times> bool" where
  "pruneOnePass snap =
     (let diagnostics = map (prune_diagnostic snap) (pruneGroups snap)
      in if pruneGroupIDs snap = [] \<and> pruneGroupNames snap = [] then (snap, [], False)
         else (snap\<lparr>Snap_Groups := keptGroups snap, Snap_Diagnostics := Snap_Diagnostics snap @ diagnostics\<rparr>,
               diagnostics, True))"

subsection \<open>The rounds\<close>

fun prune_rounds :: "nat \<Rightarrow> ResolvedPolicySnapshot \<Rightarrow> Diagnostic list \<Rightarrow> ResolvedPolicySnapshot \<times> Diagnostic list" where
  "prune_rounds 0 snap diags = (snap, diags)"
| "prune_rounds (Suc n) snap diags =
     (case pruneOnePass snap of
        (prunedSnap, ds, changed) \<Rightarrow> if changed then prune_rounds n prunedSnap (diags @ ds) else (snap, diags))"

definition PruneUnavailableOptionalGroups ::
  "ResolvedPolicySnapshot \<Rightarrow> ResolvedPolicySnapshot \<times> Diagnostic list" where
  "PruneUnavailableOptionalGroups snap =
     (case prune_rounds (length (Snap_Groups snap) + 1) snap [] of
        (currSnapshot, diags) \<Rightarrow> if diags = [] then (snap, []) else (currSnapshot, diags))"

subsection \<open>A pass shrinks the snapshot\<close>

definition changes :: "ResolvedPolicySnapshot \<Rightarrow> bool" where
  "changes snap \<longleftrightarrow> pruneGroupIDs snap \<noteq> [] \<or> pruneGroupNames snap \<noteq> []"

definition pruned :: "ResolvedPolicySnapshot \<Rightarrow> ResolvedPolicySnapshot" where
  "pruned snap = fst (pruneOnePass snap)"

lemma pruneOnePass_eq: "pruneOnePass snap = (pruned snap, if changes snap then map (prune_diagnostic snap) (pruneGroups snap) else [], changes snap)"
  by (simp add: pruned_def changes_def pruneOnePass_def Let_def)

lemma pruned_fields:
  "changes snap \<Longrightarrow> Snap_Groups (pruned snap) = keptGroups snap" "Snap_Rules (pruned snap) = Snap_Rules snap"
  by (auto simp: pruned_def changes_def pruneOnePass_def Let_def)

lemma changes_prunes: "changes snap \<Longrightarrow> \<exists>g \<in> set (Snap_Groups snap). canPrune snap g \<and> \<not> keeps_group snap g"
  by (auto simp: changes_def keeps_group_def pruneGroupIDs_def pruneGroupNames_def pruneGroups_def filter_empty_conv)

lemma pruned_length: "changes snap \<Longrightarrow> length (Snap_Groups (pruned snap)) < length (Snap_Groups snap)"
  using changes_prunes length_filter_less by (fastforce simp: pruned_fields keptGroups_def)

lemma prune_rounds_fixed:
  "length (Snap_Groups snap) < n \<Longrightarrow> \<not> changes (fst (prune_rounds n snap diags))"
proof (induction n arbitrary: snap diags)
  case (Suc n)
  show ?case
  proof (cases "changes snap")
    case True
    with pruned_length[OF True] Suc.prems Suc.IH[of "pruned snap"] show ?thesis by (simp add: pruneOnePass_eq)
  qed (simp add: pruneOnePass_eq)
qed simp

lemma prune_rounds_prefix: "prefix diags (snd (prune_rounds n snap diags))"
  by (induction n arbitrary: snap diags) (auto simp: pruneOnePass_eq intro: append_prefixD)

lemma prune_rounds_silent: "snd (prune_rounds n snap []) = [] \<Longrightarrow> fst (prune_rounds n snap []) = snap"
proof (induction n)
  case (Suc n)
  have "\<not> changes snap"
  proof
    assume c: "changes snap"
    then have "pruneGroups snap \<noteq> []" using changes_prunes by (auto simp: pruneGroups_def filter_empty_conv)
    with c Suc.prems prune_rounds_prefix[of "map (prune_diagnostic snap) (pruneGroups snap)" n "pruned snap"]
    show False by (simp add: pruneOnePass_eq)
  qed
  then show ?case by (simp add: pruneOnePass_eq)
qed simp

lemma Prune_rounds:
  "fst (PruneUnavailableOptionalGroups snap) = fst (prune_rounds (length (Snap_Groups snap) + 1) snap [])"
  using prune_rounds_silent[of "length (Snap_Groups snap) + 1" snap]
  by (auto simp: PruneUnavailableOptionalGroups_def split: prod.split)

lemma Prune_invariant:
  assumes "P snap" and step: "\<And>s. P s \<Longrightarrow> changes s \<Longrightarrow> P (pruned s)"
  shows "P (fst (PruneUnavailableOptionalGroups snap))"
proof -
  have "P s \<Longrightarrow> P (fst (prune_rounds n s d))" for n s d
    by (induction n arbitrary: s d) (auto simp: pruneOnePass_eq intro: step)
  from this[OF assms(1)] show ?thesis unfolding Prune_rounds .
qed

text \<open>
  C30. Pruning runs to the end: the number of rounds the code allows is enough, so another pass over
  the result finds nothing more to prune.
\<close>

theorem Prune_fixed_point:
  "case pruneOnePass (fst (PruneUnavailableOptionalGroups snap)) of
     (snap', diags, changed) \<Rightarrow> snap' = fst (PruneUnavailableOptionalGroups snap) \<and> diags = [] \<and> \<not> changed"
proof -
  have "\<not> changes (fst (PruneUnavailableOptionalGroups snap))"
    unfolding Prune_rounds by (rule prune_rounds_fixed) simp
  then show ?thesis by (simp add: pruneOnePass_def changes_def)
qed

subsection \<open>What survives\<close>

definition unambiguous :: "ResolvedPolicySnapshot \<Rightarrow> bool" where
  "unambiguous snap \<longleftrightarrow> distinct (map RG_ID (Snap_Groups snap)) \<and> distinct (map RG_Name (Snap_Groups snap))"

lemma unambiguous_eq:
  assumes "unambiguous snap" "g \<in> set (Snap_Groups snap)" "h \<in> set (Snap_Groups snap)"
  shows "RG_ID g = RG_ID h \<Longrightarrow> g = h" and "RG_Name g = RG_Name h \<Longrightarrow> g = h"
  using assms by (auto simp: unambiguous_def distinct_map dest: inj_onD)

lemma unambiguous_pruned: "unambiguous snap \<Longrightarrow> changes snap \<Longrightarrow> unambiguous (pruned snap)"
  by (simp add: unambiguous_def pruned_fields keptGroups_def o_def distinct_map_filter)

lemma keeps_group_iff:
  assumes "unambiguous snap" "g \<in> set (Snap_Groups snap)" "RG_ID g \<noteq> [] \<or> RG_Name g \<noteq> []"
  shows "keeps_group snap g \<longleftrightarrow> \<not> canPrune snap g"
proof
  assume keep: "keeps_group snap g"
  show "\<not> canPrune snap g"
  proof
    assume "canPrune snap g"
    then have "g \<in> set (pruneGroups snap)" using assms(2) by (simp add: pruneGroups_def)
    with keep assms(3) show False by (auto simp: keeps_group_def pruneGroupIDs_def pruneGroupNames_def)
  qed
next
  assume no: "\<not> canPrune snap g"
  have "h \<noteq> g" if "h \<in> set (pruneGroups snap)" for h using that no by (auto simp: pruneGroups_def)
  then have "RG_ID g \<noteq> RG_ID h" "RG_Name g \<noteq> RG_Name h" if "h \<in> set (pruneGroups snap)" for h
    using that unambiguous_eq[OF assms(1,2), of h] by (auto simp: pruneGroups_def)
  then show "keeps_group snap g" by (auto simp: keeps_group_def pruneGroupIDs_def pruneGroupNames_def)
qed

definition rule_target :: "ResolvedPolicySnapshot \<Rightarrow> ResolvedGroup \<Rightarrow> bool" where
  "rule_target snap g \<longleftrightarrow> RG_ID g \<in> set (ruleTargetGroupIDs snap) \<or> RG_Name g \<in> set (ruleTargetGroupNames snap)"

lemma rule_target_pruned [simp]: "rule_target (pruned snap) g = rule_target snap g"
  by (simp add: rule_target_def ruleTargetGroupIDs_def ruleTargetGroupNames_def pruned_fields)

lemma rule_target_given: "rule_target snap g \<Longrightarrow> RG_ID g \<noteq> [] \<or> RG_Name g \<noteq> []"
  by (auto simp: rule_target_def ruleTargetGroupIDs_def ruleTargetGroupNames_def)

text \<open>
  C31. A group that a rule targets is never pruned: where identifiers and names tell the groups apart,
  every group that a rule names by identifier or by name is still in the pruned snapshot, with its
  identifier and name.
\<close>

theorem Prune_keeps_rule_targets:
  assumes "unambiguous snap" "g \<in> set (Snap_Groups snap)" "rule_target snap g"
  shows "\<exists>g' \<in> set (Snap_Groups (fst (PruneUnavailableOptionalGroups snap))). RG_ID g' = RG_ID g \<and> RG_Name g' = RG_Name g"
proof -
  let ?P = "\<lambda>s. unambiguous s \<and> (\<exists>g' \<in> set (Snap_Groups s). RG_ID g' = RG_ID g \<and> RG_Name g' = RG_Name g \<and> rule_target s g')"
  have "?P (fst (PruneUnavailableOptionalGroups snap))"
  proof (rule Prune_invariant[of ?P])
    show "?P snap" using assms by blast
    fix s assume s: "?P s" "changes s"
    then obtain g' where g': "g' \<in> set (Snap_Groups s)" "RG_ID g' = RG_ID g" "RG_Name g' = RG_Name g" "rule_target s g'" by blast
    have "\<not> canPrune s g'" using g'(4) by (auto simp: canPrune_def rule_target_def)
    then have keep: "keeps_group s g'" using keeps_group_iff[of s g'] s g' rule_target_given by blast
    let ?k = "g'\<lparr>RG_Members := filter (keeps_member s) (RG_Members g')\<rparr>"
    have "?k \<in> set (Snap_Groups (pruned s))" using g'(1) keep s(2) by (auto simp: pruned_fields keptGroups_def)
    moreover have "rule_target s ?k" using g'(4) by (simp add: rule_target_def)
    ultimately have "\<exists>k \<in> set (Snap_Groups (pruned s)). RG_ID k = RG_ID g \<and> RG_Name k = RG_Name g \<and> rule_target (pruned s) k"
      using g'(2,3) by (intro bexI[of _ ?k]) simp_all
    with s unambiguous_pruned[of s] show "?P (pruned s)" by blast
  qed
  then show ?thesis by blast
qed

definition snapshot_closed :: "ResolvedPolicySnapshot \<Rightarrow> bool" where
  "snapshot_closed snap \<longleftrightarrow>
     (\<forall>g \<in> set (Snap_Groups snap). \<forall>m \<in> set (RG_Members g). Mem_Kind m = MemberKindGroup \<longrightarrow>
        Mem_TargetID m \<noteq> [] \<and> trim_space (Mem_TargetID m) = Mem_TargetID m \<and>
        Mem_TargetID m \<in> RG_ID ` set (Snap_Groups snap))"

lemma snapshot_closed_pruned:
  assumes "unambiguous snap" "snapshot_closed snap" "changes snap"
  shows "snapshot_closed (pruned snap)"
proof -
  have "Mem_TargetID m \<in> RG_ID ` set (keptGroups snap)"
    if "g \<in> set (Snap_Groups snap)" "m \<in> set (RG_Members g)" "Mem_Kind m = MemberKindGroup" "keeps_member snap m" for g m
  proof -
    from assms(2) that obtain h where h: "h \<in> set (Snap_Groups snap)" "RG_ID h = Mem_TargetID m"
      "Mem_TargetID m \<noteq> []" "trim_space (Mem_TargetID m) = Mem_TargetID m" unfolding snapshot_closed_def by (metis imageE)
    have "RG_ID h \<notin> set (pruneGroupIDs snap)" using that(4) h by (auto simp: keeps_member_def Let_def)
    then have "\<not> canPrune snap h" using h by (force simp: pruneGroupIDs_def pruneGroups_def)
    then have "keeps_group snap h" using keeps_group_iff[OF assms(1) h(1)] h by simp
    with h show ?thesis by (force simp: keptGroups_def)
  qed
  with assms(2) show ?thesis unfolding snapshot_closed_def pruned_fields(1)[OF assms(3)]
    by (auto simp: keptGroups_def)
qed

text \<open>Pruning leaves no dangling reference.\<close>

lemma Prune_closed:
  assumes "unambiguous snap" "snapshot_closed snap"
  shows "snapshot_closed (fst (PruneUnavailableOptionalGroups snap))"
  using Prune_invariant[of "\<lambda>s. unambiguous s \<and> snapshot_closed s" snap] assms
    unambiguous_pruned snapshot_closed_pruned by blast

text \<open>Pruning never adds a group, and a group that stays only loses members.\<close>

definition shrinks :: "ResolvedPolicySnapshot \<Rightarrow> ResolvedPolicySnapshot \<Rightarrow> bool" where
  "shrinks snap snap' \<longleftrightarrow>
     (\<forall>g' \<in> set (Snap_Groups snap'). \<exists>g \<in> set (Snap_Groups snap).
        set (RG_Members g') \<subseteq> set (RG_Members g) \<and> g' = g\<lparr>RG_Members := RG_Members g'\<rparr>)"

lemma shrinks_pruned:
  assumes "changes s" "shrinks snap s"
  shows "shrinks snap (pruned s)"
  unfolding shrinks_def pruned_fields(1)[OF assms(1)]
proof
  fix g' assume "g' \<in> set (keptGroups s)"
  then obtain h where h: "h \<in> set (Snap_Groups s)" "g' = h\<lparr>RG_Members := filter (keeps_member s) (RG_Members h)\<rparr>"
    by (auto simp: keptGroups_def)
  with assms(2) obtain g where g: "g \<in> set (Snap_Groups snap)" "set (RG_Members h) \<subseteq> set (RG_Members g)"
    "h = g\<lparr>RG_Members := RG_Members h\<rparr>" unfolding shrinks_def by blast
  have "g' = g\<lparr>RG_Members := RG_Members g'\<rparr>" using h(2) g(3) by (metis ResolvedGroup.select_convs(6) ResolvedGroup.surjective ResolvedGroup.update_convs(6))
  moreover have "set (RG_Members g') \<subseteq> set (RG_Members g)" using h(2) g(2) by auto
  ultimately show "\<exists>g \<in> set (Snap_Groups snap). set (RG_Members g') \<subseteq> set (RG_Members g) \<and> g' = g\<lparr>RG_Members := RG_Members g'\<rparr>"
    using g(1) by blast
qed

lemma Prune_shrinks: "shrinks snap (fst (PruneUnavailableOptionalGroups snap))"
  by (rule Prune_invariant) (auto simp: shrinks_pruned, auto simp: shrinks_def)

subsection \<open>A selector whose only members are pruned together\<close>

definition example_selector :: "char \<Rightarrow> ResolvedGroupMember list \<Rightarrow> ResolvedGroup" where
  "example_selector c ms =
     \<lparr>RG_EmptyFallbackPass = False, RG_EffectiveEmptyPass = False, RG_ID = example_id c, RG_Name = [c],
      RG_GroupType = GroupTypeSelect, RG_Members = ms, RG_ChildGroupIDs = map Mem_TargetID ms, RG_NodeLogicalIDs = [],
      RG_AllNodeLogicalIDs = [], RG_ExpandedNodeIDs = [], RG_Sources = [], RG_Position = 0\<rparr>"

definition example_child :: "char \<Rightarrow> ResolvedGroupMember" where
  "example_child c = \<lparr>Mem_Kind = MemberKindGroup, Mem_TargetID = example_id c, Mem_DisplayName = [c], Mem_Position = 0\<rparr>"

definition example_snapshot :: ResolvedPolicySnapshot where
  "example_snapshot =
     \<lparr>Snap_RevisionID = [], Snap_InventoryWatermark = [], Snap_CompilerVersion = ''1.0.0'', Snap_Nodes = [],
      Snap_NodeLogicalIDs = [],
      Snap_Groups = [example_selector CHR ''1'' [example_child CHR ''2'', example_child CHR ''3''],
                     example_selector CHR ''2'' [], example_selector CHR ''3'' []],
      Snap_Rules = [\<lparr>RR_ID = [], RR_TargetGroupID = example_id CHR ''1'', RR_TargetGroupName = ''1'',
                     RR_Expression = ''MATCH'', RR_Position = 0, RR_IsTerminal = True\<rparr>],
      Snap_DNS = \<lparr>DNS_Enabled = False, DNS_Nameservers = [], DNS_Fallback = []\<rparr>, Snap_Diagnostics = [],
      Snap_RiskPolicyRevision = [], Snap_RiskDecisionDigest = [], Snap_RiskEvaluatedAt = None,
      Snap_AdmittedNodeIDs = [], Snap_ExcludedNodeIDs = [],
      Snap_FilterCounts = \<lparr>FLC_RawTotal = 0, FLC_AdmittedTotal = 0, FLC_GlobalFilteredTotal = 0,
                           FLC_GroupFilteredTotal = 0, FLC_GroupCounts = []\<rparr>,
      Snap_ResolvedAt = 0\<rparr>"

lemma example_snapshot_ok: "unambiguous example_snapshot \<and> snapshot_closed example_snapshot"
  by code_simp

theorem Prune_keeps_rule_targets_witness:
  "\<exists>g' \<in> set (Snap_Groups (fst (PruneUnavailableOptionalGroups example_snapshot))). RG_ID g' = example_id CHR ''1''"
proof -
  have "hd (Snap_Groups example_snapshot) \<in> set (Snap_Groups example_snapshot)"
    "rule_target example_snapshot (hd (Snap_Groups example_snapshot))"
    "RG_ID (hd (Snap_Groups example_snapshot)) = example_id CHR ''1''" by code_simp+
  from Prune_keeps_rule_targets[OF conjunct1[OF example_snapshot_ok] this(1,2)] this(3) show ?thesis by auto
qed

text \<open>
  Contrary to what its comment promises, pruning can leave a parent empty: when two empty groups are
  the only members of one selector, each sees the other as a remaining member and both go in the
  same pass. The selector, which a rule targets, stays with no members.
\<close>

theorem Prune_empties_selector:
  "map (\<lambda>g. (RG_Name g, length (RG_Members g))) (Snap_Groups example_snapshot) = [(''1'', 2), (''2'', 0), (''3'', 0)] \<and>
   map (\<lambda>g. (RG_Name g, length (RG_Members g))) (Snap_Groups (fst (PruneUnavailableOptionalGroups example_snapshot))) =
     [(''1'', 0)]"
  by code_simp

end
