(* ===== verification/Probe_Queue.thy ===== *)
theory Probe_Queue
  imports Domain_Enums "HOL-Library.Multiset"
begin

section \<open>The probe scheduler (probe/queue/scheduler.go)\<close>

text \<open>
  The scheduler runs probe tasks on a bounded number of goroutines. All its state is guarded by one
  mutex, so the model is a record of that state and one function per critical section; the
  interleavings of the goroutines are the sequences of these sections. A waiting \<open>submit\<close> that is
  woken simply tries its section again. The broadcast channel is a generation number that every
  signal advances. A section reads the clock once, as its argument \<open>now\<close>. Some components record
  the goroutines: \<open>sch_workers\<close> those that process a task, \<open>sch_returning\<close> those that are in a
  completion callback, and \<open>sch_completed\<close> what the finished callbacks reported; \<open>sch_skipped\<close> lists the
  tasks that were completed at once because their node was in the pool already, and \<open>sch_accepted\<close>
  those that entered a queue.
\<close>

subsection \<open>Configuration and state\<close>

datatype sched_error =
  ErrInvalidConcurrency | ErrRunConcurrency | ErrCapacityExceeded | ErrNodeConflict | ErrSchedulerClosed |
  ContextCanceled | CallerContextErr | ErrExecute

definition DefaultConcurrency :: int where "DefaultConcurrency = 50"
definition MinConcurrency :: int where "MinConcurrency = 1"
definition HardMaxConcurrency :: int where "HardMaxConcurrency = 256"
definition DefaultQueueSize :: int where "DefaultQueueSize = 1024"
definition DefaultNodeTTL :: duration where "DefaultNodeTTL = 30 * second"

record Config =
  Cfg_Concurrency :: int
  Cfg_RunConcurrency :: int
  Cfg_QueueSize :: int
  Cfg_NodeTTL :: duration

definition EnqueueStrictConflict :: int where "EnqueueStrictConflict = 0"
definition EnqueuePeriodicDedupe :: int where "EnqueuePeriodicDedupe = 1"
definition EnqueueManualPreemptFront :: int where "EnqueueManualPreemptFront = 2"

record Task =
  Task_ID :: string
  Task_RunID :: string
  Task_LogicalID :: string
  Task_Kind :: string
  Task_Mode :: int

record activeRecord =
  rec_active :: bool
  rec_count :: int
  rec_until :: time
  rec_lastRunID :: string

definition zero_record :: activeRecord where
  "zero_record = \<lparr>rec_active = False, rec_count = 0, rec_until = zero_time, rec_lastRunID = []\<rparr>"

text \<open>A goroutine of \<open>processTask\<close>: not yet in its first section, or executing under a cancel handle.\<close>

datatype worker = Spawned | Executing int

record Scheduler =
  sch_cfg :: Config
  sch_explicitRunConcurrency :: bool
  sch_closed :: bool
  sch_queues :: "(string, Task list) gomap"
  sch_runOrder :: "string list"
  sch_runCursor :: nat
  sch_queued :: int
  sch_activeByRun :: "(string, int) gomap"
  sch_activeNodes :: "(string, activeRecord) gomap"
  sch_probingNodes :: "(string, int) gomap"
  sch_probingTasks :: "(int, Task) gomap"
  sch_nextExecID :: int
  sch_runCancels :: "(string, (int, int) gomap) gomap"
  sch_cancelledRuns :: "string list"
  sch_cancelSequence :: int
  sch_changed :: nat
  sch_activeCount :: int
  sch_peakActive :: int
  sch_peakQueued :: int
  sch_taskCount :: int
  sch_callbacks :: int
  sch_dispatcherDone :: bool
  sch_ctxDone :: bool
  sch_cancelledExecs :: "int list"
  sch_workers :: "(int, worker) gomap"
  sch_returning :: "(Task \<times> sched_error option) list"
  sch_completed :: "(Task \<times> sched_error option) list"
  sch_skipped :: "Task list"
  sch_accepted :: "Task list"

definition NewScheduler :: "Config \<Rightarrow> sched_error + Scheduler" where
  "NewScheduler cfg0 =
     (let cfg = (if Cfg_Concurrency cfg0 = 0 then cfg0\<lparr>Cfg_Concurrency := DefaultConcurrency\<rparr> else cfg0)
      in if Cfg_Concurrency cfg < MinConcurrency \<or> Cfg_Concurrency cfg > HardMaxConcurrency then Inl ErrInvalidConcurrency
         else if Cfg_RunConcurrency cfg < 0 \<or> Cfg_RunConcurrency cfg > Cfg_Concurrency cfg then Inl ErrRunConcurrency
         else
           (let explicit = (Cfg_RunConcurrency cfg > 0);
                cfg = (if Cfg_RunConcurrency cfg = 0
                       then cfg\<lparr>Cfg_RunConcurrency := (Cfg_Concurrency cfg + 1) div 2\<rparr> else cfg);
                cfg = (if Cfg_QueueSize cfg \<le> 0 then cfg\<lparr>Cfg_QueueSize := DefaultQueueSize\<rparr> else cfg);
                cfg = (if Cfg_NodeTTL cfg \<le> 0 then cfg\<lparr>Cfg_NodeTTL := DefaultNodeTTL\<rparr> else cfg)
            in Inr \<lparr>sch_cfg = cfg, sch_explicitRunConcurrency = explicit, sch_closed = False, sch_queues = [],
                    sch_runOrder = [], sch_runCursor = 0, sch_queued = 0, sch_activeByRun = [], sch_activeNodes = [],
                    sch_probingNodes = [], sch_probingTasks = [], sch_nextExecID = 0, sch_runCancels = [],
                    sch_cancelledRuns = [], sch_cancelSequence = 0, sch_changed = 0, sch_activeCount = 0,
                    sch_peakActive = 0, sch_peakQueued = 0, sch_taskCount = 0, sch_callbacks = 0,
                    sch_dispatcherDone = False, sch_ctxDone = False, sch_cancelledExecs = [], sch_workers = [],
                    sch_returning = [], sch_completed = [], sch_skipped = [],
                    sch_accepted = []\<rparr>))"

definition signalLocked :: "Scheduler \<Rightarrow> Scheduler" where
  "signalLocked s = s\<lparr>sch_changed := sch_changed s + 1\<rparr>"

definition makeNodeKey :: "string \<Rightarrow> string \<Rightarrow> string" where
  "makeNodeKey logicalID kind = logicalID @ ''#'' @ kind"

definition nodeIDFromKey :: "string \<Rightarrow> string" where
  "nodeIDFromKey key =
     (if CHR ''#'' \<in> set key then rev (tl (dropWhile (\<lambda>c. c \<noteq> CHR ''#'') (rev key))) else key)"

definition task_key :: "Task \<Rightarrow> string" where
  "task_key t = makeNodeKey (Task_LogicalID t) (Task_Kind t)"

definition queue_of :: "Scheduler \<Rightarrow> string \<Rightarrow> Task list" where
  "queue_of s run = gm_get_or [] (sch_queues s) run"

definition is_manual :: "Task \<Rightarrow> bool" where
  "is_manual t \<longleftrightarrow> Task_Mode t = EnqueueManualPreemptFront"

text \<open>The peak counters are 32 bits wide.\<close>

definition int32 :: "int \<Rightarrow> int" where
  "int32 n = (n + 2 ^ 31) mod 2 ^ 32 - 2 ^ 31"

subsection \<open>The record of recent nodes\<close>

definition older_inactive :: "string \<times> time \<Rightarrow> string \<times> activeRecord \<Rightarrow> string \<times> time" where
  "older_inactive acc kr =
     (case (acc, kr) of ((oldestKey, oldest), (key, r)) \<Rightarrow>
        if \<not> rec_active r \<and> (oldestKey = [] \<or> rec_until r < oldest) then (key, rec_until r) else (oldestKey, oldest))"

definition oldest_inactive :: "(string, activeRecord) gomap \<Rightarrow> string \<times> time" where
  "oldest_inactive m = foldl older_inactive ([], zero_time) m"

fun evict_oldest :: "nat \<Rightarrow> int \<Rightarrow> (string, activeRecord) gomap \<Rightarrow> (string, activeRecord) gomap" where
  "evict_oldest 0 limit m = m"
| "evict_oldest (Suc n) limit m =
     (if int (length m) > limit
      then (let oldestKey = fst (oldest_inactive m)
            in if oldestKey = [] then m else evict_oldest n limit (gm_del m oldestKey))
      else m)"

definition pruneActiveNodesLocked :: "time \<Rightarrow> Scheduler \<Rightarrow> Scheduler" where
  "pruneActiveNodesLocked now s =
     (let m = filter (\<lambda>(key, r). \<not> (\<not> rec_active r \<and> \<not> now < rec_until r)) (sch_activeNodes s);
          limit = Cfg_QueueSize (sch_cfg s) + Cfg_Concurrency (sch_cfg s)
      in s\<lparr>sch_activeNodes := evict_oldest (length m) limit m\<rparr>)"

text \<open>A record loses one task: the last one starts the time to live.\<close>

definition release_record :: "time \<Rightarrow> duration \<Rightarrow> activeRecord \<Rightarrow> activeRecord" where
  "release_record now ttl r =
     (if rec_count r - 1 \<le> 0 then r\<lparr>rec_count := 0, rec_active := False, rec_until := now + ttl\<rparr>
      else r\<lparr>rec_count := rec_count r - 1, rec_active := True\<rparr>)"

definition release_queued :: "time \<Rightarrow> duration \<Rightarrow> (string, activeRecord) gomap \<Rightarrow> Task \<Rightarrow> (string, activeRecord) gomap" where
  "release_queued now ttl m t =
     gm_put m (task_key t) (release_record now ttl (gm_get_or zero_record m (task_key t)))"

subsection \<open>Choosing the next task\<close>

definition remove_nth :: "nat \<Rightarrow> 'a list \<Rightarrow> 'a list" where
  "remove_nth i xs = take i xs @ drop (Suc i) xs"

definition activeCompetingRunsLocked :: "Scheduler \<Rightarrow> nat" where
  "activeCompetingRunsLocked s =
     length (sch_queues s) + length (filter (\<lambda>(run, n). gm_get (sch_queues s) run = None) (sch_activeByRun s))"

definition pop_front :: "nat \<Rightarrow> string \<Rightarrow> (string list \<Rightarrow> nat) \<Rightarrow> nat \<Rightarrow> Scheduler \<Rightarrow> Task \<times> Scheduler" where
  "pop_front i run emptied other s =
     (let q = queue_of s run; rest = tl q; s1 = s\<lparr>sch_queued := sch_queued s - 1\<rparr>;
          s2 = (if rest = []
                then (let order = remove_nth i (sch_runOrder s)
                      in s1\<lparr>sch_queues := gm_del (sch_queues s) run, sch_runOrder := order,
                            sch_runCursor := (if order \<noteq> [] then emptied order else 0)\<rparr>)
                else s1\<lparr>sch_queues := gm_put (sch_queues s) run rest, sch_runCursor := other\<rparr>)
      in (hd q, signalLocked s2))"

definition first_manual :: "Scheduler \<Rightarrow> (nat \<times> string) option" where
  "first_manual s =
     find (\<lambda>(i, run). case queue_of s run of [] \<Rightarrow> False | t # ts \<Rightarrow> is_manual t) (enumerate 0 (sch_runOrder s))"

definition run_limit :: "Scheduler \<Rightarrow> int" where
  "run_limit s =
     (if \<not> sch_explicitRunConcurrency s \<and> activeCompetingRunsLocked s \<le> 1 then Cfg_Concurrency (sch_cfg s)
      else Cfg_RunConcurrency (sch_cfg s))"

definition first_eligible :: "Scheduler \<Rightarrow> (nat \<times> string) option" where
  "first_eligible s =
     (let len = length (sch_runOrder s);
          slots = map (\<lambda>n. let i = (sch_runCursor s + n) mod len in (i, sch_runOrder s ! i)) [0..<len]
      in find (\<lambda>(i, run). queue_of s run \<noteq> [] \<and> gm_get_or 0 (sch_activeByRun s) run < run_limit s) slots)"

definition nextEligibleLocked :: "Scheduler \<Rightarrow> (Task \<times> Scheduler) option" where
  "nextEligibleLocked s =
     (case first_manual s of
        Some (i, run) \<Rightarrow> Some (pop_front i run (\<lambda>order. sch_runCursor s mod length order) (sch_runCursor s) s)
      | None \<Rightarrow>
          (case first_eligible s of
             Some (i, run) \<Rightarrow>
               Some (pop_front i run (\<lambda>order. i mod length order) ((i + 1) mod length (sch_runOrder s)) s)
           | None \<Rightarrow> None))"

text \<open>One turn of the dispatcher. It leaves the state as it is where it goes to sleep.\<close>

definition dispatch :: "Scheduler \<Rightarrow> Scheduler" where
  "dispatch s =
     (if sch_closed s then s\<lparr>sch_dispatcherDone := True\<rparr>
      else if sch_activeCount s \<ge> Cfg_Concurrency (sch_cfg s) \<or> sch_queued s = 0 then s
      else case nextEligibleLocked s of
             None \<Rightarrow> s
           | Some (task, s1) \<Rightarrow>
               (let execID = sch_nextExecID s1 + 1; current = sch_activeCount s1 + 1
                in s1\<lparr>sch_activeByRun := gm_put (sch_activeByRun s1) (Task_RunID task)
                                           (gm_get_or 0 (sch_activeByRun s1) (Task_RunID task) + 1),
                      sch_nextExecID := execID,
                      sch_probingNodes := gm_put (sch_probingNodes s1) (Task_LogicalID task)
                                            (gm_get_or 0 (sch_probingNodes s1) (Task_LogicalID task) + 1),
                      sch_probingTasks := gm_put (sch_probingTasks s1) execID task,
                      sch_activeCount := current, sch_peakActive := max (sch_peakActive s1) current,
                      sch_workers := gm_put (sch_workers s1) execID Spawned\<rparr>))"

subsection \<open>Submitting a task\<close>

datatype attempt = Returned "sched_error option" | Waits

text \<open>Appending to the queue of a run, as the strict and the periodic submission do.\<close>

definition append_task :: "Task \<Rightarrow> Scheduler \<Rightarrow> Scheduler" where
  "append_task task s =
     (let run = Task_RunID task; q = queue_of s run
      in signalLocked
           (s\<lparr>sch_accepted := sch_accepted s @ [task],
              sch_taskCount := sch_taskCount s + 1, sch_callbacks := sch_callbacks s + 1,
              sch_runOrder := (if q = [] then sch_runOrder s @ [run] else sch_runOrder s),
              sch_queues := gm_put (sch_queues s) run (q @ [task]), sch_queued := sch_queued s + 1,
              sch_peakQueued := max (sch_peakQueued s) (int32 (sch_queued s + 1))\<rparr>))"

definition enqueueTaskLocked :: "string \<Rightarrow> Task \<Rightarrow> Scheduler \<Rightarrow> Scheduler" where
  "enqueueTaskLocked key task s =
     append_task task
       (s\<lparr>sch_activeNodes := gm_put (sch_activeNodes s) key
            \<lparr>rec_active = True, rec_count = 1, rec_until = zero_time, rec_lastRunID = Task_RunID task\<rparr>\<rparr>)"

definition submitStrictConflict :: "time \<Rightarrow> Task \<Rightarrow> bool \<Rightarrow> Scheduler \<Rightarrow> attempt \<times> Scheduler" where
  "submitStrictConflict now task wait s =
     (let key = task_key task
      in if sch_closed s then (Returned (Some ErrSchedulerClosed), s)
         else if Task_RunID task \<in> set (sch_cancelledRuns s) then (Returned (Some ContextCanceled), s)
         else
           (let s1 = pruneActiveNodesLocked now s
            in case gm_get (sch_activeNodes s1) key of
                 Some r \<Rightarrow>
                   if rec_active r \<or> now < rec_until r then (Returned (Some ErrNodeConflict), s1)
                   else (let s2 = s1\<lparr>sch_activeNodes := gm_del (sch_activeNodes s1) key\<rparr>
                         in if sch_queued s2 < Cfg_QueueSize (sch_cfg s2) then (Returned None, enqueueTaskLocked key task s2)
                            else (if wait then Waits else Returned (Some ErrCapacityExceeded), s2))
               | None \<Rightarrow>
                   if sch_queued s1 < Cfg_QueueSize (sch_cfg s1) then (Returned None, enqueueTaskLocked key task s1)
                   else (if wait then Waits else Returned (Some ErrCapacityExceeded), s1)))"

definition same_pool_node :: "Task \<Rightarrow> Task \<Rightarrow> bool" where
  "same_pool_node task t \<longleftrightarrow>
     Task_LogicalID t = Task_LogicalID task \<and>
     (Task_RunID t \<noteq> Task_RunID task \<or> Task_RunID task = [] \<or> Task_Kind t = Task_Kind task)"

definition isNodeInPoolForPeriodicLocked :: "Task \<Rightarrow> Scheduler \<Rightarrow> bool" where
  "isNodeInPoolForPeriodicLocked task s \<longleftrightarrow>
     Task_LogicalID task \<noteq> [] \<and>
     (list_ex (\<lambda>(execID, pt). same_pool_node task pt) (sch_probingTasks s) \<or>
      list_ex (\<lambda>(run, q). list_ex (same_pool_node task) q) (sch_queues s))"

text \<open>The record of a node gains one task.\<close>

definition touch_record :: "string \<Rightarrow> Task \<Rightarrow> Scheduler \<Rightarrow> Scheduler" where
  "touch_record key task s =
     (let r = gm_get_or zero_record (sch_activeNodes s) key
      in s\<lparr>sch_activeNodes := gm_put (sch_activeNodes s) key
             (r\<lparr>rec_count := rec_count r + 1, rec_active := True, rec_until := zero_time,
                rec_lastRunID := Task_RunID task\<rparr>)\<rparr>)"

definition submitPeriodicDedupe :: "time \<Rightarrow> Task \<Rightarrow> bool \<Rightarrow> Scheduler \<Rightarrow> attempt \<times> Scheduler" where
  "submitPeriodicDedupe now task wait s =
     (if sch_closed s then (Returned (Some ErrSchedulerClosed), s)
      else if Task_RunID task \<in> set (sch_cancelledRuns s) then (Returned (Some ContextCanceled), s)
      else if isNodeInPoolForPeriodicLocked task s then (Returned None, s\<lparr>sch_skipped := sch_skipped s @ [task]\<rparr>)
      else
        (let s1 = pruneActiveNodesLocked now s
         in if sch_queued s1 < Cfg_QueueSize (sch_cfg s1)
            then (Returned None, append_task task (touch_record (task_key task) task s1))
            else (if wait then Waits else Returned (Some ErrCapacityExceeded), s1)))"

subsection \<open>A manual task goes to the front\<close>

definition insert_manual :: "Task \<Rightarrow> Task list \<Rightarrow> Task list" where
  "insert_manual task q = takeWhile is_manual q @ [task] @ dropWhile is_manual q"

definition supersedes :: "Task \<Rightarrow> Task \<Rightarrow> bool" where
  "supersedes task t \<longleftrightarrow> Task_Kind t = Task_Kind task \<or> Task_Kind t = [] \<or> Task_Kind task = []"

text \<open>
  The loop over one queue: tasks of the same node are removed when the new task supersedes them and
  promoted to the front otherwise. It returns the queue and the removed tasks.
\<close>

function promote_queue :: "Task \<Rightarrow> nat \<Rightarrow> Task list \<Rightarrow> Task list \<Rightarrow> Task list \<times> Task list" where
  "promote_queue task i q removed =
     (if i < length q
      then (let t = q ! i
            in if Task_LogicalID t \<noteq> Task_LogicalID task then promote_queue task (i + 1) q removed
               else if supersedes task t then promote_queue task i (remove_nth i q) (removed @ [t])
               else if \<not> is_manual t
                    then promote_queue task (i + 1)
                           (insert_manual (t\<lparr>Task_Mode := EnqueueManualPreemptFront\<rparr>) (remove_nth i q)) removed
               else promote_queue task (i + 1) q removed)
      else (q, removed))"
  by pat_completeness auto

lemma length_remove_nth: "i < length q \<Longrightarrow> length (remove_nth i q) = length q - 1"
  by (simp add: remove_nth_def)

lemma length_insert_manual [simp]: "length (insert_manual t q) = Suc (length q)"
  using takeWhile_dropWhile_id[of is_manual q] length_append[of "takeWhile is_manual q" "dropWhile is_manual q"]
  by (simp add: insert_manual_def)

termination promote_queue
  by (relation "measure (\<lambda>(task, i, q, removed). length q - i)") (auto simp: length_remove_nth)

declare promote_queue.simps [simp del]

text \<open>A superseded task gives back its place in the record of its node.\<close>

definition forget_task :: "(string, activeRecord) gomap \<Rightarrow> Task \<Rightarrow> (string, activeRecord) gomap" where
  "forget_task m t =
     (case gm_get m (task_key t) of
        None \<Rightarrow> m
      | Some r \<Rightarrow>
          if rec_count r - 1 \<le> 0 then gm_del m (task_key t)
          else gm_put m (task_key t) (r\<lparr>rec_count := rec_count r - 1, rec_active := True\<rparr>))"

definition drop_run :: "string \<Rightarrow> Scheduler \<Rightarrow> Scheduler" where
  "drop_run run s =
     (if run \<in> set (sch_runOrder s)
      then (let order = remove1 run (sch_runOrder s)
            in s\<lparr>sch_runOrder := order,
                 sch_runCursor := (if order \<noteq> [] then sch_runCursor s mod length order else 0)\<rparr>)
      else s)"

definition promote_run :: "Task \<Rightarrow> Scheduler \<times> Task list \<Rightarrow> string \<times> Task list \<Rightarrow> Scheduler \<times> Task list" where
  "promote_run task acc rq =
     (case (acc, rq) of ((s, promotedOld), (run, q0)) \<Rightarrow>
        if run = Task_RunID task \<and> Task_RunID task \<noteq> [] then (s, promotedOld)
        else
          (let (q, removed) = promote_queue task 0 q0 [];
               n = int (length removed);
               s1 = s\<lparr>sch_activeNodes := foldl forget_task (sch_activeNodes s) removed,
                      sch_queued := sch_queued s - n, sch_taskCount := sch_taskCount s - n\<rparr>;
               s2 = (if q = [] then drop_run run (s1\<lparr>sch_queues := gm_del (sch_queues s1) run\<rparr>)
                     else s1\<lparr>sch_queues := gm_put (sch_queues s1) run q\<rparr>)
           in (s2, promotedOld @ removed)))"

definition manual_conflict :: "time \<Rightarrow> Task \<Rightarrow> Scheduler \<Rightarrow> bool" where
  "manual_conflict now task s \<longleftrightarrow>
     Task_RunID task \<noteq> [] \<and>
     ((case gm_get (sch_activeNodes s) (task_key task) of
         None \<Rightarrow> False
       | Some r \<Rightarrow> rec_lastRunID r = Task_RunID task \<and> (rec_active r \<or> now < rec_until r)) \<or>
      list_ex (\<lambda>(execID, pt). Task_RunID pt = Task_RunID task \<and> Task_LogicalID pt = Task_LogicalID task \<and>
                              Task_Kind pt = Task_Kind task) (sch_probingTasks s) \<or>
      list_ex (\<lambda>qt. Task_LogicalID qt = Task_LogicalID task \<and> Task_Kind qt = Task_Kind task)
        (queue_of s (Task_RunID task)))"

definition front_task :: "Task \<Rightarrow> Scheduler \<Rightarrow> Scheduler" where
  "front_task task s =
     (let run = Task_RunID task
      in signalLocked
           (s\<lparr>sch_accepted := sch_accepted s @ [task],
              sch_taskCount := sch_taskCount s + 1, sch_callbacks := sch_callbacks s + 1,
              sch_runOrder := run # remove1 run (sch_runOrder s), sch_runCursor := 0,
              sch_queues := gm_put (sch_queues s) run (insert_manual task (queue_of s run)),
              sch_queued := sch_queued s + 1,
              sch_peakQueued := max (sch_peakQueued s) (int32 (sch_queued s + 1))\<rparr>))"

definition submitManualPreemptFront :: "time \<Rightarrow> Task \<Rightarrow> bool \<Rightarrow> Scheduler \<Rightarrow> attempt \<times> Scheduler" where
  "submitManualPreemptFront now task wait s =
     (if sch_closed s then (Returned (Some ErrSchedulerClosed), s)
      else if Task_RunID task \<in> set (sch_cancelledRuns s) then (Returned (Some ContextCanceled), s)
      else
        (let s1 = pruneActiveNodesLocked now s
         in if manual_conflict now task s1 then (Returned (Some ErrNodeConflict), s1)
            else
              (let (s2, promotedOld) = foldl (promote_run task) (s1, []) (sch_queues s1);
                   done = map (\<lambda>t. (t, None)) promotedOld
               in if sch_queued s2 < Cfg_QueueSize (sch_cfg s2)
                  then (let s3 = front_task task (touch_record (task_key task) task s2)
                        in (Returned None, s3\<lparr>sch_returning := sch_returning s3 @ done\<rparr>))
                  else (if wait then Waits else Returned (Some ErrCapacityExceeded),
                        s2\<lparr>sch_returning := sch_returning s2 @ done\<rparr>))))"

definition submit :: "sched_error option \<Rightarrow> time \<Rightarrow> Task \<Rightarrow> bool \<Rightarrow> Scheduler \<Rightarrow> attempt \<times> Scheduler" where
  "submit ctxErr now task wait s =
     (case ctxErr of
        Some e \<Rightarrow> (Returned (Some e), s)
      | None \<Rightarrow>
          if Task_Mode task = EnqueuePeriodicDedupe then submitPeriodicDedupe now task wait s
          else if Task_Mode task = EnqueueManualPreemptFront then submitManualPreemptFront now task wait s
          else submitStrictConflict now task wait s)"

subsection \<open>Executing and completing\<close>

definition dec_count :: "('k, int) gomap \<Rightarrow> 'k \<Rightarrow> ('k, int) gomap" where
  "dec_count m k = (if gm_get_or 0 m k > 1 then gm_put m k (gm_get_or 0 m k - 1) else gm_del m k)"

definition finishTaskExecutionLocked :: "time \<Rightarrow> Task \<Rightarrow> int \<Rightarrow> int option \<Rightarrow> Scheduler \<Rightarrow> Scheduler" where
  "finishTaskExecutionLocked now task execID seq s =
     (let run = Task_RunID task; key = task_key task;
          cancels = (case seq of
                       None \<Rightarrow> sch_runCancels s
                     | Some sq \<Rightarrow>
                         (case gm_get (sch_runCancels s) run of
                            None \<Rightarrow> sch_runCancels s
                          | Some m \<Rightarrow> (if gm_del m sq = [] then gm_del (sch_runCancels s) run
                                       else gm_put (sch_runCancels s) run (gm_del m sq))));
          byRun = gm_get_or 0 (sch_activeByRun s) run - 1
      in signalLocked
           (s\<lparr>sch_runCancels := cancels, sch_probingTasks := gm_del (sch_probingTasks s) execID,
              sch_probingNodes := dec_count (sch_probingNodes s) (Task_LogicalID task),
              sch_activeCount := sch_activeCount s - 1,
              sch_activeByRun := (if byRun = 0 then gm_del (sch_activeByRun s) run
                                  else gm_put (sch_activeByRun s) run byRun),
              sch_activeNodes := (case gm_get (sch_activeNodes s) key of
                                    None \<Rightarrow> sch_activeNodes s
                                  | Some r \<Rightarrow> gm_put (sch_activeNodes s) key
                                                (release_record now (Cfg_NodeTTL (sch_cfg s)) r)),
              sch_taskCount := sch_taskCount s - 1\<rparr>))"

text \<open>
  The two sections of \<open>processTask\<close>: taking a cancel handle, unless the task is cancelled already, and
  the bookkeeping once \<open>Execute\<close> has returned. Each end hands the task to its callback.
\<close>

definition begin_callback :: "int \<Rightarrow> Task \<Rightarrow> sched_error option \<Rightarrow> Scheduler \<Rightarrow> Scheduler" where
  "begin_callback execID task err s =
     s\<lparr>sch_workers := gm_del (sch_workers s) execID, sch_returning := sch_returning s @ [(task, err)]\<rparr>"

definition processTask_start :: "time \<Rightarrow> Task \<Rightarrow> int \<Rightarrow> Scheduler \<Rightarrow> Scheduler" where
  "processTask_start now task execID s =
     (if sch_closed s \<or> Task_RunID task \<in> set (sch_cancelledRuns s)
      then begin_callback execID task (Some ContextCanceled) (finishTaskExecutionLocked now task execID None s)
      else
        (let seq = sch_cancelSequence s; run = Task_RunID task
         in s\<lparr>sch_cancelSequence := seq + 1,
              sch_runCancels := gm_put (sch_runCancels s) run (gm_put (gm_get_or [] (sch_runCancels s) run) seq execID),
              sch_workers := gm_put (sch_workers s) execID (Executing seq)\<rparr>))"

definition processTask_end :: "time \<Rightarrow> Task \<Rightarrow> int \<Rightarrow> int \<Rightarrow> sched_error option \<Rightarrow> Scheduler \<Rightarrow> Scheduler" where
  "processTask_end now task execID seq err s =
     begin_callback execID task err (finishTaskExecutionLocked now task execID (Some seq) s)"

definition completeCallback :: "nat \<Rightarrow> Scheduler \<Rightarrow> Scheduler" where
  "completeCallback i s =
     signalLocked
       (s\<lparr>sch_callbacks := sch_callbacks s - 1, sch_returning := remove_nth i (sch_returning s),
          sch_completed := sch_completed s @ [sch_returning s ! i]\<rparr>)"

subsection \<open>Cancelling and closing\<close>

definition cancel_handles :: "(int, int) gomap \<Rightarrow> int list" where
  "cancel_handles m = map snd m"

definition CancelRun :: "time \<Rightarrow> string \<Rightarrow> Scheduler \<Rightarrow> Scheduler" where
  "CancelRun now runID s =
     (let q = queue_of s runID;
          s1 = s\<lparr>sch_cancelledRuns := runID # sch_cancelledRuns s,
                 sch_cancelledExecs := cancel_handles (gm_get_or [] (sch_runCancels s) runID) @ sch_cancelledExecs s,
                 sch_queues := gm_del (sch_queues s) runID, sch_queued := sch_queued s - int (length q),
                 sch_activeNodes := foldl (release_queued now (Cfg_NodeTTL (sch_cfg s))) (sch_activeNodes s) q\<rparr>;
          s2 = drop_run runID s1
      in signalLocked
           (s2\<lparr>sch_taskCount := sch_taskCount s2 - int (length q),
               sch_returning := sch_returning s2 @ map (\<lambda>t. (t, Some ContextCanceled)) q\<rparr>))"

definition Close :: "time \<Rightarrow> Scheduler \<Rightarrow> Scheduler" where
  "Close now s =
     (if sch_closed s then s
      else
        (let pending = concat (map snd (sch_queues s))
         in signalLocked
              (s\<lparr>sch_closed := True, sch_ctxDone := True, sch_queues := [], sch_runOrder := [], sch_queued := 0,
                 sch_activeNodes := foldl (release_queued now (Cfg_NodeTTL (sch_cfg s))) (sch_activeNodes s) pending,
                 sch_cancelledExecs := concat (map (cancel_handles \<circ> snd) (sch_runCancels s)) @ sch_cancelledExecs s,
                 sch_taskCount := sch_taskCount s - int (length pending),
                 sch_returning := sch_returning s @ map (\<lambda>t. (t, Some ContextCanceled)) pending\<rparr>)))"

text \<open>The conditions under which \<open>Wait\<close> and \<open>Drain\<close> stop waiting.\<close>

definition Wait_ready :: "Scheduler \<Rightarrow> bool" where
  "Wait_ready s \<longleftrightarrow> sch_taskCount s = 0"

definition Drain_ready :: "Scheduler \<Rightarrow> bool" where
  "Drain_ready s \<longleftrightarrow> sch_callbacks s = 0 \<and> sch_activeCount s = 0 \<and> sch_queued s = 0 \<and> sch_dispatcherDone s"

subsection \<open>What the scheduler reports\<close>

record PoolQueueSnapshot =
  Pool_ProbingNodeIDs :: "string list"
  Pool_QueuedNodeIDs :: "string list"
  Pool_ProbingCount :: nat
  Pool_QueuedWaitingCount :: nat
  Pool_QueueNodesCount :: nat

definition collect_queued :: "string list \<Rightarrow> string list \<Rightarrow> Task \<Rightarrow> string list" where
  "collect_queued probing acc t =
     (let nid = Task_LogicalID t in if nid \<noteq> [] \<and> nid \<notin> set acc \<and> nid \<notin> set probing then acc @ [nid] else acc)"

definition SnapshotNodePool :: "Scheduler \<Rightarrow> PoolQueueSnapshot" where
  "SnapshotNodePool s =
     (let probingIDs = sort (map fst (filter (\<lambda>(nid, count). count > 0 \<and> nid \<noteq> []) (sch_probingNodes s)));
          tasks = concat (map (queue_of s) (sch_runOrder s));
          manualIDs = foldl (collect_queued probingIDs) [] (filter is_manual tasks);
          queuedIDs = foldl (collect_queued probingIDs) manualIDs tasks
      in \<lparr>Pool_ProbingNodeIDs = probingIDs, Pool_QueuedNodeIDs = queuedIDs, Pool_ProbingCount = length probingIDs,
          Pool_QueuedWaitingCount = length queuedIDs, Pool_QueueNodesCount = length probingIDs + length queuedIDs\<rparr>)"

definition GetNodePoolState :: "string \<Rightarrow> Scheduler \<Rightarrow> string" where
  "GetNodePoolState logicalID s =
     (if gm_get_or 0 (sch_probingNodes s) logicalID > 0 then ''probing''
      else if list_ex (\<lambda>(run, q). list_ex (\<lambda>t. Task_LogicalID t = logicalID) q) (sch_queues s) then ''queued''
      else ''idle'')"

definition IsNodeInPool :: "string \<Rightarrow> Scheduler \<Rightarrow> bool" where
  "IsNodeInPool logicalID s \<longleftrightarrow> GetNodePoolState logicalID s \<noteq> ''idle''"

end
