(* ===== verification/Probe_Scheduler.thy ===== *)
theory Probe_Scheduler
  imports Probe_Queue
begin

section \<open>Correctness of the probe scheduler\<close>

text \<open>
  The interleavings of the scheduler's critical sections, the invariant they all keep, and an abstract
  pool of tasks that the scheduler refines. Tasks are compared up to their mode, which a manual
  submission may raise while they wait.
\<close>

subsection \<open>Tasks in a map of queues\<close>

definition strip :: "Task \<Rightarrow> Task" where
  "strip t = t\<lparr>Task_Mode := 0\<rparr>"

definition strips :: "Task list \<Rightarrow> Task multiset" where
  "strips ts = image_mset strip (mset ts)"

definition waiting_in :: "(string, Task list) gomap \<Rightarrow> Task multiset" where
  "waiting_in m = strips (concat (map snd m))"

definition running_in :: "(int, Task) gomap \<Rightarrow> Task multiset" where
  "running_in m = strips (map snd m)"

lemma strip_fields [simp]:
  "Task_ID (strip t) = Task_ID t" "Task_RunID (strip t) = Task_RunID t" "Task_LogicalID (strip t) = Task_LogicalID t"
  "Task_Kind (strip t) = Task_Kind t" "task_key (strip t) = task_key t" "strip (strip t) = strip t"
  "strip (t\<lparr>Task_Mode := m\<rparr>) = strip t"
  by (simp_all add: strip_def task_key_def)

lemma strips_simps [simp]:
  "strips [] = {#}" "strips (t # ts) = add_mset (strip t) (strips ts)" "strips (ts @ us) = strips ts + strips us"
  "size (strips ts) = length ts"
  by (simp_all add: strips_def)

lemma waiting_in_simps [simp]: "waiting_in [] = {#}" "waiting_in ((k, q) # m) = strips q + waiting_in m"
  by (simp_all add: waiting_in_def)

lemma waiting_in_put: "gm_ok m \<Longrightarrow> waiting_in (gm_put m k v) + strips (gm_get_or [] m k) = waiting_in m + strips v"
proof (induction m)
  case (Cons kv m)
  obtain k' v' where kv: "kv = (k', v')" by (cases kv)
  from Cons have "waiting_in (gm_put m k v) + strips (gm_get_or [] m k) = waiting_in m + strips v" by (simp add: gm_ok_def)
  then show ?case by (auto simp: kv gm_get_or_def gm_get_def ac_simps)
qed (simp add: gm_get_or_def)

lemma gm_del_notin: "k \<notin> set (map fst m) \<Longrightarrow> gm_del m k = m"
  by (induction m) (auto simp: gm_del_def)

lemma gm_del_Cons: "gm_ok ((k', v') # m) \<Longrightarrow> gm_del ((k', v') # m) k = (if k' = k then m else (k', v') # gm_del m k)"
  using gm_del_notin[of k m] by (auto simp: gm_ok_def gm_del_def)

lemma gm_ok_Cons: "gm_ok ((k, v) # m) \<Longrightarrow> gm_ok m" by (simp add: gm_ok_def)

lemma waiting_in_del: "gm_ok m \<Longrightarrow> waiting_in (gm_del m k) + strips (gm_get_or [] m k) = waiting_in m"
proof (induction m)
  case (Cons kv m)
  obtain k' v' where kv: "kv = (k', v')" by (cases kv)
  from Cons have "waiting_in (gm_del m k) + strips (gm_get_or [] m k) = waiting_in m" by (simp add: gm_ok_def)
  then show ?case using gm_del_Cons[of k' v' m k] Cons.prems by (auto simp: kv gm_get_or_def gm_get_def ac_simps)
qed (simp add: gm_get_or_def gm_del_def)

lemma running_in_put: "gm_get m k = None \<Longrightarrow> running_in (gm_put m k t) = add_mset (strip t) (running_in m)"
  by (simp add: gm_put_new running_in_def)

lemma running_in_del: "gm_ok m \<Longrightarrow> gm_get m k = Some t \<Longrightarrow> add_mset (strip t) (running_in (gm_del m k)) = running_in m"
proof (induction m)
  case (Cons kv m)
  obtain k' v' where kv: "kv = (k', v')" by (cases kv)
  show ?case
  proof (cases "k' = k")
    case True
    then show ?thesis using Cons.prems gm_del_Cons[of k' v' m k] by (simp add: kv running_in_def gm_get_def)
  next
    case False
    then have "add_mset (strip t) (running_in (gm_del m k)) = running_in m"
      using Cons.IH Cons.prems gm_ok_Cons[of k' v' m] by (simp add: kv gm_get_def)
    then show ?thesis using False Cons.prems gm_del_Cons[of k' v' m k]
      by (simp add: kv running_in_def add_mset_commute[of "strip t"])
  qed
qed simp

lemma length_gm_del: "gm_ok m \<Longrightarrow> gm_get m k = Some v \<Longrightarrow> length m = Suc (length (gm_del m k))"
proof (induction m)
  case (Cons kv m)
  obtain k' v' where kv: "kv = (k', v')" by (cases kv)
  with Cons gm_del_Cons[of k' v' m k] gm_ok_Cons[of k' v' m] show ?case by (cases "k' = k") (auto simp: gm_get_def)
qed simp

subsection \<open>Counting maps\<close>

text \<open>A map that counts the tasks of a multiset by some attribute, with no entry for a count of zero.\<close>

definition counts_ok :: "(Task \<Rightarrow> 'k) \<Rightarrow> ('k, int) gomap \<Rightarrow> Task multiset \<Rightarrow> bool" where
  "counts_ok f B M \<longleftrightarrow> gm_ok B \<and>
     (\<forall>k. gm_get_or 0 B k = int (size {#t \<in># M. f t = k#}) \<and> (\<forall>n. gm_get B k = Some n \<longrightarrow> 0 < n))"

lemma gm_get_or_put [simp]: "gm_get_or z (gm_put m k v) k' = (if k' = k then v else gm_get_or z m k')"
  by (simp add: gm_get_or_def)

lemma gm_get_or_del [simp]: "gm_get_or z (gm_del m k) k' = (if k' = k then z else gm_get_or z m k')"
  by (simp add: gm_get_or_def)

lemma counts_ok_inc:
  assumes "counts_ok f B M"
  shows "counts_ok f (gm_put B (f t) (gm_get_or 0 B (f t) + 1)) (add_mset t M)"
  using assms by (auto simp: counts_ok_def)

lemma counts_ok_dec:
  assumes "counts_ok f B (add_mset t M)"
  shows "counts_ok f (dec_count B (f t)) M"
proof -
  have n: "gm_get_or 0 B (f t) = int (size {#u \<in># M. f u = f t#}) + 1" using assms by (simp add: counts_ok_def)
  show ?thesis using assms n unfolding counts_ok_def dec_count_def by (auto split: if_splits)
qed

lemma dec_count_eq:
  assumes "counts_ok f B (add_mset t M)"
  shows "(let n = gm_get_or 0 B (f t) - 1 in if n = 0 then gm_del B (f t) else gm_put B (f t) n) = dec_count B (f t)"
proof -
  have "1 \<le> gm_get_or 0 B (f t)" using assms by (simp add: counts_ok_def)
  then show ?thesis by (auto simp: dec_count_def Let_def)
qed

subsection \<open>The records of the nodes\<close>

definition keyed :: "string \<Rightarrow> Task multiset \<Rightarrow> int" where
  "keyed k M = int (size {#t \<in># M. task_key t = k#})"

definition records_ok :: "(string, activeRecord) gomap \<Rightarrow> Task multiset \<Rightarrow> bool" where
  "records_ok m M \<longleftrightarrow> gm_ok m \<and> (\<forall>k. gm_get m k = None \<longrightarrow> keyed k M = 0) \<and>
     (\<forall>k r. gm_get m k = Some r \<longrightarrow> rec_count r = keyed k M \<and> (rec_active r \<longleftrightarrow> 0 < keyed k M) \<and> k \<noteq> [])"

lemma records_okI:
  assumes "gm_ok m" "\<And>k. gm_get m k = None \<Longrightarrow> keyed k M = 0"
    and "\<And>k r. gm_get m k = Some r \<Longrightarrow> rec_count r = keyed k M \<and> (rec_active r \<longleftrightarrow> 0 < keyed k M) \<and> k \<noteq> []"
  shows "records_ok m M"
  using assms by (simp add: records_ok_def)

lemma records_okD:
  assumes "records_ok m M"
  shows "gm_ok m" "gm_get m k = None \<Longrightarrow> keyed k M = 0" "gm_get m k = Some r \<Longrightarrow> rec_count r = keyed k M"
    "gm_get m k = Some r \<Longrightarrow> rec_active r \<longleftrightarrow> 0 < keyed k M" "gm_get m k = Some r \<Longrightarrow> k \<noteq> []"
  using assms by (auto simp: records_ok_def)

lemma keyed_simps [simp]:
  "keyed k {#} = 0" "keyed k (add_mset t M) = (if task_key t = k then 1 else 0) + keyed k M"
  by (simp_all add: keyed_def)

lemma keyed_nonneg: "0 \<le> keyed k M"
  by (simp add: keyed_def)

lemma task_key_nonempty [simp]: "task_key t \<noteq> []"
  by (simp add: task_key_def makeNodeKey_def)

lemma records_ok_count:
  assumes "records_ok m M"
  shows "rec_count (gm_get_or zero_record m k) = keyed k M"
  using records_okD(2,3)[OF assms] by (cases "gm_get m k") (auto simp: gm_get_or_def zero_record_def)

lemma records_ok_put:
  assumes "records_ok m M" "\<And>k. k \<noteq> task_key t \<Longrightarrow> keyed k M' = keyed k M"
    and "rec_count r = keyed (task_key t) M'" "rec_active r \<longleftrightarrow> 0 < keyed (task_key t) M'"
  shows "records_ok (gm_put m (task_key t) r) M'"
proof (rule records_okI)
  show "gm_ok (gm_put m (task_key t) r)" using records_okD(1)[OF assms(1)] by simp
next
  fix k assume "gm_get (gm_put m (task_key t) r) k = None"
  then show "keyed k M' = 0" using records_okD(2)[OF assms(1), of k] assms(2)[of k] by (simp split: if_splits)
next
  fix k r' assume "gm_get (gm_put m (task_key t) r) k = Some r'"
  then show "rec_count r' = keyed k M' \<and> (rec_active r' \<longleftrightarrow> 0 < keyed k M') \<and> k \<noteq> []"
    using records_okD(3-5)[OF assms(1), of k r'] assms(2)[of k] assms(3,4) by (simp split: if_splits)
qed

lemma records_ok_del:
  assumes "records_ok m M" "\<And>k'. k' \<noteq> k \<Longrightarrow> keyed k' M' = keyed k' M" "keyed k M' = 0"
  shows "records_ok (gm_del m k) M'"
proof (rule records_okI)
  show "gm_ok (gm_del m k)" using records_okD(1)[OF assms(1)] by simp
next
  fix k' assume "gm_get (gm_del m k) k' = None"
  then show "keyed k' M' = 0" using records_okD(2)[OF assms(1), of k'] assms(2)[of k'] assms(3) by (simp split: if_splits)
next
  fix k' r' assume "gm_get (gm_del m k) k' = Some r'"
  then show "rec_count r' = keyed k' M' \<and> (rec_active r' \<longleftrightarrow> 0 < keyed k' M') \<and> k' \<noteq> []"
    using records_okD(3-5)[OF assms(1), of k' r'] assms(2)[of k'] by (simp split: if_splits)
qed

lemma records_ok_touch:
  assumes "records_ok m M" "r = gm_get_or zero_record m (task_key t)"
  shows "records_ok (gm_put m (task_key t) (r\<lparr>rec_count := rec_count r + 1, rec_active := True, rec_until := u, rec_lastRunID := run\<rparr>))
           (add_mset t M)"
  by (rule records_ok_put[OF assms(1)]) (simp_all add: assms(2) records_ok_count[OF assms(1)] add_pos_nonneg keyed_nonneg)

lemma records_ok_fresh:
  assumes "records_ok m M" "keyed (task_key t) M = 0"
  shows "records_ok (gm_put m (task_key t) \<lparr>rec_active = True, rec_count = 1, rec_until = u, rec_lastRunID = run\<rparr>) (add_mset t M)"
  by (rule records_ok_put[OF assms(1)]) (simp_all add: assms(2))

lemma records_ok_release:
  assumes "records_ok m (add_mset t M)"
  shows "records_ok (release_queued now ttl m t) M"
  unfolding release_queued_def
proof (rule records_ok_put[OF assms])
  have c: "rec_count (gm_get_or zero_record m (task_key t)) = keyed (task_key t) M + 1"
    using records_ok_count[OF assms, of "task_key t"] by simp
  have "0 \<le> keyed (task_key t) M" by (rule keyed_nonneg)
  with c show "rec_count (release_record now ttl (gm_get_or zero_record m (task_key t))) = keyed (task_key t) M"
    "rec_active (release_record now ttl (gm_get_or zero_record m (task_key t))) \<longleftrightarrow> 0 < keyed (task_key t) M"
    by (auto simp: release_record_def)
qed simp

lemma records_ok_forget:
  assumes "records_ok m (add_mset t M)"
  shows "records_ok (forget_task m t) M"
proof -
  have nn: "0 \<le> keyed (task_key t) M" by (rule keyed_nonneg)
  obtain r where r: "gm_get m (task_key t) = Some r" "rec_count r = keyed (task_key t) M + 1"
    using records_okD(2,3)[OF assms, of "task_key t"] nn by (cases "gm_get m (task_key t)") auto
  show ?thesis
  proof (cases "rec_count r - 1 \<le> 0")
    case True
    then have "records_ok (gm_del m (task_key t)) M"
      using r nn by (intro records_ok_del[OF assms]) auto
    with True r show ?thesis by (simp add: forget_task_def)
  next
    case False
    then have "records_ok (gm_put m (task_key t) (r\<lparr>rec_count := rec_count r - 1, rec_active := True\<rparr>)) M"
      using r by (intro records_ok_put[OF assms]) auto
    with False r show ?thesis by (simp add: forget_task_def)
  qed
qed

lemma records_ok_drop_inactive:
  assumes "records_ok m M" "gm_get m k = Some r" "\<not> rec_active r"
  shows "records_ok (gm_del m k) M"
proof (rule records_ok_del[OF assms(1)])
  show "keyed k M = 0" using records_okD(4)[OF assms(1,2)] assms(3) keyed_nonneg[of k M] by linarith
qed simp

lemma records_ok_releases: "records_ok m (strips ts + M) \<Longrightarrow> records_ok (foldl (release_queued now ttl) m ts) M"
proof (induction ts arbitrary: m)
  case (Cons t ts)
  from Cons.prems have "records_ok (release_queued now ttl m (strip t)) (strips ts + M)"
    by (intro records_ok_release) simp
  moreover have "release_queued now ttl m (strip t) = release_queued now ttl m t" by (simp add: release_queued_def)
  ultimately show ?case using Cons.IH by simp
qed simp

lemma records_ok_forgets: "records_ok m (strips ts + M) \<Longrightarrow> records_ok (foldl forget_task m ts) M"
proof (induction ts arbitrary: m)
  case (Cons t ts)
  from Cons.prems have "records_ok (forget_task m (strip t)) (strips ts + M)" by (intro records_ok_forget) simp
  moreover have "forget_task m (strip t) = forget_task m t" unfolding forget_task_def strip_fields ..
  ultimately show ?case using Cons.IH by simp
qed simp

lemma gm_ok_filter: "gm_ok m \<Longrightarrow> gm_ok (filter P m)"
  by (induction m) (auto simp: gm_ok_def)

lemma records_ok_filter:
  assumes "records_ok m M" "\<And>k r. rec_active r \<Longrightarrow> P (k, r)"
  shows "records_ok (filter P m) M"
proof -
  have ok: "gm_ok m" "gm_ok (filter P m)" using records_okD(1)[OF assms(1)] gm_ok_filter by blast+
  show ?thesis
  proof (rule records_okI[OF ok(2)])
    fix k assume none: "gm_get (filter P m) k = None"
    show "keyed k M = 0"
    proof (cases "gm_get m k")
      case (Some r)
      then have "\<not> rec_active r"
        using none assms(2)[of r k] gm_get_iff[OF ok(1)] gm_get_iff[OF ok(2), of k r] by auto
      then show ?thesis using records_okD(4)[OF assms(1) Some] keyed_nonneg[of k M] by linarith
    qed (rule records_okD(2)[OF assms(1)])
  next
    fix k r assume "gm_get (filter P m) k = Some r"
    then have "gm_get m k = Some r" using gm_get_iff[OF ok(1)] gm_get_iff[OF ok(2)] by simp
    then show "rec_count r = keyed k M \<and> (rec_active r \<longleftrightarrow> 0 < keyed k M) \<and> k \<noteq> []"
      using records_okD(3-5)[OF assms(1)] by blast
  qed
qed

subsection \<open>Eviction keeps the records bounded\<close>

lemma oldest_none:
  "fst (foldl older_inactive acc m) = [] \<Longrightarrow> \<forall>(k, r) \<in> set m. k \<noteq> [] \<Longrightarrow>
   fst acc = [] \<and> (\<forall>(k, r) \<in> set m. rec_active r)"
proof (induction m arbitrary: acc)
  case (Cons kr m)
  from Cons.IH[of "older_inactive acc kr"] Cons.prems
  have "fst (older_inactive acc kr) = []" "\<forall>(k, r) \<in> set m. rec_active r" by auto
  moreover have "fst kr \<noteq> []" using Cons.prems by auto
  ultimately show ?case by (auto simp: older_inactive_def split: prod.splits if_splits)
qed simp

lemma oldest_some:
  "fst (foldl older_inactive acc m) = k \<Longrightarrow> k = fst acc \<or> (\<exists>r. (k, r) \<in> set m \<and> \<not> rec_active r)"
proof (induction m arbitrary: acc)
  case (Cons kr m)
  from Cons.IH[of "older_inactive acc kr"] Cons.prems
  have "k = fst (older_inactive acc kr) \<or> (\<exists>r. (k, r) \<in> set m \<and> \<not> rec_active r)" by simp
  then show ?case by (auto simp: older_inactive_def split: prod.splits if_splits)
qed simp

lemma oldest_inactive_spec:
  assumes "gm_ok m" "\<forall>(k, r) \<in> set m. k \<noteq> []"
  shows "fst (oldest_inactive m) = [] \<Longrightarrow> \<forall>(k, r) \<in> set m. rec_active r"
    and "fst (oldest_inactive m) \<noteq> [] \<Longrightarrow> \<exists>r. gm_get m (fst (oldest_inactive m)) = Some r \<and> \<not> rec_active r"
  using oldest_none[of "([], zero_time)" m] oldest_some[of "([], zero_time)" m] assms
  by (auto simp: oldest_inactive_def gm_get_iff)

lemma records_keys:
  assumes "records_ok m M"
  shows "\<forall>(k, r) \<in> set m. k \<noteq> [] \<and> (rec_active r \<longleftrightarrow> 0 < keyed k M)"
  using records_okD(4,5)[OF assms] gm_get_iff[OF records_okD(1)[OF assms]] by auto

lemma evict_oldest_spec:
  assumes "records_ok m M" "length m \<le> n"
  shows "records_ok (evict_oldest n limit m) M \<and>
         (int (length (evict_oldest n limit m)) \<le> limit \<or> (\<forall>(k, r) \<in> set (evict_oldest n limit m). rec_active r)) \<and>
         length (evict_oldest n limit m) \<le> length m"
  using assms
proof (induction n arbitrary: m)
  case (Suc n)
  have keys: "\<forall>(k, r) \<in> set m. k \<noteq> []" using records_keys[OF Suc.prems(1)] by auto
  note spec = oldest_inactive_spec[OF records_okD(1)[OF Suc.prems(1)] keys]
  show ?case
  proof (cases "int (length m) > limit \<and> fst (oldest_inactive m) \<noteq> []")
    case True
    then obtain r where r: "gm_get m (fst (oldest_inactive m)) = Some r" "\<not> rec_active r" using spec(2) by blast
    note del = records_ok_drop_inactive[OF Suc.prems(1) r] length_gm_del[OF records_okD(1)[OF Suc.prems(1)] r(1)]
    from Suc.IH[OF del(1)] del(2) Suc.prems(2) True show ?thesis by simp
  next
    case False
    then show ?thesis using Suc.prems(1) spec(1) by (auto simp: not_less)
  qed
qed auto

lemma keyed_sum_le: "(\<Sum>k \<in> K. keyed k M) \<le> int (size M)" if "finite K"
proof (induction M)
  case (add t M)
  have "(\<Sum>k \<in> K. keyed k (add_mset t M)) = (\<Sum>k \<in> K. if k = task_key t then 1 else 0) + (\<Sum>k \<in> K. keyed k M)"
    by (auto simp: sum.distrib intro!: arg_cong2[where f = "(+)"] sum.cong)
  also have "(\<Sum>k \<in> K. if k = task_key t then 1 else (0::int)) \<le> 1" using that by (simp add: sum.delta)
  finally show ?case using add by simp
qed simp

lemma active_records_bound:
  assumes "records_ok m M" "\<forall>(k, r) \<in> set m. rec_active r"
  shows "length m \<le> size M"
proof -
  have pos: "\<forall>k \<in> fst ` set m. 1 \<le> keyed k M" using records_keys[OF assms(1)] assms(2) by fastforce
  have "int (length m) = int (card (fst ` set m))"
    using records_okD(1)[OF assms(1)] by (simp add: gm_ok_def distinct_card flip: set_map)
  also have "\<dots> = (\<Sum>k \<in> fst ` set m. 1)" by simp
  also have "\<dots> \<le> (\<Sum>k \<in> fst ` set m. keyed k M)" using pos by (intro sum_mono) auto
  also have "\<dots> \<le> int (size M)" by (rule keyed_sum_le) simp
  finally show ?thesis by simp
qed

subsection \<open>Queues and their order\<close>

definition manual_first :: "Task list \<Rightarrow> bool" where
  "manual_first q \<longleftrightarrow> list_all (\<lambda>t. \<not> is_manual t) (dropWhile is_manual q)"

definition queue_ok :: "string \<Rightarrow> Task list \<Rightarrow> bool" where
  "queue_ok run q \<longleftrightarrow> q \<noteq> [] \<and> (\<forall>t \<in> set q. Task_RunID t = run) \<and> manual_first q"

definition queues_ok :: "(string, Task list) gomap \<Rightarrow> string list \<Rightarrow> int \<Rightarrow> bool" where
  "queues_ok Q order n \<longleftrightarrow> gm_ok Q \<and> (\<forall>run q. gm_get Q run = Some q \<longrightarrow> queue_ok run q) \<and>
     distinct order \<and> (\<forall>run. run \<in> set order \<longleftrightarrow> gm_get Q run \<noteq> None) \<and> n = int (size (waiting_in Q))"

lemma manual_first_Nil [simp]: "manual_first []" by (simp add: manual_first_def)

lemma manual_first_none: "list_all (\<lambda>t. \<not> is_manual t) q \<Longrightarrow> manual_first q"
  unfolding manual_first_def list_all_iff by (blast dest: set_dropWhileD)

lemma manual_first_tl: "manual_first q \<Longrightarrow> manual_first (tl q)"
  by (cases q) (auto simp: manual_first_def[of "_ # _"] intro: manual_first_none simp flip: manual_first_def split: if_splits)

lemma manual_first_append: "manual_first q \<Longrightarrow> \<not> is_manual t \<Longrightarrow> manual_first (q @ [t])"
  by (induction q) (auto simp: manual_first_def split: if_splits)

lemma manual_first_split:
  assumes "list_all is_manual a" "list_all (\<lambda>t. \<not> is_manual t) b"
  shows "manual_first (a @ b)"
proof -
  have "dropWhile is_manual (a @ b) = dropWhile is_manual b"
    using assms(1) by (intro dropWhile_append2) (simp add: list_all_iff)
  with manual_first_none[OF assms(2)] show ?thesis by (simp add: manual_first_def)
qed

lemma manual_first_insert:
  assumes "manual_first q" "is_manual t"
  shows "manual_first (insert_manual t q)"
proof -
  have "list_all is_manual (takeWhile is_manual q @ [t])" using assms(2) by (auto simp: list_all_iff dest: set_takeWhileD)
  from manual_first_split[OF this assms(1)[unfolded manual_first_def]] show ?thesis by (simp add: insert_manual_def)
qed

lemma set_remove_nth: "set (remove_nth i q) \<subseteq> set q"
  by (auto simp: remove_nth_def dest: in_set_takeD in_set_dropD)

lemma strips_remove_nth:
  assumes "i < length q"
  shows "add_mset (strip (q ! i)) (strips (remove_nth i q)) = strips q"
proof -
  have "strips q = strips (take i q @ q ! i # drop (Suc i) q)" using id_take_nth_drop[OF assms] by simp
  then show ?thesis by (simp add: remove_nth_def)
qed

lemma manual_first_remove: "manual_first q \<Longrightarrow> manual_first (remove_nth i q)"
proof (induction q arbitrary: i)
  case (Cons t q)
  show ?case
  proof (cases i)
    case 0
    with manual_first_tl[OF Cons.prems] show ?thesis by (simp add: remove_nth_def)
  next
    case (Suc j)
    have r: "remove_nth i (t # q) = t # remove_nth j q" by (simp add: Suc remove_nth_def)
    show ?thesis
    proof (cases "is_manual t")
      case True
      then show ?thesis using Cons by (simp add: r manual_first_def)
    next
      case False
      then show ?thesis using Cons.prems set_remove_nth[of j q] by (auto simp: r manual_first_def list_all_iff)
    qed
  qed
qed (simp add: remove_nth_def)

lemma queues_ok_queue: "queues_ok Q order n \<Longrightarrow> gm_get Q run = Some q \<Longrightarrow> queue_ok run q"
  by (simp add: queues_ok_def)

lemma queues_ok_runs: "queues_ok Q order n \<Longrightarrow> t \<in> set (gm_get_or [] Q run) \<Longrightarrow> Task_RunID t = run"
  by (cases "gm_get Q run") (auto simp: queues_ok_def queue_ok_def gm_get_or_def)

lemma queues_ok_empty: "queues_ok Q order n \<Longrightarrow> gm_get_or [] Q run = [] \<longleftrightarrow> run \<notin> set order"
  by (cases "gm_get Q run") (auto simp: queues_ok_def queue_ok_def gm_get_or_def)

lemma queues_ok_manual: "queues_ok Q order n \<Longrightarrow> manual_first (gm_get_or [] Q run)"
  by (cases "gm_get Q run") (auto simp: queues_ok_def queue_ok_def gm_get_or_def)

lemma queues_ok_put:
  assumes "queues_ok Q order n" "queue_ok run q" "distinct order'" "set order' = insert run (set order)"
    and "n' = n - int (length (gm_get_or [] Q run)) + int (length q)"
  shows "queues_ok (gm_put Q run q) order' n'"
proof -
  have "gm_ok Q" using assms(1) by (simp add: queues_ok_def)
  from arg_cong[OF waiting_in_put[OF this, of run q], of size] assms
  have "n' = int (size (waiting_in (gm_put Q run q)))" by (simp add: queues_ok_def)
  then show ?thesis using assms by (auto simp: queues_ok_def)
qed

lemma queues_ok_del:
  assumes "queues_ok Q order n" "distinct order'" "set order' = set order - {run}"
    and "n' = n - int (length (gm_get_or [] Q run))"
  shows "queues_ok (gm_del Q run) order' n'"
proof -
  have "gm_ok Q" using assms(1) by (simp add: queues_ok_def)
  from arg_cong[OF waiting_in_del[OF this, of run], of size] assms
  have "n' = int (size (waiting_in (gm_del Q run)))" by (simp add: queues_ok_def)
  then show ?thesis using assms by (auto simp: queues_ok_def)
qed

lemma queues_ok_append:
  assumes "queues_ok Q order n" "\<not> is_manual t"
  defines "q \<equiv> gm_get_or [] Q (Task_RunID t)"
  shows "queues_ok (gm_put Q (Task_RunID t) (q @ [t])) (if q = [] then order @ [Task_RunID t] else order) (n + 1)"
proof (rule queues_ok_put[OF assms(1)])
  note e = queues_ok_empty[OF assms(1), of "Task_RunID t", folded q_def]
  show "queue_ok (Task_RunID t) (q @ [t])"
    using queues_ok_runs[OF assms(1)] queues_ok_manual[OF assms(1)] assms(2)
    by (auto simp: queue_ok_def q_def intro: manual_first_append)
  show "distinct (if q = [] then order @ [Task_RunID t] else order)" using assms(1) e by (simp add: queues_ok_def)
  show "set (if q = [] then order @ [Task_RunID t] else order) = insert (Task_RunID t) (set order)" using e by auto
qed (simp add: q_def)

lemma queues_ok_front:
  assumes "queues_ok Q order n" "is_manual t"
  shows "queues_ok (gm_put Q (Task_RunID t) (insert_manual t (gm_get_or [] Q (Task_RunID t))))
           (Task_RunID t # remove1 (Task_RunID t) order) (n + 1)"
proof (rule queues_ok_put[OF assms(1)])
  let ?q = "gm_get_or [] Q (Task_RunID t)"
  have "set (insert_manual t ?q) \<subseteq> insert t (set ?q)"
    by (auto simp: insert_manual_def dest: set_takeWhileD set_dropWhileD)
  then show "queue_ok (Task_RunID t) (insert_manual t ?q)"
    using queues_ok_runs[OF assms(1)] manual_first_insert[OF queues_ok_manual[OF assms(1)] assms(2)]
    by (auto simp: queue_ok_def insert_manual_def)
qed (use assms(1) in \<open>auto simp: queues_ok_def\<close>)

lemma strips_insert_manual [simp]: "strips (insert_manual t q) = add_mset (strip t) (strips q)"
proof -
  have "strips (takeWhile is_manual q) + strips (dropWhile is_manual q) = strips q"
    by (simp only: strips_simps(3)[symmetric] takeWhile_dropWhile_id)
  then show ?thesis by (simp add: insert_manual_def)
qed

lemma promote_queue_spec:
  "promote_queue task i q removed = (q', removed') \<Longrightarrow>
   strips q' + strips removed' = strips q + strips removed \<and> (manual_first q \<longrightarrow> manual_first q')"
proof (induction task i q removed rule: promote_queue.induct)
  case (1 task i q removed)
  show ?case
  proof (cases "i < length q")
    case False
    with 1(5) show ?thesis by (simp add: promote_queue.simps)
  next
    case True
    let ?t = "q ! i"
    note nth = strips_remove_nth[OF True]
    consider (other) "Task_LogicalID ?t \<noteq> Task_LogicalID task"
      | (drop) "Task_LogicalID ?t = Task_LogicalID task" "supersedes task ?t"
      | (lift) "Task_LogicalID ?t = Task_LogicalID task" "\<not> supersedes task ?t" "\<not> is_manual ?t"
      | (manual) "Task_LogicalID ?t = Task_LogicalID task" "\<not> supersedes task ?t" "is_manual ?t" by blast
    then show ?thesis
    proof cases
      case other
      with 1(1)[OF True refl] 1(5) True show ?thesis by (simp add: promote_queue.simps[of task i] Let_def)
    next
      case drop
      then have "promote_queue task i (remove_nth i q) (removed @ [?t]) = (q', removed')"
        using 1(5) True by (simp add: promote_queue.simps[of task i q] Let_def)
      from 1(2)[OF True refl _ drop(2) this] drop(1)
      have "strips q' + strips removed' = strips (remove_nth i q) + strips (removed @ [?t])"
        "manual_first (remove_nth i q) \<longrightarrow> manual_first q'" by simp_all
      with nth manual_first_remove[of q i] show ?thesis by (auto simp: ac_simps)
    next
      case lift
      let ?u = "?t\<lparr>Task_Mode := EnqueueManualPreemptFront\<rparr>"
      have "promote_queue task (i + 1) (insert_manual ?u (remove_nth i q)) removed = (q', removed')"
        using 1(5) True lift by (simp add: promote_queue.simps[of task i q] Let_def)
      from 1(3)[OF True refl _ lift(2,3) this] lift(1)
      have IH: "strips q' + strips removed' = strips (insert_manual ?u (remove_nth i q)) + strips removed"
        "manual_first (insert_manual ?u (remove_nth i q)) \<longrightarrow> manual_first q'" by simp_all
      from IH nth manual_first_insert[OF manual_first_remove, of q ?u i] show ?thesis by (simp add: is_manual_def)
    next
      case manual
      then have "promote_queue task (i + 1) q removed = (q', removed')"
        using 1(5) True by (simp add: promote_queue.simps[of task i q] Let_def)
      from 1(4)[OF True refl _ manual(2) _ this] manual(1,3) show ?thesis by simp
    qed
  qed
qed

lemma strips_member: "t \<in> set q \<Longrightarrow> strip t \<in># strips q"
  by (auto simp: strips_def)

lemma promote_queue_ok:
  assumes "promote_queue task 0 q [] = (q', removed)" "queue_ok run q"
  shows "strips q' + strips removed = strips q" "q' \<noteq> [] \<Longrightarrow> queue_ok run q'" "length q' + length removed = length q"
proof -
  from promote_queue_spec[OF assms(1)] have sp: "strips q' + strips removed = strips q" "manual_first q'"
    using assms(2) by (simp_all add: queue_ok_def)
  then show "strips q' + strips removed = strips q" by simp
  from arg_cong[OF sp(1), of size] show "length q' + length removed = length q" by simp
  have "Task_RunID t = run" if "t \<in> set q'" for t
  proof -
    have "strip t \<in># strips q" using strips_member[OF that] sp(1) by (metis union_iff)
    then obtain u where "u \<in> set q" "strip u = strip t" by (auto simp: strips_def)
    then show ?thesis using assms(2) strip_fields(2) by (metis queue_ok_def)
  qed
  with sp(2) show "q' \<noteq> [] \<Longrightarrow> queue_ok run q'" by (simp add: queue_ok_def)
qed

subsection \<open>Goroutines and their handles\<close>

definition active_ok :: "(int, Task) gomap \<Rightarrow> (int, worker) gomap \<Rightarrow> (string, int) gomap \<Rightarrow> (string, int) gomap \<Rightarrow> int \<Rightarrow> int \<Rightarrow> bool" where
  "active_ok P W B N nxt c \<longleftrightarrow> gm_ok P \<and> gm_ok W \<and> counts_ok Task_RunID B (running_in P) \<and>
     counts_ok Task_LogicalID N (running_in P) \<and> c = int (size (running_in P)) \<and>
     (\<forall>e. gm_get W e = None \<longleftrightarrow> gm_get P e = None) \<and> (\<forall>e. gm_get P e \<noteq> None \<longrightarrow> e \<le> nxt)"

definition handles_ok :: "(string, (int, int) gomap) gomap \<Rightarrow> (int, worker) gomap \<Rightarrow> (int, Task) gomap \<Rightarrow> int \<Rightarrow> bool" where
  "handles_ok H W P sq \<longleftrightarrow>
     (\<forall>run n e. gm_get (gm_get_or [] H run) n = Some e \<longrightarrow> n < sq) \<and>
     (\<forall>e n t. gm_get W e = Some (Executing n) \<longrightarrow> gm_get P e = Some t \<longrightarrow>
        gm_get (gm_get_or [] H (Task_RunID t)) n = Some e)"

lemma active_ok_spawn:
  assumes "active_ok P W B N nxt c"
  shows "active_ok (gm_put P (nxt + 1) t) (gm_put W (nxt + 1) w)
           (gm_put B (Task_RunID t) (gm_get_or 0 B (Task_RunID t) + 1))
           (gm_put N (Task_LogicalID t) (gm_get_or 0 N (Task_LogicalID t) + 1)) (nxt + 1) (c + 1)"
    and "gm_get P (nxt + 1) = None"
proof -
  have "\<not> nxt + 1 \<le> nxt" by simp
  then show new: "gm_get P (nxt + 1) = None" using assms unfolding active_ok_def by blast
  have bound: "e \<le> nxt + 1" if "gm_get P e \<noteq> None" for e using assms that unfolding active_ok_def by fastforce
  note run = running_in_put[OF new, of t]
  from assms counts_ok_inc[of Task_RunID B "running_in P" "strip t"] counts_ok_inc[of Task_LogicalID N "running_in P" "strip t"]
  show "active_ok (gm_put P (nxt + 1) t) (gm_put W (nxt + 1) w)
           (gm_put B (Task_RunID t) (gm_get_or 0 B (Task_RunID t) + 1))
           (gm_put N (Task_LogicalID t) (gm_get_or 0 N (Task_LogicalID t) + 1)) (nxt + 1) (c + 1)"
    using bound by (simp add: active_ok_def run)
qed

lemma active_ok_finish:
  assumes "active_ok P W B N nxt c" "gm_get P e = Some t"
  shows "active_ok (gm_del P e) (gm_del W e)
           (if gm_get_or 0 B (Task_RunID t) - 1 = 0 then gm_del B (Task_RunID t)
            else gm_put B (Task_RunID t) (gm_get_or 0 B (Task_RunID t) - 1))
           (dec_count N (Task_LogicalID t)) nxt (c - 1)"
proof -
  have ok: "gm_ok P" using assms(1) by (simp add: active_ok_def)
  note del = running_in_del[OF ok assms(2)]
  have B: "counts_ok Task_RunID B (add_mset (strip t) (running_in (gm_del P e)))"
    and N: "counts_ok Task_LogicalID N (add_mset (strip t) (running_in (gm_del P e)))"
    using assms(1) by (simp_all add: active_ok_def del)
  have "c - 1 = int (size (running_in (gm_del P e)))" using assms(1) arg_cong[OF del, of size] by (simp add: active_ok_def)
  then show ?thesis
    using assms(1) counts_ok_dec[OF B] counts_ok_dec[OF N] dec_count_eq[OF B]
    by (auto simp: active_ok_def Let_def)
qed

lemma active_ok_mark: "active_ok P W B N nxt c \<Longrightarrow> gm_get P e \<noteq> None \<Longrightarrow> active_ok P (gm_put W e w) B N nxt c"
  by (auto simp: active_ok_def)

subsection \<open>The invariant\<close>

definition cfg_ok :: "Config \<Rightarrow> bool" where
  "cfg_ok cfg \<longleftrightarrow> 1 \<le> Cfg_Concurrency cfg \<and> Cfg_Concurrency cfg \<le> HardMaxConcurrency \<and> 1 \<le> Cfg_RunConcurrency cfg \<and>
     Cfg_RunConcurrency cfg \<le> Cfg_Concurrency cfg \<and> 1 \<le> Cfg_QueueSize cfg \<and> 0 < Cfg_NodeTTL cfg"

definition pool_limit :: "Scheduler \<Rightarrow> int" where
  "pool_limit s = Cfg_QueueSize (sch_cfg s) + Cfg_Concurrency (sch_cfg s)"

definition pooled :: "Scheduler \<Rightarrow> Task multiset" where
  "pooled s = waiting_in (sch_queues s) + running_in (sch_probingTasks s)"

definition sched_inv :: "Scheduler \<Rightarrow> bool" where
  "sched_inv s \<longleftrightarrow>
     cfg_ok (sch_cfg s) \<and>
     queues_ok (sch_queues s) (sch_runOrder s) (sch_queued s) \<and> sch_queued s \<le> Cfg_QueueSize (sch_cfg s) \<and>
     active_ok (sch_probingTasks s) (sch_workers s) (sch_activeByRun s) (sch_probingNodes s) (sch_nextExecID s) (sch_activeCount s) \<and>
     sch_activeCount s \<le> Cfg_Concurrency (sch_cfg s) \<and>
     handles_ok (sch_runCancels s) (sch_workers s) (sch_probingTasks s) (sch_cancelSequence s) \<and>
     records_ok (sch_activeNodes s) (pooled s) \<and> int (length (sch_activeNodes s)) \<le> pool_limit s + 1 \<and>
     sch_taskCount s = sch_queued s + sch_activeCount s \<and>
     sch_callbacks s = sch_taskCount s + int (length (sch_returning s)) \<and>
     strips (sch_accepted s) = pooled s + strips (map fst (sch_returning s)) + strips (map fst (sch_completed s)) \<and>
     (sch_closed s \<longrightarrow> sch_queues s = [] \<and> sch_ctxDone s)"

lemma sched_invD:
  assumes "sched_inv s"
  shows "cfg_ok (sch_cfg s)" "queues_ok (sch_queues s) (sch_runOrder s) (sch_queued s)"
    "active_ok (sch_probingTasks s) (sch_workers s) (sch_activeByRun s) (sch_probingNodes s) (sch_nextExecID s) (sch_activeCount s)"
    "handles_ok (sch_runCancels s) (sch_workers s) (sch_probingTasks s) (sch_cancelSequence s)"
    "records_ok (sch_activeNodes s) (pooled s)" "sch_queued s \<le> Cfg_QueueSize (sch_cfg s)"
    "sch_activeCount s \<le> Cfg_Concurrency (sch_cfg s)" "int (length (sch_activeNodes s)) \<le> pool_limit s + 1"
    "sch_taskCount s = sch_queued s + sch_activeCount s"
    "sch_callbacks s = sch_taskCount s + int (length (sch_returning s))"
    "strips (sch_accepted s) = pooled s + strips (map fst (sch_returning s)) + strips (map fst (sch_completed s))"
    "sch_closed s \<Longrightarrow> sch_queues s = []" "sch_closed s \<Longrightarrow> sch_ctxDone s"
  using assms by (auto simp: sched_inv_def)

lemma pooled_size: "sched_inv s \<Longrightarrow> int (size (pooled s)) = sch_queued s + sch_activeCount s"
  by (simp add: sched_inv_def pooled_def queues_ok_def active_ok_def)

lemma signal_inv [simp]: "sched_inv (signalLocked s) = sched_inv s"
  by (simp add: sched_inv_def signalLocked_def pool_limit_def pooled_def)

lemma NewScheduler_inv: "NewScheduler cfg = Inr s \<Longrightarrow> sched_inv s"
  by (auto simp: NewScheduler_def Let_def sched_inv_def cfg_ok_def queues_ok_def active_ok_def handles_ok_def records_ok_def
      pooled_def pool_limit_def counts_ok_def running_in_def gm_get_or_def MinConcurrency_def HardMaxConcurrency_def
      DefaultConcurrency_def DefaultQueueSize_def DefaultNodeTTL_def second_def split: if_splits)

subsection \<open>Every section keeps the invariant\<close>

lemma set_records:
  assumes "sched_inv s" "records_ok m (pooled s)" "int (length m) \<le> pool_limit s + 1"
  shows "sched_inv (s\<lparr>sch_activeNodes := m\<rparr>)"
  using assms by (simp add: sched_inv_def pool_limit_def pooled_def)

lemma prune_spec:
  assumes "sched_inv s"
  obtains m where "pruneActiveNodesLocked now s = s\<lparr>sch_activeNodes := m\<rparr>" "records_ok m (pooled s)"
    "int (length m) \<le> pool_limit s" "sched_inv (s\<lparr>sch_activeNodes := m\<rparr>)"
proof -
  let ?f = "filter (\<lambda>(key, r). \<not> (\<not> rec_active r \<and> \<not> now < rec_until r)) (sch_activeNodes s)"
  let ?m = "evict_oldest (length ?f) (pool_limit s) ?f"
  have f: "records_ok ?f (pooled s)" by (rule records_ok_filter[OF sched_invD(5)[OF assms]]) simp
  note spec = evict_oldest_spec[OF f order_refl, of "pool_limit s"]
  have "int (length ?m) \<le> pool_limit s"
  proof (cases "\<forall>(k, r) \<in> set ?m. rec_active r")
    case True
    have "int (length ?m) \<le> int (size (pooled s))" using active_records_bound[OF _ True] spec by simp
    also have "\<dots> \<le> pool_limit s" using pooled_size[OF assms] sched_invD(6,7)[OF assms] by (simp add: pool_limit_def)
    finally show ?thesis .
  qed (use spec in blast)
  moreover have "pruneActiveNodesLocked now s = s\<lparr>sch_activeNodes := ?m\<rparr>"
    by (simp add: pruneActiveNodesLocked_def pool_limit_def Let_def)
  ultimately show thesis using that[of ?m] spec set_records[OF assms, of ?m] by auto
qed

lemma append_inv:
  assumes "sched_inv s" "records_ok m (add_mset (strip t) (pooled s))" "int (length m) \<le> pool_limit s + 1"
    and "sch_queued s < Cfg_QueueSize (sch_cfg s)" "\<not> is_manual t" "\<not> sch_closed s"
  shows "sched_inv (append_task t (s\<lparr>sch_activeNodes := m\<rparr>))"
proof -
  note q = queues_ok_append[OF sched_invD(2)[OF assms(1)] assms(5)]
  let ?Q = "gm_put (sch_queues s) (Task_RunID t) (gm_get_or [] (sch_queues s) (Task_RunID t) @ [t])"
  have "gm_ok (sch_queues s)" using sched_invD(2)[OF assms(1)] by (simp add: queues_ok_def)
  from waiting_in_put[OF this, of "Task_RunID t" "gm_get_or [] (sch_queues s) (Task_RunID t) @ [t]"]
  have w: "waiting_in ?Q = add_mset (strip t) (waiting_in (sch_queues s))" by simp
  show ?thesis
    using assms q by (auto simp: sched_inv_def append_task_def signalLocked_def queue_of_def Let_def pooled_def w pool_limit_def split: if_splits)
qed

lemma front_inv:
  assumes "sched_inv s" "records_ok m (add_mset (strip t) (pooled s))" "int (length m) \<le> pool_limit s + 1"
    and "sch_queued s < Cfg_QueueSize (sch_cfg s)" "is_manual t" "\<not> sch_closed s"
  shows "sched_inv (front_task t (s\<lparr>sch_activeNodes := m\<rparr>))"
proof -
  note q = queues_ok_front[OF sched_invD(2)[OF assms(1)] assms(5)]
  let ?Q = "gm_put (sch_queues s) (Task_RunID t) (insert_manual t (gm_get_or [] (sch_queues s) (Task_RunID t)))"
  have "gm_ok (sch_queues s)" using sched_invD(2)[OF assms(1)] by (simp add: queues_ok_def)
  from waiting_in_put[OF this, of "Task_RunID t" "insert_manual t (gm_get_or [] (sch_queues s) (Task_RunID t))"]
  have w: "waiting_in ?Q = add_mset (strip t) (waiting_in (sch_queues s))" by simp
  show ?thesis
    using assms q by (simp add: sched_inv_def front_task_def signalLocked_def queue_of_def Let_def pooled_def w pool_limit_def)
qed

lemma length_gm_put: "length (gm_put m k v) = (if gm_get m k = None then Suc (length m) else length m)"
  by (induction m k v rule: gm_put.induct) (auto simp: gm_get_def)

lemma touch_spec:
  assumes "records_ok (sch_activeNodes s) M" "int (length (sch_activeNodes s)) \<le> n"
  obtains m where "touch_record (task_key t) t s = s\<lparr>sch_activeNodes := m\<rparr>" "records_ok m (add_mset (strip t) M)"
    "int (length m) \<le> n + 1"
proof -
  let ?r = "gm_get_or zero_record (sch_activeNodes s) (task_key t)"
  let ?m = "gm_put (sch_activeNodes s) (task_key t)
              (?r\<lparr>rec_count := rec_count ?r + 1, rec_active := True, rec_until := zero_time, rec_lastRunID := Task_RunID t\<rparr>)"
  have "records_ok ?m (add_mset (strip t) M)"
    using records_ok_touch[OF assms(1), where r = ?r and t = "strip t" and u = zero_time and run = "Task_RunID t"] by simp
  moreover have "int (length ?m) \<le> n + 1" using assms(2) by (simp add: length_gm_put)
  ultimately show thesis using that[of ?m] by (simp add: touch_record_def Let_def)
qed

lemma submitStrictConflict_inv:
  assumes "sched_inv s" "\<not> is_manual t"
  shows "sched_inv (snd (submitStrictConflict now t wait s))"
proof -
  obtain m where m: "pruneActiveNodesLocked now s = s\<lparr>sch_activeNodes := m\<rparr>" "records_ok m (pooled s)"
    "int (length m) \<le> pool_limit s" "sched_inv (s\<lparr>sch_activeNodes := m\<rparr>)" using prune_spec[OF assms(1)] .
  let ?new = "\<lparr>rec_active = True, rec_count = 1, rec_until = zero_time, rec_lastRunID = Task_RunID t\<rparr>"
  have enq: "sched_inv (enqueueTaskLocked (task_key t) t (s\<lparr>sch_activeNodes := m'\<rparr>))"
    if "records_ok m' (pooled s)" "int (length m') \<le> pool_limit s" "gm_get m' (task_key t) = None"
      "sch_queued s < Cfg_QueueSize (sch_cfg s)" "\<not> sch_closed s" for m'
  proof -
    have "records_ok (gm_put m' (task_key t) ?new) (add_mset (strip t) (pooled s))"
      using records_ok_fresh[OF that(1), where t = "strip t" and u = zero_time and run = "Task_RunID t"] records_okD(2)[OF that(1,3)] by simp
    from append_inv[OF assms(1) this _ that(4) assms(2) that(5)] that(2)
    show ?thesis by (simp add: enqueueTaskLocked_def length_gm_put)
  qed
  show ?thesis
  proof (cases "gm_get m (task_key t)")
    case None
    then show ?thesis using assms(1) m enq[OF m(2,3)] by (simp add: submitStrictConflict_def Let_def)
  next
    case (Some r)
    show ?thesis
    proof (cases "rec_active r \<or> now < rec_until r")
      case True
      then show ?thesis using assms(1) m Some by (simp add: submitStrictConflict_def Let_def)
    next
      case False
      then have d: "records_ok (gm_del m (task_key t)) (pooled s)" using records_ok_drop_inactive[OF m(2) Some] by simp
      have len: "int (length (gm_del m (task_key t))) \<le> pool_limit s"
        using length_gm_del[OF records_okD(1)[OF m(2)] Some] m(3) by simp
      show ?thesis
        using assms(1) m False Some enq[OF d len] set_records[OF assms(1) d] len
        by (simp add: submitStrictConflict_def Let_def)
    qed
  qed
qed

lemma submitPeriodicDedupe_inv:
  assumes "sched_inv s" "\<not> is_manual t"
  shows "sched_inv (snd (submitPeriodicDedupe now t wait s))"
proof -
  obtain m where m: "pruneActiveNodesLocked now s = s\<lparr>sch_activeNodes := m\<rparr>" "records_ok m (pooled s)"
    "int (length m) \<le> pool_limit s" "sched_inv (s\<lparr>sch_activeNodes := m\<rparr>)" using prune_spec[OF assms(1)] .
  obtain m' where m': "touch_record (task_key t) t (s\<lparr>sch_activeNodes := m\<rparr>) = s\<lparr>sch_activeNodes := m'\<rparr>"
    "records_ok m' (add_mset (strip t) (pooled s))" "int (length m') \<le> pool_limit s + 1"
    using touch_spec[of "s\<lparr>sch_activeNodes := m\<rparr>" "pooled s" "pool_limit s" t] m(2,3) by auto
  have "sched_inv (s\<lparr>sch_skipped := x\<rparr>)" for x using assms(1) by (simp add: sched_inv_def pooled_def pool_limit_def)
  with append_inv[OF assms(1) m'(2,3) _ assms(2)] m assms(1) m'(1) show ?thesis
    by (simp add: submitPeriodicDedupe_def Let_def)
qed

end
