(* ===== verification/Probe_Steps.thy ===== *)
theory Probe_Steps
  imports Probe_Scheduler
begin

section \<open>The steps of the probe scheduler\<close>

text \<open>
  The remaining sections keep the invariant; the step relation collects them all, and the properties
  hold in every state that some interleaving reaches.
\<close>

subsection \<open>Manual submissions\<close>

definition superseded :: "Scheduler \<Rightarrow> Task list \<Rightarrow> Scheduler" where
  "superseded s old = s\<lparr>sch_returning := sch_returning s @ map (\<lambda>t. (t, None)) old\<rparr>"

lemma length_forgets: "length (foldl forget_task m ts) \<le> length m"
proof (induction ts arbitrary: m)
  case (Cons t ts)
  have "length (forget_task m t) \<le> length m"
    by (auto simp: forget_task_def length_gm_put gm_del_def split: option.split)
  with Cons[of "forget_task m t"] show ?case by simp
qed simp

lemma drop_run_eq:
  "drop_run run s = s\<lparr>sch_runOrder := remove1 run (sch_runOrder s), sch_runCursor := sch_runCursor (drop_run run s)\<rparr>"
  by (simp add: drop_run_def Let_def remove1_idem)

definition same_frame :: "Scheduler \<Rightarrow> Scheduler \<Rightarrow> bool" where
  "same_frame s s' \<longleftrightarrow> sch_cfg s' = sch_cfg s \<and> sch_closed s' = sch_closed s \<and> sch_queued s' \<le> sch_queued s \<and>
     length (sch_activeNodes s') \<le> length (sch_activeNodes s) \<and> sch_returning s' = sch_returning s"

lemma promote_run_step:
  assumes inv: "sched_inv (superseded s old)" and q0: "gm_get (sch_queues s) run = Some q0" and opn: "\<not> sch_closed s"
    and step: "promote_run task (s, old) (run, q0) = (s', old')"
  shows "sched_inv (superseded s' old') \<and> same_frame s s' \<and>
         (\<forall>r. r \<noteq> run \<longrightarrow> gm_get (sch_queues s') r = gm_get (sch_queues s) r)"
proof (cases "run = Task_RunID task \<and> Task_RunID task \<noteq> []")
  case True
  then show ?thesis using inv step by (auto simp: promote_run_def same_frame_def)
next
  case False
  obtain q removed where pq: "promote_queue task 0 q0 [] = (q, removed)" by fastforce
  have Q: "queues_ok (sch_queues s) (sch_runOrder s) (sch_queued s)" using sched_invD(2)[OF inv] by (simp add: superseded_def)
  note ok = promote_queue_ok[OF pq queues_ok_queue[OF Q q0]]
  have gok: "gm_ok (sch_queues s)" and dist: "distinct (sch_runOrder s)" using Q by (simp_all add: queues_ok_def)
  have get: "gm_get_or [] (sch_queues s) run = q0" using q0 by (simp add: gm_get_or_def)
  define Q' where "Q' = (if q = [] then gm_del (sch_queues s) run else gm_put (sch_queues s) run q)"
  define order' where "order' = (if q = [] then remove1 run (sch_runOrder s) else sch_runOrder s)"
  define m' where "m' = foldl forget_task (sch_activeNodes s) removed"
  define n where "n = int (length removed)"
  obtain cur where s': "s' = s\<lparr>sch_activeNodes := m', sch_queued := sch_queued s - n, sch_taskCount := sch_taskCount s - n,
      sch_queues := Q', sch_runOrder := order', sch_runCursor := cur\<rparr>" and old': "old' = old @ removed"
  proof (cases "q = []")
    case True
    with step False pq show thesis
      using that[of "sch_runCursor (drop_run run (s\<lparr>sch_activeNodes := m', sch_queued := sch_queued s - n,
          sch_taskCount := sch_taskCount s - n, sch_queues := gm_del (sch_queues s) run\<rparr>))"]
        drop_run_eq[of run "s\<lparr>sch_activeNodes := m', sch_queued := sch_queued s - n,
          sch_taskCount := sch_taskCount s - n, sch_queues := gm_del (sch_queues s) run\<rparr>"]
      by (auto simp: promote_run_def Let_def Q'_def order'_def m'_def n_def)
  next
    case q: False
    with step False pq that[of "sch_runCursor s"] show thesis
      by (auto simp: promote_run_def Let_def Q'_def order'_def m'_def n_def)
  qed
  have w: "waiting_in (sch_queues s) = waiting_in Q' + strips removed"
  proof (cases "q = []")
    case True
    then show ?thesis using waiting_in_del[OF gok, of run] ok(1) by (simp add: Q'_def get)
  next
    case False
    have "waiting_in Q' + strips removed + strips q = waiting_in (sch_queues s) + strips q"
      using waiting_in_put[OF gok, of run q] False by (simp add: Q'_def get ok(1)[symmetric] ac_simps)
    then show ?thesis by simp
  qed
  have Q'ok: "queues_ok Q' order' (sch_queued s - n)"
  proof (cases "q = []")
    case True
    then show ?thesis using queues_ok_del[OF Q, of "remove1 run (sch_runOrder s)" run] dist ok(3)
      by (simp add: Q'_def order'_def n_def get)
  next
    case False
    have "run \<in> set (sch_runOrder s)" using Q q0 by (simp add: queues_ok_def)
    then show ?thesis using False queues_ok_put[OF Q ok(2)[OF False] dist] ok(3)[symmetric]
      by (simp add: Q'_def order'_def n_def get insert_absorb)
  qed
  have recs: "records_ok m' (pooled s')"
    using sched_invD(5)[OF inv] unfolding m'_def
    by (intro records_ok_forgets) (simp add: superseded_def pooled_def s' w ac_simps)
  have len: "length m' \<le> length (sch_activeNodes s)" unfolding m'_def by (rule length_forgets)
  have acc: "strips (map fst (map (\<lambda>t. (t, None)) ts)) = strips ts" for ts :: "Task list" by (simp add: o_def)
  have "sched_inv (superseded s' old')"
    using inv Q'ok recs len opn unfolding sched_inv_def superseded_def s' old' pooled_def pool_limit_def
    by (simp add: w n_def o_def ac_simps)
  then show ?thesis by (auto simp: same_frame_def s' n_def len Q'_def)
qed

lemma promote_runs:
  assumes "sched_inv (superseded s old)" "\<not> sch_closed s" "distinct (map fst rqs)"
    and "\<forall>(r, q) \<in> set rqs. gm_get (sch_queues s) r = Some q"
    and "foldl (promote_run task) (s, old) rqs = (s', old')"
  shows "sched_inv (superseded s' old') \<and> same_frame s s'"
  using assms
proof (induction rqs arbitrary: s old)
  case Nil
  then show ?case by (simp add: same_frame_def)
next
  case (Cons rq rqs)
  obtain run q0 where rq: "rq = (run, q0)" by (cases rq)
  obtain s1 old1 where st: "promote_run task (s, old) (run, q0) = (s1, old1)" by fastforce
  have "gm_get (sch_queues s) run = Some q0" using Cons.prems(4) rq by auto
  note step = promote_run_step[OF Cons.prems(1) this Cons.prems(2) st]
  have "\<forall>(r, q) \<in> set rqs. gm_get (sch_queues s1) r = Some q"
  proof (clarify)
    fix r q assume rq': "(r, q) \<in> set rqs"
    then have "r \<in> fst ` set rqs" by (rule rev_image_eqI) simp
    then have "r \<noteq> run" using Cons.prems(3) by (auto simp: rq)
    moreover have "gm_get (sch_queues s) r = Some q" using Cons.prems(4) rq' by auto
    ultimately show "gm_get (sch_queues s1) r = Some q" using step by simp
  qed
  with Cons.IH[of s1 old1] Cons.prems(2,3,5) step st have "sched_inv (superseded s' old') \<and> same_frame s1 s'"
    by (simp add: rq same_frame_def)
  with step show ?case by (auto simp: same_frame_def)
qed

lemma submitManualPreemptFront_inv:
  assumes "sched_inv s" "is_manual t"
  shows "sched_inv (snd (submitManualPreemptFront now t wait s))"
proof (cases "sch_closed s \<or> Task_RunID t \<in> set (sch_cancelledRuns s)")
  case True
  then show ?thesis using assms(1) by (auto simp: submitManualPreemptFront_def)
next
  case False
  obtain m where m: "pruneActiveNodesLocked now s = s\<lparr>sch_activeNodes := m\<rparr>" "records_ok m (pooled s)"
    "int (length m) \<le> pool_limit s" "sched_inv (s\<lparr>sch_activeNodes := m\<rparr>)" using prune_spec[OF assms(1)] .
  let ?s1 = "s\<lparr>sch_activeNodes := m\<rparr>"
  obtain s2 old where fold: "foldl (promote_run t) (?s1, []) (sch_queues s) = (s2, old)" by fastforce
  have gok: "gm_ok (sch_queues s)" using sched_invD(2)[OF assms(1)] by (simp add: queues_ok_def)
  have "sched_inv (superseded s2 old)" and frame: "same_frame ?s1 s2"
    using promote_runs[OF _ _ _ _ fold] m(4) gok False gm_get_iff[OF gok]
    by (auto simp: superseded_def gm_ok_def)
  then have inv2: "sched_inv (superseded s2 old)" by simp
  let ?t2 = "superseded s2 old"
  have lim: "int (length (sch_activeNodes ?t2)) \<le> pool_limit ?t2"
    using frame m(3) by (simp add: same_frame_def superseded_def pool_limit_def)
  obtain m' where m': "touch_record (task_key t) t ?t2 = ?t2\<lparr>sch_activeNodes := m'\<rparr>"
    "records_ok m' (add_mset (strip t) (pooled ?t2))" "int (length m') \<le> pool_limit ?t2 + 1"
    using touch_spec[OF sched_invD(5)[OF inv2] lim] by blast
  have front: "sched_inv (front_task t (?t2\<lparr>sch_activeNodes := m'\<rparr>))" if "sch_queued s2 < Cfg_QueueSize (sch_cfg s2)"
    using front_inv[OF inv2 m'(2,3)] that assms(2) False frame by (simp add: superseded_def same_frame_def)
  have swap: "(front_task t (touch_record (task_key t) t s2))\<lparr>sch_returning := sch_returning (front_task t (touch_record (task_key t) t s2)) @
      map (\<lambda>t. (t, None)) old\<rparr> = front_task t (?t2\<lparr>sch_activeNodes := m'\<rparr>)"
    unfolding m'(1)[symmetric]
    by (simp add: superseded_def front_task_def touch_record_def signalLocked_def Let_def queue_of_def)
  show ?thesis
    using False m(1,4) fold inv2 front swap
    by (simp add: submitManualPreemptFront_def Let_def superseded_def)
qed

lemma submit_inv: "sched_inv s \<Longrightarrow> sched_inv (snd (submit ctxErr now t wait s))"
  using submitStrictConflict_inv[of s t] submitPeriodicDedupe_inv[of s t] submitManualPreemptFront_inv[of s t]
  by (auto simp: submit_def is_manual_def EnqueuePeriodicDedupe_def EnqueueManualPreemptFront_def split: option.split)

subsection \<open>Dispatching\<close>

lemma remove_nth_distinct:
  assumes "distinct xs" "i < length xs"
  shows "distinct (remove_nth i xs)" "set (remove_nth i xs) = set xs - {xs ! i}"
proof -
  have xs: "xs = take i xs @ xs ! i # drop (Suc i) xs" using assms(2) by (rule id_take_nth_drop)
  have "distinct (take i xs @ xs ! i # drop (Suc i) xs)" using assms(1) xs by simp
  then show "distinct (remove_nth i xs)" by (auto simp: remove_nth_def)
  have "set xs = insert (xs ! i) (set (remove_nth i xs))" using arg_cong[OF xs, of set] by (simp add: remove_nth_def)
  moreover have "xs ! i \<notin> set (remove_nth i xs)"
    using \<open>distinct (take i xs @ xs ! i # drop (Suc i) xs)\<close> by (auto simp: remove_nth_def)
  ultimately show "set (remove_nth i xs) = set xs - {xs ! i}" by auto
qed

lemma pop_front_spec:
  assumes "sched_inv s" "i < length (sch_runOrder s)" "sch_runOrder s ! i = run"
  obtains Q' order' cur t where "pop_front i run emptied other s =
      (t, signalLocked (s\<lparr>sch_queued := sch_queued s - 1, sch_queues := Q', sch_runOrder := order', sch_runCursor := cur\<rparr>))"
    "queues_ok Q' order' (sch_queued s - 1)" "waiting_in (sch_queues s) = add_mset (strip t) (waiting_in Q')"
    "queue_of s run = t # tl (queue_of s run)"
proof -
  note Q = sched_invD(2)[OF assms(1)]
  have gok: "gm_ok (sch_queues s)" and dist: "distinct (sch_runOrder s)" using Q by (simp_all add: queues_ok_def)
  have mem: "run \<in> set (sch_runOrder s)" using assms(2,3) nth_mem by blast
  obtain q where q0: "gm_get (sch_queues s) run = Some q" using Q mem by (auto simp: queues_ok_def)
  from queues_ok_queue[OF Q this] obtain t rest where q: "q = t # rest" by (cases q) (auto simp: queue_ok_def)
  have get: "gm_get_or [] (sch_queues s) run = t # rest" using q0 q by (simp add: gm_get_or_def)
  have rest: "rest \<noteq> [] \<Longrightarrow> queue_ok run rest"
    using queues_ok_queue[OF Q q0] manual_first_tl[of q] by (auto simp: q queue_ok_def)
  show thesis
  proof (cases "rest = []")
    case True
    let ?Q' = "gm_del (sch_queues s) run" and ?o = "remove_nth i (sch_runOrder s)"
    have "queues_ok ?Q' ?o (sch_queued s - 1)"
      using remove_nth_distinct[OF dist assms(2)] assms(3) get True by (intro queues_ok_del[OF Q]) simp_all
    moreover have "waiting_in (sch_queues s) = add_mset (strip t) (waiting_in ?Q')"
      using waiting_in_del[OF gok, of run] True get by simp
    ultimately show thesis using True get
      by (intro that[where Q' = ?Q' and order' = ?o and t = t and cur = "if ?o \<noteq> [] then emptied ?o else 0"])
        (simp_all add: pop_front_def queue_of_def Let_def)
  next
    case False
    let ?Q' = "gm_put (sch_queues s) run rest"
    have "queues_ok ?Q' (sch_runOrder s) (sch_queued s - 1)"
      using mem get by (intro queues_ok_put[OF Q rest[OF False] dist]) (simp_all add: insert_absorb)
    moreover have "waiting_in (sch_queues s) = add_mset (strip t) (waiting_in ?Q')"
      using waiting_in_put[OF gok, of run rest] get by simp
    ultimately show thesis using False get
      by (intro that[where Q' = ?Q' and order' = "sch_runOrder s" and t = t and cur = other])
        (simp_all add: pop_front_def queue_of_def Let_def)
  qed
qed

lemma first_manual_Some:
  assumes "first_manual s = Some (i, run)"
  shows "i < length (sch_runOrder s)" "sch_runOrder s ! i = run" "queue_of s run \<noteq> []" "is_manual (hd (queue_of s run))"
  using assms by (cases "queue_of s run"; auto simp: first_manual_def find_Some_iff nth_enumerate_eq)+

lemma first_eligible_Some:
  assumes "first_eligible s = Some (i, run)"
  shows "i < length (sch_runOrder s)" "sch_runOrder s ! i = run" "queue_of s run \<noteq> []"
    "gm_get_or 0 (sch_activeByRun s) run < run_limit s"
  using assms by (auto simp: first_eligible_def find_Some_iff Let_def intro!: mod_less_divisor)

lemma nextEligible_spec:
  assumes "sched_inv s" "nextEligibleLocked s = Some (t, s1)"
  obtains Q' order' cur where
    "s1 = signalLocked (s\<lparr>sch_queued := sch_queued s - 1, sch_queues := Q', sch_runOrder := order', sch_runCursor := cur\<rparr>)"
    "queues_ok Q' order' (sch_queued s - 1)" "waiting_in (sch_queues s) = add_mset (strip t) (waiting_in Q')"
proof (cases "first_manual s")
  case (Some ir)
  obtain i run where ir: "ir = (i, run)" by (cases ir)
  note fm = first_manual_Some[OF Some[unfolded ir]]
  have pop: "pop_front i run (\<lambda>order. sch_runCursor s mod length order) (sch_runCursor s) s = (t, s1)"
    using assms(2) Some ir by (simp add: nextEligibleLocked_def)
  show thesis
    by (rule pop_front_spec[OF assms(1) fm(1,2), of "\<lambda>order. sch_runCursor s mod length order" "sch_runCursor s"])
      (use that pop in auto)
next
  case None
  then obtain i run where ir: "first_eligible s = Some (i, run)"
    using assms(2) by (auto simp: nextEligibleLocked_def split: option.splits)
  note fe = first_eligible_Some[OF ir]
  have pop: "pop_front i run (\<lambda>order. i mod length order) ((i + 1) mod length (sch_runOrder s)) s = (t, s1)"
    using assms(2) None ir by (simp add: nextEligibleLocked_def)
  show thesis
    by (rule pop_front_spec[OF assms(1) fe(1,2), of "\<lambda>order. i mod length order" "(i + 1) mod length (sch_runOrder s)"])
      (use that pop in auto)
qed

lemma handles_ok_spawn: "handles_ok H W P n \<Longrightarrow> gm_get P e = None \<Longrightarrow> handles_ok H (gm_put W e Spawned) (gm_put P e t) n"
  by (auto simp: handles_ok_def)

lemma dispatch_inv:
  assumes "sched_inv s"
  shows "sched_inv (dispatch s)"
proof (cases "sch_closed s \<or> sch_activeCount s \<ge> Cfg_Concurrency (sch_cfg s) \<or> sch_queued s = 0 \<or> nextEligibleLocked s = None")
  case True
  have "sched_inv (s\<lparr>sch_dispatcherDone := True\<rparr>)" using assms by (simp add: sched_inv_def pooled_def pool_limit_def)
  with True assms show ?thesis by (auto simp: dispatch_def)
next
  case False
  then obtain t s1 where ne: "nextEligibleLocked s = Some (t, s1)" by auto
  from nextEligible_spec[OF assms ne] obtain Q' order' cur where s1:
    "s1 = signalLocked (s\<lparr>sch_queued := sch_queued s - 1, sch_queues := Q', sch_runOrder := order', sch_runCursor := cur\<rparr>)"
    "queues_ok Q' order' (sch_queued s - 1)" "waiting_in (sch_queues s) = add_mset (strip t) (waiting_in Q')" .
  note sp = active_ok_spawn(1)[OF sched_invD(3)[OF assms], of t Spawned] active_ok_spawn(2)[OF sched_invD(3)[OF assms]]
  note h = handles_ok_spawn[OF sched_invD(4)[OF assms] sp(2), of t]
  have run: "running_in (gm_put (sch_probingTasks s) (sch_nextExecID s + 1) t) = add_mset (strip t) (running_in (sch_probingTasks s))"
    by (rule running_in_put[OF sp(2)])
  show ?thesis
    using False ne assms s1(2,3) sp(1) h
    by (simp add: dispatch_def s1(1) signalLocked_def Let_def sched_inv_def pooled_def pool_limit_def run)
qed

subsection \<open>Executing and completing\<close>

definition drop_handle :: "Scheduler \<Rightarrow> Task \<Rightarrow> int option \<Rightarrow> (string, (int, int) gomap) gomap" where
  "drop_handle s t sq =
     (case sq of
        None \<Rightarrow> sch_runCancels s
      | Some n \<Rightarrow> (case gm_get (sch_runCancels s) (Task_RunID t) of
                    None \<Rightarrow> sch_runCancels s
                  | Some m \<Rightarrow> (if gm_del m n = [] then gm_del (sch_runCancels s) (Task_RunID t)
                               else gm_put (sch_runCancels s) (Task_RunID t) (gm_del m n))))"

lemma drop_handle_get:
  "gm_get (gm_get_or [] (drop_handle s t sq) run) n =
     (if run = Task_RunID t \<and> sq = Some n then None else gm_get (gm_get_or [] (sch_runCancels s) run) n)"
proof (cases "\<exists>k m. sq = Some k \<and> gm_get (sch_runCancels s) (Task_RunID t) = Some m")
  case True
  then obtain k m where km: "sq = Some k" "gm_get (sch_runCancels s) (Task_RunID t) = Some m" by blast
  have "gm_get m n = None" if "gm_del m k = []" "k \<noteq> n" using that gm_get_del[of m k n] by simp
  with km show ?thesis by (auto simp: drop_handle_def gm_get_or_def split: if_splits)
next
  case False
  then show ?thesis by (auto simp: drop_handle_def gm_get_or_def split: option.splits)
qed

lemma handles_ok_finish:
  assumes "handles_ok (sch_runCancels s) W P n" "gm_get P e = Some t"
    and "sq = None \<or> (\<exists>k. sq = Some k \<and> gm_get W e = Some (Executing k))"
  shows "handles_ok (drop_handle s t sq) (gm_del W e) (gm_del P e) n"
proof -
  have other: "e' = e" if "gm_get W e' = Some (Executing k)" "gm_get P e' = Some t'" "sq = Some k" "Task_RunID t' = Task_RunID t" for e' t' k
  proof -
    have "gm_get W e = Some (Executing k)" using assms(3) that(3) by auto
    then have "gm_get (gm_get_or [] (sch_runCancels s) (Task_RunID t)) k = Some e"
      using assms(1,2) unfolding handles_ok_def by blast
    moreover have "gm_get (gm_get_or [] (sch_runCancels s) (Task_RunID t)) k = Some e'"
      using assms(1) that unfolding handles_ok_def by metis
    ultimately show ?thesis by simp
  qed
  show ?thesis
    using assms(1) other unfolding handles_ok_def drop_handle_get by (auto split: if_splits)
qed

lemma finish_spec:
  assumes inv: "sched_inv s" and e: "gm_get (sch_probingTasks s) e = Some t"
    and sq: "sq = None \<or> (\<exists>k. sq = Some k \<and> gm_get (sch_workers s) e = Some (Executing k))"
  shows "sched_inv (begin_callback e t err (finishTaskExecutionLocked now t e sq s))"
proof -
  note act = active_ok_finish[OF sched_invD(3)[OF inv] e]
  have gok: "gm_ok (sch_probingTasks s)" using sched_invD(3)[OF inv] by (simp add: active_ok_def)
  note del = running_in_del[OF gok e]
  have pool: "pooled s = add_mset (strip t) (waiting_in (sch_queues s) + running_in (gm_del (sch_probingTasks s) e))"
    by (simp add: pooled_def flip: del)
  note rec = sched_invD(5)[OF inv, unfolded pool]
  obtain r where r: "gm_get (sch_activeNodes s) (task_key t) = Some r"
    using records_okD(2)[OF rec, of "task_key t"] keyed_nonneg[of "task_key t"]
    by (cases "gm_get (sch_activeNodes s) (task_key t)") (fastforce simp: add_nonneg_eq_0_iff)+
  let ?recs = "gm_put (sch_activeNodes s) (task_key t) (release_record now (Cfg_NodeTTL (sch_cfg s)) r)"
  have recs: "records_ok ?recs (waiting_in (sch_queues s) + running_in (gm_del (sch_probingTasks s) e))"
    using records_ok_release[OF rec, of now "Cfg_NodeTTL (sch_cfg s)"] r by (simp add: release_queued_def gm_get_or_def)
  note h = handles_ok_finish[OF sched_invD(4)[OF inv] e sq]
  have fin: "begin_callback e t err (finishTaskExecutionLocked now t e sq s) =
      signalLocked (s\<lparr>sch_runCancels := drop_handle s t sq, sch_probingTasks := gm_del (sch_probingTasks s) e,
        sch_probingNodes := dec_count (sch_probingNodes s) (Task_LogicalID t), sch_activeCount := sch_activeCount s - 1,
        sch_activeByRun := (if gm_get_or 0 (sch_activeByRun s) (Task_RunID t) - 1 = 0 then gm_del (sch_activeByRun s) (Task_RunID t)
            else gm_put (sch_activeByRun s) (Task_RunID t) (gm_get_or 0 (sch_activeByRun s) (Task_RunID t) - 1)),
        sch_activeNodes := ?recs, sch_taskCount := sch_taskCount s - 1,
        sch_workers := gm_del (sch_workers s) e, sch_returning := sch_returning s @ [(t, err)]\<rparr>)"
    by (simp add: begin_callback_def finishTaskExecutionLocked_def drop_handle_def signalLocked_def Let_def r)
  show ?thesis
    using inv act recs h unfolding fin sched_inv_def signal_inv
    by (simp add: signalLocked_def pooled_def pool_limit_def length_gm_put r flip: del)
qed

lemma processTask_start_inv:
  assumes "sched_inv s" "gm_get (sch_workers s) e = Some Spawned" "gm_get (sch_probingTasks s) e = Some t"
  shows "sched_inv (processTask_start now t e s)"
proof (cases "sch_closed s \<or> Task_RunID t \<in> set (sch_cancelledRuns s)")
  case True
  then show ?thesis using finish_spec[OF assms(1,3), of None] by (auto simp: processTask_start_def)
next
  case False
  let ?H = "gm_put (sch_runCancels s) (Task_RunID t)
              (gm_put (gm_get_or [] (sch_runCancels s) (Task_RunID t)) (sch_cancelSequence s) e)"
  note H = sched_invD(4)[OF assms(1)]
  have "handles_ok ?H (gm_put (sch_workers s) e (Executing (sch_cancelSequence s))) (sch_probingTasks s) (sch_cancelSequence s + 1)"
    using H assms(3) unfolding handles_ok_def by (fastforce split: if_splits)
  moreover have "active_ok (sch_probingTasks s) (gm_put (sch_workers s) e (Executing (sch_cancelSequence s))) (sch_activeByRun s)
      (sch_probingNodes s) (sch_nextExecID s) (sch_activeCount s)"
    by (rule active_ok_mark[OF sched_invD(3)[OF assms(1)]]) (simp add: assms(3))
  ultimately show ?thesis using assms(1) False
    by (simp add: processTask_start_def Let_def sched_inv_def pooled_def pool_limit_def)
qed

lemma processTask_end_inv:
  assumes "sched_inv s" "gm_get (sch_workers s) e = Some (Executing k)" "gm_get (sch_probingTasks s) e = Some t"
  shows "sched_inv (processTask_end now t e k err s)"
  unfolding processTask_end_def using finish_spec[OF assms(1,3), of "Some k"] assms(2) by simp

lemma map_remove_nth: "map f (remove_nth i xs) = remove_nth i (map f xs)"
  by (simp add: remove_nth_def take_map drop_map)

lemma completeCallback_inv:
  assumes "sched_inv s" "i < length (sch_returning s)"
  shows "sched_inv (completeCallback i s)"
proof -
  have st: "strips (map fst (sch_returning s)) =
      add_mset (strip (fst (sch_returning s ! i))) (strips (map fst (remove_nth i (sch_returning s))))"
    using strips_remove_nth[of i "map fst (sch_returning s)"] assms(2) by (simp add: map_remove_nth)
  show ?thesis using assms
    by (simp add: completeCallback_def signalLocked_def sched_inv_def pooled_def pool_limit_def st length_remove_nth)
qed

subsection \<open>Cancelling and closing\<close>

lemma length_releases:
  "records_ok m (strips ts + M) \<Longrightarrow> length (foldl (release_queued now ttl) m ts) = length m"
proof (induction ts arbitrary: m)
  case (Cons t ts)
  have rec: "records_ok m (add_mset (strip t) (strips ts + M))" using Cons.prems by simp
  have "0 < keyed (task_key t) (add_mset (strip t) (strips ts + M))"
    using keyed_nonneg[of "task_key t" "strips ts + M"] by simp
  then have "gm_get m (task_key t) \<noteq> None" using records_okD(2)[OF rec, of "task_key t"] by linarith
  moreover have "records_ok (release_queued now ttl m t) (strips ts + M)"
    using records_ok_release[OF rec, of now ttl] by (simp add: release_queued_def)
  ultimately show ?case using Cons.IH by (simp add: release_queued_def length_gm_put)
qed simp

definition cancel_cursor :: "string \<Rightarrow> Scheduler \<Rightarrow> nat" where
  "cancel_cursor run s = sch_runCursor (drop_run run s)"

lemma CancelRun_eq:
  "CancelRun now run s =
     (let q = gm_get_or [] (sch_queues s) run
      in signalLocked
           (s\<lparr>sch_cancelledRuns := run # sch_cancelledRuns s,
              sch_cancelledExecs := cancel_handles (gm_get_or [] (sch_runCancels s) run) @ sch_cancelledExecs s,
              sch_queues := gm_del (sch_queues s) run, sch_queued := sch_queued s - int (length q),
              sch_activeNodes := foldl (release_queued now (Cfg_NodeTTL (sch_cfg s))) (sch_activeNodes s) q,
              sch_runOrder := remove1 run (sch_runOrder s), sch_runCursor := cancel_cursor run s,
              sch_taskCount := sch_taskCount s - int (length q),
              sch_returning := sch_returning s @ map (\<lambda>t. (t, Some ContextCanceled)) q\<rparr>))"
  by (simp add: CancelRun_def drop_run_def cancel_cursor_def Let_def queue_of_def remove1_idem)

lemma CancelRun_inv:
  assumes "sched_inv s"
  shows "sched_inv (CancelRun now run s)"
proof -
  note Q = sched_invD(2)[OF assms]
  have gok: "gm_ok (sch_queues s)" and dist: "distinct (sch_runOrder s)" using Q by (simp_all add: queues_ok_def)
  let ?q = "gm_get_or [] (sch_queues s) run"
  have w: "waiting_in (sch_queues s) = strips ?q + waiting_in (gm_del (sch_queues s) run)"
    using waiting_in_del[OF gok, of run] by (simp add: ac_simps)
  have rec: "records_ok (sch_activeNodes s) (strips ?q + (waiting_in (gm_del (sch_queues s) run) + running_in (sch_probingTasks s)))"
    using sched_invD(5)[OF assms] by (simp add: pooled_def w ac_simps)
  have "queues_ok (gm_del (sch_queues s) run) (remove1 run (sch_runOrder s)) (sch_queued s - int (length ?q))"
    by (rule queues_ok_del[OF Q]) (simp_all add: dist)
  moreover have "sch_closed s \<Longrightarrow> gm_del (sch_queues s) run = []" using sched_invD(12)[OF assms] by (simp add: gm_del_def)
  moreover have "sch_queued s - int (length ?q) \<le> Cfg_QueueSize (sch_cfg s)" using sched_invD(6)[OF assms] by linarith
  ultimately show ?thesis
    using assms records_ok_releases[OF rec] length_releases[OF rec] unfolding CancelRun_eq Let_def signal_inv sched_inv_def
    by (simp add: signalLocked_def pooled_def pool_limit_def w o_def ac_simps)
qed

lemma Close_inv:
  assumes "sched_inv s"
  shows "sched_inv (Close now s)"
proof (cases "sch_closed s")
  case False
  let ?p = "concat (map snd (sch_queues s))"
  have rec: "records_ok (sch_activeNodes s) (strips ?p + running_in (sch_probingTasks s))"
    using sched_invD(5)[OF assms] by (simp add: pooled_def waiting_in_def)
  have n: "sch_queued s = int (length ?p)" using sched_invD(2)[OF assms] by (simp add: queues_ok_def waiting_in_def)
  have "queues_ok [] [] 0" by (simp add: queues_ok_def)
  with False assms records_ok_releases[OF rec] length_releases[OF rec] n show ?thesis
    by (simp add: Close_def Let_def signalLocked_def sched_inv_def pooled_def pool_limit_def waiting_in_def o_def cfg_ok_def ac_simps)
qed (simp add: assms Close_def)

subsection \<open>Interleavings\<close>

text \<open>
  A step is one critical section of one goroutine: a submission, a turn of the dispatcher, the start or
  the end of a task, the end of a callback, a cancellation or a close. The dispatcher may also
  stop because the context of the scheduler is done.
\<close>

inductive sched_step :: "Scheduler \<Rightarrow> Scheduler \<Rightarrow> bool" where
  submits: "sched_step s (snd (submit ctxErr now t wait s))"
| dispatches: "\<not> sch_dispatcherDone s \<Longrightarrow> sched_step s (dispatch s)"
| parent_done: "sched_step s (s\<lparr>sch_ctxDone := True\<rparr>)"
| dispatcher_exits: "sch_ctxDone s \<Longrightarrow> sched_step s (s\<lparr>sch_dispatcherDone := True\<rparr>)"
| starts: "gm_get (sch_workers s) e = Some Spawned \<Longrightarrow> gm_get (sch_probingTasks s) e = Some t \<Longrightarrow>
    sched_step s (processTask_start now t e s)"
| ends: "gm_get (sch_workers s) e = Some (Executing k) \<Longrightarrow> gm_get (sch_probingTasks s) e = Some t \<Longrightarrow>
    sched_step s (processTask_end now t e k err s)"
| returns: "i < length (sch_returning s) \<Longrightarrow> sched_step s (completeCallback i s)"
| cancels: "sched_step s (CancelRun now run s)"
| closes: "sched_step s (Close now s)"

inductive sched_reachable :: "Config \<Rightarrow> Scheduler \<Rightarrow> bool" for cfg where
  initial: "NewScheduler cfg = Inr s \<Longrightarrow> sched_reachable cfg s"
| step: "sched_reachable cfg s \<Longrightarrow> sched_step s s' \<Longrightarrow> sched_reachable cfg s'"

inductive_cases sched_stepE: "sched_step s s'"

lemma sched_step_inv: "sched_step s s' \<Longrightarrow> sched_inv s \<Longrightarrow> sched_inv s'"
proof (induction rule: sched_step.induct)
  case (parent_done s)
  then show ?case by (simp add: sched_inv_def pooled_def pool_limit_def)
next
  case (dispatcher_exits s)
  then show ?case by (simp add: sched_inv_def pooled_def pool_limit_def)
qed (auto intro: submit_inv dispatch_inv processTask_start_inv processTask_end_inv completeCallback_inv CancelRun_inv Close_inv)

lemma reachable_inv: "sched_reachable cfg s \<Longrightarrow> sched_inv s"
  by (induction rule: sched_reachable.induct) (auto intro: NewScheduler_inv sched_step_inv)

subsection \<open>What the sections leave alone\<close>

lemma submit_active: "sch_activeCount (snd (submit ctxErr now t wait s)) = sch_activeCount s \<and>
   sch_closed (snd (submit ctxErr now t wait s)) = sch_closed s"
proof -
  have p: "sch_activeCount (pruneActiveNodesLocked now s) = sch_activeCount s \<and> sch_closed (pruneActiveNodesLocked now s) = sch_closed s"
    for s by (simp add: pruneActiveNodesLocked_def Let_def)
  have d: "sch_activeCount (drop_run run s) = sch_activeCount s \<and> sch_closed (drop_run run s) = sch_closed s" for run s
    by (simp add: drop_run_def Let_def)
  have r: "sch_activeCount (fst (promote_run t acc rq)) = sch_activeCount (fst acc) \<and>
      sch_closed (fst (promote_run t acc rq)) = sch_closed (fst acc)" for acc rq
    by (auto simp: promote_run_def Let_def d split: prod.splits)
  have f: "sch_activeCount (fst (foldl (promote_run t) acc rqs)) = sch_activeCount (fst acc) \<and>
      sch_closed (fst (foldl (promote_run t) acc rqs)) = sch_closed (fst acc)" for acc rqs
    by (induction rqs arbitrary: acc) (auto simp: r)
  have m: "sch_activeCount (snd (submitManualPreemptFront now t wait s)) = sch_activeCount s \<and>
      sch_closed (snd (submitManualPreemptFront now t wait s)) = sch_closed s"
    using f[of "(pruneActiveNodesLocked now s, [])" "sch_queues (pruneActiveNodesLocked now s)"] p[of s]
    by (auto simp: submitManualPreemptFront_def Let_def front_task_def touch_record_def signalLocked_def split: prod.splits)
  show ?thesis using m p[of s]
    by (auto simp: submit_def submitStrictConflict_def submitPeriodicDedupe_def Let_def enqueueTaskLocked_def append_task_def
        touch_record_def signalLocked_def split: option.splits)
qed

subsection \<open>A concrete scheduler\<close>

definition example_cfg :: Config where
  "example_cfg = \<lparr>Cfg_Concurrency = 2, Cfg_RunConcurrency = 0, Cfg_QueueSize = 3, Cfg_NodeTTL = 0\<rparr>"

definition example_task :: "string \<Rightarrow> string \<Rightarrow> int \<Rightarrow> Task" where
  "example_task run node mode =
     \<lparr>Task_ID = node, Task_RunID = run, Task_LogicalID = node, Task_Kind = ''baseline'', Task_Mode = mode\<rparr>"

definition example_new :: Scheduler where
  "example_new = projr (NewScheduler example_cfg)"

definition example_queued :: Scheduler where
  "example_queued = snd (submit None 0 (example_task ''r'' ''b'' 2) False
     (snd (submit None 0 (example_task ''r'' ''a'' 0) False example_new)))"

definition example_running :: Scheduler where
  "example_running = processTask_start 0 (example_task ''r'' ''b'' 2) 1 (dispatch example_queued)"

lemma example_new_reachable: "sched_reachable example_cfg example_new"
proof -
  have "\<not> isl (NewScheduler example_cfg)" by code_simp
  then show ?thesis by (intro initial) (simp add: example_new_def)
qed

lemma example_queued_reachable: "sched_reachable example_cfg example_queued"
  unfolding example_queued_def by (rule sched_reachable.step[OF sched_reachable.step[OF example_new_reachable submits] submits])

lemma example_queued_state:
  "\<not> sch_closed example_queued \<and> sch_queued example_queued = 2 \<and> sch_activeCount example_queued = 0 \<and>
   \<not> sch_dispatcherDone example_queued \<and> Cfg_Concurrency (sch_cfg example_queued) = 2 \<and>
   sch_queues example_queued = [(''r'', [example_task ''r'' ''b'' 2, example_task ''r'' ''a'' 0])] \<and>
   sch_cancelledRuns example_queued = [] \<and> sch_nextExecID example_queued = 0"
  by code_simp

lemma example_running_reachable: "sched_reachable example_cfg example_running"
proof -
  have "gm_get (sch_workers (dispatch example_queued)) 1 = Some Spawned"
    "gm_get (sch_probingTasks (dispatch example_queued)) 1 = Some (example_task ''r'' ''b'' 2)" by code_simp+
  moreover have "sched_reachable example_cfg (dispatch example_queued)"
    using example_queued_reachable example_queued_state by (blast intro: sched_reachable.step dispatches)
  ultimately show ?thesis unfolding example_running_def by (blast intro: sched_reachable.step starts)
qed

subsection \<open>Properties\<close>

text \<open>
  C11. In every reachable state the scheduler stays within its bounds: at most the configured number of
  tasks, never more than 256, execute at a time, at most the configured number wait, the counters
  agree with the queues and the running goroutines, and the record of recent nodes never holds
  more than one entry above both limits together.
\<close>

theorem scheduler_bounds:
  assumes "sched_reachable cfg s"
  shows "sch_activeCount s = int (length (sch_workers s)) \<and> sch_activeCount s \<le> Cfg_Concurrency (sch_cfg s) \<and>
         Cfg_Concurrency (sch_cfg s) \<le> HardMaxConcurrency \<and>
         sch_queued s = int (length (concat (map snd (sch_queues s)))) \<and> sch_queued s \<le> Cfg_QueueSize (sch_cfg s) \<and>
         sch_taskCount s = sch_queued s + sch_activeCount s \<and>
         int (length (sch_activeNodes s)) \<le> Cfg_QueueSize (sch_cfg s) + Cfg_Concurrency (sch_cfg s) + 1"
proof -
  note inv = reachable_inv[OF assms]
  have act: "active_ok (sch_probingTasks s) (sch_workers s) (sch_activeByRun s) (sch_probingNodes s) (sch_nextExecID s) (sch_activeCount s)"
    by (rule sched_invD(3)[OF inv])
  have dom: "dom (gm_get (sch_workers s)) = dom (gm_get (sch_probingTasks s))" using act by (auto simp: active_ok_def dom_def)
  have card: "gm_ok m \<Longrightarrow> card (dom (gm_get m)) = length m" for m :: "('k, 'v) gomap"
    by (simp add: gm_ok_def gm_get_def[abs_def] dom_map_of_conv_image_fst distinct_card flip: set_map)
  have "length (sch_workers s) = length (sch_probingTasks s)"
    using act card[of "sch_workers s"] card[of "sch_probingTasks s"] dom by (simp add: active_ok_def)
  then have "sch_activeCount s = int (length (sch_workers s))" using act by (simp add: active_ok_def running_in_def)
  with inv show ?thesis by (simp add: sched_inv_def pool_limit_def queues_ok_def waiting_in_def cfg_ok_def)
qed

theorem scheduler_bounds_witness: "sch_activeCount example_running \<le> 2 \<and> sch_queued example_running \<le> 3"
proof -
  have "Cfg_Concurrency (sch_cfg example_running) = 2 \<and> Cfg_QueueSize (sch_cfg example_running) = 3" by code_simp
  with scheduler_bounds[OF example_running_reachable] show ?thesis by simp
qed

text \<open>
  C3. No accepted task is lost and none completes twice: in every reachable state the accepted tasks are
  exactly those that wait, those that execute, those whose callback is running and those whose
  callback has returned, each once; the callback counter is the number that has not returned yet.
\<close>

theorem scheduler_conservation:
  assumes "sched_reachable cfg s"
  shows "strips (sch_accepted s) =
           strips (concat (map snd (sch_queues s))) + strips (map snd (sch_probingTasks s)) +
           strips (map fst (sch_returning s)) + strips (map fst (sch_completed s)) \<and>
         sch_callbacks s = int (length (sch_accepted s)) - int (length (sch_completed s))"
proof -
  note inv = reachable_inv[OF assms]
  have acc: "strips (sch_accepted s) = strips (concat (map snd (sch_queues s))) + strips (map snd (sch_probingTasks s)) +
      strips (map fst (sch_returning s)) + strips (map fst (sch_completed s))"
    using sched_invD(11)[OF inv] by (simp add: pooled_def waiting_in_def running_in_def)
  from arg_cong[OF acc, of size] have "length (sch_accepted s) = size (pooled s) + length (sch_returning s) + length (sch_completed s)"
    by (simp add: pooled_def waiting_in_def running_in_def)
  with sched_invD(9,10)[OF inv] pooled_size[OF inv] acc show ?thesis by simp
qed

theorem scheduler_conservation_witness: "sch_callbacks example_running = 2"
proof -
  have "length (sch_accepted example_running) = 2 \<and> length (sch_completed example_running) = 0" by code_simp
  with scheduler_conservation[OF example_running_reachable] show ?thesis by simp
qed

lemma keyed_member: "u \<in># M \<Longrightarrow> task_key u = k \<Longrightarrow> 0 < keyed k M"
  using keyed_nonneg by (fastforce dest: multi_member_split simp: add_pos_nonneg)

text \<open>
  C13. A node is not probed twice for the same kind: while a task for a node and kind waits or executes, a
  submission in strict mode for that node and kind is refused with a conflict, whatever the clock.
\<close>

theorem strict_submit_conflicts:
  assumes "sched_reachable cfg s" "\<not> sch_closed s" "Task_RunID t \<notin> set (sch_cancelledRuns s)"
    and "Task_Mode t = EnqueueStrictConflict"
    and "u \<in> set (concat (map snd (sch_queues s))) \<union> set (map snd (sch_probingTasks s))"
    and "Task_LogicalID u = Task_LogicalID t" "Task_Kind u = Task_Kind t"
  shows "fst (submit None now t wait s) = Returned (Some ErrNodeConflict)"
proof -
  note inv = reachable_inv[OF assms(1)]
  obtain m where m: "pruneActiveNodesLocked now s = s\<lparr>sch_activeNodes := m\<rparr>" "records_ok m (pooled s)"
    using prune_spec[OF inv] by blast
  have key: "task_key u = task_key t" using assms(6,7) by (simp add: task_key_def)
  have "strip u \<in># pooled s" using assms(5) unfolding pooled_def waiting_in_def running_in_def union_iff
    by (elim UnE) (blast intro: strips_member)+
  then have pos: "0 < keyed (task_key t) (pooled s)" by (rule keyed_member) (simp add: key)
  then obtain r where r: "gm_get m (task_key t) = Some r" using records_okD(2)[OF m(2), of "task_key t"] by fastforce
  with records_okD(4)[OF m(2) r] pos have "rec_active r" by simp
  with r m assms(2-4) show ?thesis
    by (simp add: submit_def submitStrictConflict_def Let_def EnqueueStrictConflict_def EnqueuePeriodicDedupe_def
        EnqueueManualPreemptFront_def)
qed

theorem strict_submit_conflicts_witness:
  "fst (submit None 7 (example_task ''other'' ''a'' 0) True example_queued) = Returned (Some ErrNodeConflict)"
  by (rule strict_submit_conflicts[OF example_queued_reachable, of _ "example_task ''r'' ''a'' 0"])
    (simp_all add: example_queued_state example_task_def EnqueueStrictConflict_def)

lemma scheduler_bounds_queued: "sched_inv s \<Longrightarrow> sch_queued s = int (length (concat (map snd (sch_queues s))))"
  using sched_invD(2) by (simp add: queues_ok_def waiting_in_def)

lemma next_manual:
  assumes "sched_inv s" "gm_get (sch_queues s) run = Some q" "t \<in> set q" "is_manual t"
  shows "\<exists>i run'. first_manual s = Some (i, run')"
proof -
  note Q = sched_invD(2)[OF assms(1)]
  have "run \<in> set (sch_runOrder s)" using Q assms(2) by (simp add: queues_ok_def)
  then obtain i where i: "i < length (sch_runOrder s)" "sch_runOrder s ! i = run" by (auto simp: in_set_conv_nth)
  have "is_manual (hd q)"
  proof (rule ccontr)
    assume "\<not> is_manual (hd q)"
    then have "dropWhile is_manual q = q" by (cases q) auto
    with queues_ok_queue[OF Q assms(2)] assms(3,4) show False by (auto simp: queue_ok_def manual_first_def list_all_iff)
  qed
  then have "case queue_of s run of [] \<Rightarrow> False | t # ts \<Rightarrow> is_manual t"
    using assms(2,3) by (auto simp: queue_of_def gm_get_or_def split: list.split)
  moreover have "(i, run) \<in> set (enumerate 0 (sch_runOrder s))" using i by (auto simp: in_set_enumerate_eq)
  ultimately have "first_manual s \<noteq> None" unfolding first_manual_def find_None_iff by force
  then show ?thesis by auto
qed

lemma dispatch_starts:
  assumes "sched_inv s" "\<not> sch_closed s" "sch_activeCount s < Cfg_Concurrency (sch_cfg s)" "sch_queued s \<noteq> 0"
    and "nextEligibleLocked s = Some (t, s1)"
  shows "gm_get (sch_probingTasks (dispatch s)) (sch_nextExecID s + 1) = Some t"
    and "sch_activeCount (dispatch s) = sch_activeCount s + 1"
    and "sch_queued (dispatch s) = sch_queued s - 1"
proof -
  from nextEligible_spec[OF assms(1,5)] obtain Q' order' cur where s1:
    "s1 = signalLocked (s\<lparr>sch_queued := sch_queued s - 1, sch_queues := Q', sch_runOrder := order', sch_runCursor := cur\<rparr>)" .
  with assms show "gm_get (sch_probingTasks (dispatch s)) (sch_nextExecID s + 1) = Some t"
    "sch_activeCount (dispatch s) = sch_activeCount s + 1" "sch_queued (dispatch s) = sch_queued s - 1"
    by (simp_all add: dispatch_def signalLocked_def Let_def)
qed

text \<open>
  C20. Manual probes go first: when a manual task waits anywhere in the pool and a slot is free, the next
  turn of the dispatcher starts a manual task, whatever the limit of its run.
\<close>

theorem manual_preempts:
  assumes "sched_reachable cfg s" "\<not> sch_closed s" "sch_activeCount s < Cfg_Concurrency (sch_cfg s)"
    and "t \<in> set (concat (map snd (sch_queues s)))" "is_manual t"
  shows "\<exists>u. is_manual u \<and> gm_get (sch_probingTasks (dispatch s)) (sch_nextExecID s + 1) = Some u \<and>
           sch_activeCount (dispatch s) = sch_activeCount s + 1"
proof -
  note inv = reachable_inv[OF assms(1)]
  have gok: "gm_ok (sch_queues s)" using sched_invD(2)[OF inv] by (simp add: queues_ok_def)
  obtain run q where q: "(run, q) \<in> set (sch_queues s)" "t \<in> set q" using assms(4) by auto
  obtain i run' where fm: "first_manual s = Some (i, run')"
    using next_manual[OF inv _ q(2) assms(5)] q(1) gm_get_iff[OF gok] by blast
  obtain u s1 where ne: "nextEligibleLocked s = Some (u, s1)" and u: "u = hd (queue_of s run')"
    using fm by (auto simp: nextEligibleLocked_def pop_front_def Let_def)
  have "length (concat (map snd (sch_queues s))) \<noteq> 0" using assms(4) by (cases "concat (map snd (sch_queues s))") auto
  then have "sch_queued s \<noteq> 0" using scheduler_bounds_queued[OF inv] by simp
  from dispatch_starts[OF inv assms(2,3) this ne] first_manual_Some(4)[OF fm] u show ?thesis by auto
qed

theorem manual_preempts_witness:
  "\<exists>u. is_manual u \<and> gm_get (sch_probingTasks (dispatch example_queued)) 1 = Some u"
  using manual_preempts[OF example_queued_reachable, of "example_task ''r'' ''b'' 2"]
  by (auto simp: example_queued_state is_manual_def example_task_def EnqueueManualPreemptFront_def)

text \<open>
  C17. The scheduler does not stall: whenever tasks wait on an open scheduler and nothing executes, a turn
  of the dispatcher starts a task, so the limits per run can delay a task but never block the pool.
  (A dispatcher that has stopped because the parent context is done takes no more turns.)
\<close>

theorem dispatch_progress:
  assumes "sched_reachable cfg s" "\<not> sch_closed s" "0 < sch_queued s" "sch_activeCount s = 0"
  shows "sch_activeCount (dispatch s) = 1 \<and> sch_queued (dispatch s) = sch_queued s - 1"
proof -
  note inv = reachable_inv[OF assms(1)]
  note Q = sched_invD(2)[OF inv] and cfg = sched_invD(1)[OF inv]
  have "sch_runOrder s \<noteq> []"
  proof
    assume "sch_runOrder s = []"
    then have "gm_get (sch_queues s) run = None" for run using Q by (simp add: queues_ok_def)
    from this[of "fst (hd (sch_queues s))"] have "sch_queues s = []" by (cases "sch_queues s") (auto simp: gm_get_def)
    then show False using Q assms(3) by (simp add: queues_ok_def)
  qed
  define i where "i = sch_runCursor s mod length (sch_runOrder s)"
  have i: "i < length (sch_runOrder s)" using \<open>sch_runOrder s \<noteq> []\<close> by (simp add: i_def)
  have queue: "queue_of s (sch_runOrder s ! i) \<noteq> []"
    using queues_ok_empty[OF Q, of "sch_runOrder s ! i"] nth_mem[OF i] by (simp add: queue_of_def)
  have "running_in (sch_probingTasks s) = {#}" using sched_invD(3)[OF inv] assms(4) by (simp add: active_ok_def)
  then have idle: "gm_get_or 0 (sch_activeByRun s) run = 0" for run
    using sched_invD(3)[OF inv] by (simp add: active_ok_def counts_ok_def)
  have "1 \<le> run_limit s" using cfg by (simp add: run_limit_def cfg_ok_def)
  then have "first_eligible s \<noteq> None"
    unfolding first_eligible_def Let_def find_None_iff using i queue idle
    by (auto simp: i_def intro!: bexI[of _ 0])
  then obtain t s1 where "nextEligibleLocked s = Some (t, s1)"
    by (cases "first_manual s"; cases "first_eligible s") (auto simp: nextEligibleLocked_def pop_front_def Let_def)
  from dispatch_starts(2,3)[OF inv assms(2) _ _ this] assms(3,4) cfg show ?thesis by (simp add: cfg_ok_def)
qed

theorem dispatch_progress_witness: "sch_activeCount (dispatch example_queued) = 1"
  using dispatch_progress[OF example_queued_reachable] example_queued_state by simp

text \<open>
  C24. Cancelling a run is effective: nothing of it waits any more and its waiting tasks are reported as
  cancelled; the context of every task of the run that executes is cancelled; a task of the run
  that was dispatched but has not begun is reported as cancelled instead of executing; and further
  submissions for the run are refused.
\<close>

theorem CancelRun_effective:
  assumes "sched_reachable cfg s" and eq: "s' = CancelRun now run s"
  shows "queue_of s' run = [] \<and>
         (\<forall>t \<in> set (queue_of s run). (t, Some ContextCanceled) \<in> set (sch_returning s')) \<and>
         (\<forall>e k t. gm_get (sch_workers s) e = Some (Executing k) \<longrightarrow> gm_get (sch_probingTasks s) e = Some t \<longrightarrow>
            Task_RunID t = run \<longrightarrow> e \<in> set (sch_cancelledExecs s')) \<and>
         (\<forall>e t. Task_RunID t = run \<longrightarrow>
            (t, Some ContextCanceled) \<in> set (sch_returning (processTask_start now' t e s'))) \<and>
         (\<forall>t. Task_RunID t = run \<longrightarrow>
            fst (submit None now' t wait s') = Returned (Some (if sch_closed s then ErrSchedulerClosed else ContextCanceled)))"
proof (intro conjI allI impI ballI)
  have fields: "run \<in> set (sch_cancelledRuns s')" "sch_closed s' = sch_closed s"
    by (simp_all add: eq CancelRun_eq Let_def signalLocked_def)
  show "queue_of s' run = []" by (simp add: eq CancelRun_eq Let_def signalLocked_def queue_of_def)
  show "(t, Some ContextCanceled) \<in> set (sch_returning s')" if "t \<in> set (queue_of s run)" for t
    using that by (simp add: eq CancelRun_eq Let_def signalLocked_def queue_of_def)
  show "e \<in> set (sch_cancelledExecs s')"
    if "gm_get (sch_workers s) e = Some (Executing k)" "gm_get (sch_probingTasks s) e = Some t" "Task_RunID t = run" for e k t
  proof -
    have "gm_get (gm_get_or [] (sch_runCancels s) run) k = Some e"
      using sched_invD(4)[OF reachable_inv[OF assms(1)]] that unfolding handles_ok_def by blast
    then have "(k, e) \<in> set (gm_get_or [] (sch_runCancels s) run)" by (rule gm_get_Some_in)
    then have "e \<in> set (cancel_handles (gm_get_or [] (sch_runCancels s) run))" by (force simp: cancel_handles_def)
    then show ?thesis by (simp add: eq CancelRun_eq Let_def signalLocked_def)
  qed
  show "(t, Some ContextCanceled) \<in> set (sch_returning (processTask_start now' t e s'))" if "Task_RunID t = run" for e t
    using that fields by (simp add: processTask_start_def begin_callback_def)
  show "fst (submit None now' t wait s') = Returned (Some (if sch_closed s then ErrSchedulerClosed else ContextCanceled))"
    if "Task_RunID t = run" for t
    using that fields
    by (simp add: submit_def submitStrictConflict_def submitPeriodicDedupe_def submitManualPreemptFront_def Let_def)
qed

theorem CancelRun_effective_witness:
  "1 \<in> set (sch_cancelledExecs (CancelRun 5 ''r'' example_running)) \<and>
   queue_of (CancelRun 5 ''r'' example_running) ''r'' = []"
proof -
  have "gm_get (sch_workers example_running) 1 = Some (Executing 0)"
    "gm_get (sch_probingTasks example_running) 1 = Some (example_task ''r'' ''b'' 2)" by code_simp+
  with CancelRun_effective[OF example_running_reachable refl, of 5 "''r''"] show ?thesis by (simp add: example_task_def)
qed

text \<open>
  C25. Draining waits for exactly what it should: on a closed scheduler the condition of \<open>Drain\<close> holds
  as soon as the dispatcher and all task and callback goroutines have ended, and then every
  accepted task has been completed exactly once.
\<close>

theorem Drain_exact:
  assumes "sched_reachable cfg s" "sch_closed s"
  shows "(Drain_ready s \<longleftrightarrow> sch_workers s = [] \<and> sch_returning s = [] \<and> sch_dispatcherDone s) \<and>
         (Drain_ready s \<longrightarrow> strips (sch_accepted s) = strips (map fst (sch_completed s)))"
proof -
  note inv = reachable_inv[OF assms(1)]
  have q: "sch_queues s = []" "sch_queued s = 0"
    using sched_invD(12)[OF inv assms(2)] sched_invD(2)[OF inv] by (simp_all add: queues_ok_def)
  have act: "sch_activeCount s = 0 \<longleftrightarrow> sch_probingTasks s = []"
    using sched_invD(3)[OF inv] by (simp add: active_ok_def running_in_def)
  have "sch_workers s = [] \<longleftrightarrow> sch_probingTasks s = []"
  proof -
    have "\<forall>e. gm_get (sch_workers s) e = None \<longleftrightarrow> gm_get (sch_probingTasks s) e = None"
      using sched_invD(3)[OF inv] by (simp add: active_ok_def)
    moreover have "m = [] \<longleftrightarrow> (\<forall>e. gm_get m e = None)" for m :: "('k, 'v) gomap"
      by (cases m) (auto simp: gm_get_def)
    ultimately show ?thesis by metis
  qed
  moreover have "sch_callbacks s = sch_activeCount s + int (length (sch_returning s))"
    using sched_invD(9,10)[OF inv] q by simp
  ultimately have iff: "Drain_ready s \<longleftrightarrow> sch_workers s = [] \<and> sch_returning s = [] \<and> sch_dispatcherDone s"
    using act q(2) by (auto simp: Drain_ready_def)
  moreover have "strips (sch_accepted s) = strips (map fst (sch_completed s))" if "Drain_ready s"
    using sched_invD(11)[OF inv] that iff act q(1) by (auto simp: pooled_def running_in_def Drain_ready_def)
  ultimately show ?thesis by blast
qed

definition example_closed :: Scheduler where
  "example_closed = dispatch (completeCallback 0 (Close 1 (snd (submit None 0 (example_task ''r'' ''a'' 0) False example_new))))"

theorem Drain_exact_witness: "strips (sch_accepted example_closed) = strips (map fst (sch_completed example_closed))"
proof -
  let ?s1 = "Close 1 (snd (submit None 0 (example_task ''r'' ''a'' 0) False example_new))"
  have "sched_reachable example_cfg ?s1"
    by (rule sched_reachable.step[OF sched_reachable.step[OF example_new_reachable submits] closes])
  moreover have "0 < length (sch_returning ?s1)" by code_simp
  ultimately have "sched_reachable example_cfg (completeCallback 0 ?s1)" by (blast intro: sched_reachable.step returns)
  moreover have "\<not> sch_dispatcherDone (completeCallback 0 ?s1)" by code_simp
  ultimately have "sched_reachable example_cfg example_closed"
    unfolding example_closed_def by (blast intro: sched_reachable.step dispatches)
  moreover have "sch_closed example_closed" "Drain_ready example_closed" by code_simp+
  ultimately show ?thesis using Drain_exact by blast
qed

subsection \<open>Wake-ups\<close>

text \<open>
  What sleeping goroutines wait for. A blocked submission waits for room in the queue, the end of its
  run or the close; \<open>Wait\<close> and \<open>Drain\<close> wait for the counters to reach zero; the dispatcher waits for
  the close or for a task that it may start, which depends on the queues, on the modes of their heads
  and on the limits.
\<close>

definition wait_view :: "Scheduler \<Rightarrow> int \<times> int \<times> int \<times> int \<times> bool \<times> string list" where
  "wait_view s =
     (sch_queued s, sch_taskCount s, sch_callbacks s, sch_activeCount s, sch_closed s, sch_cancelledRuns s)"

definition dispatcher_ready :: "Scheduler \<Rightarrow> bool" where
  "dispatcher_ready s \<longleftrightarrow>
     sch_closed s \<or>
     sch_activeCount s < Cfg_Concurrency (sch_cfg s) \<and> sch_queued s \<noteq> 0 \<and> nextEligibleLocked s \<noteq> None"

text \<open>
  The one step that may let a task become eligible in silence: a manual submission that finds no room
  after it has moved waiting tasks of its node to the front of other runs.
\<close>

definition refused_promotion :: "Scheduler \<Rightarrow> Scheduler \<Rightarrow> bool" where
  "refused_promotion s s' \<longleftrightarrow>
     (\<exists>now t wait. Task_Mode t = EnqueueManualPreemptFront \<and> s' = snd (submit None now t wait s) \<and>
        fst (submit None now t wait s) \<in> {Waits, Returned (Some ErrCapacityExceeded)} \<and>
        sch_queues s' \<noteq> sch_queues s)"

definition dispatch_view where
  "dispatch_view s =
     (sch_queues s, sch_runOrder s, sch_runCursor s, sch_activeByRun s, sch_explicitRunConcurrency s, sch_cfg s)"

lemma dispatcher_ready_cong:
  assumes "dispatch_view s' = dispatch_view s" "wait_view s' = wait_view s"
  shows "dispatcher_ready s' = dispatcher_ready s"
proof -
  have "queue_of s' = queue_of s" "run_limit s' = run_limit s"
    using assms(1) by (auto simp: dispatch_view_def queue_of_def run_limit_def activeCompetingRunsLocked_def)
  then have "first_manual s' = first_manual s" "first_eligible s' = first_eligible s"
    using assms(1) by (simp_all add: dispatch_view_def first_manual_def first_eligible_def)
  then have "nextEligibleLocked s' = None \<longleftrightarrow> nextEligibleLocked s = None"
    by (auto simp: nextEligibleLocked_def split: option.splits)
  with assms show ?thesis by (simp add: dispatcher_ready_def dispatch_view_def wait_view_def)
qed

definition quiet :: "Scheduler \<Rightarrow> Scheduler \<Rightarrow> bool" where
  "quiet s s' \<longleftrightarrow>
     sch_changed s' > sch_changed s \<or>
     wait_view s' = wait_view s \<and> (dispatch_view s' = dispatch_view s \<or> refused_promotion s s')"

lemma prune_quiet:
  "sch_changed (pruneActiveNodesLocked now s) = sch_changed s"
  "wait_view (pruneActiveNodesLocked now s) = wait_view s"
  "dispatch_view (pruneActiveNodesLocked now s) = dispatch_view s"
  by (simp_all add: pruneActiveNodesLocked_def wait_view_def dispatch_view_def Let_def)

lemma promote_run_view:
  "sch_changed (fst (promote_run t acc rq)) = sch_changed (fst acc)"
  "sch_callbacks (fst (promote_run t acc rq)) = sch_callbacks (fst acc)"
  "sch_activeCount (fst (promote_run t acc rq)) = sch_activeCount (fst acc)"
  "sch_closed (fst (promote_run t acc rq)) = sch_closed (fst acc)"
  "sch_cancelledRuns (fst (promote_run t acc rq)) = sch_cancelledRuns (fst acc)"
  "sch_activeByRun (fst (promote_run t acc rq)) = sch_activeByRun (fst acc)"
  "sch_explicitRunConcurrency (fst (promote_run t acc rq)) = sch_explicitRunConcurrency (fst acc)"
  "sch_cfg (fst (promote_run t acc rq)) = sch_cfg (fst acc)"
  "sch_queued (fst (promote_run t acc rq)) - sch_taskCount (fst (promote_run t acc rq)) =
     sch_queued (fst acc) - sch_taskCount (fst acc)"
  "sch_queued (fst (promote_run t acc rq)) \<le> sch_queued (fst acc)"
proof -
  have d: "drop_run run s = s\<lparr>sch_runOrder := sch_runOrder (drop_run run s), sch_runCursor := sch_runCursor (drop_run run s)\<rparr>" for run s
    by (simp add: drop_run_def Let_def)
  have f: "sch_changed (drop_run run s) = sch_changed s" "sch_callbacks (drop_run run s) = sch_callbacks s"
    "sch_activeCount (drop_run run s) = sch_activeCount s" "sch_closed (drop_run run s) = sch_closed s"
    "sch_cancelledRuns (drop_run run s) = sch_cancelledRuns s" "sch_activeByRun (drop_run run s) = sch_activeByRun s"
    "sch_explicitRunConcurrency (drop_run run s) = sch_explicitRunConcurrency s"
    "sch_queued (drop_run run s) = sch_queued s" "sch_taskCount (drop_run run s) = sch_taskCount s"
    "sch_cfg (drop_run run s) = sch_cfg s" for run s
    by (subst d, simp)+
  obtain s old run q0 q removed where e: "acc = (s, old)" "rq = (run, q0)" "promote_queue t 0 q0 [] = (q, removed)"
    by (metis surj_pair)
  note def = e promote_run_def Let_def f
  show "sch_changed (fst (promote_run t acc rq)) = sch_changed (fst acc)" by (simp add: def)
  show "sch_callbacks (fst (promote_run t acc rq)) = sch_callbacks (fst acc)" by (simp add: def)
  show "sch_activeCount (fst (promote_run t acc rq)) = sch_activeCount (fst acc)" by (simp add: def)
  show "sch_closed (fst (promote_run t acc rq)) = sch_closed (fst acc)" by (simp add: def)
  show "sch_cancelledRuns (fst (promote_run t acc rq)) = sch_cancelledRuns (fst acc)" by (simp add: def)
  show "sch_activeByRun (fst (promote_run t acc rq)) = sch_activeByRun (fst acc)" by (simp add: def)
  show "sch_explicitRunConcurrency (fst (promote_run t acc rq)) = sch_explicitRunConcurrency (fst acc)" by (simp add: def)
  show "sch_cfg (fst (promote_run t acc rq)) = sch_cfg (fst acc)" by (simp add: def)
  show "sch_queued (fst (promote_run t acc rq)) - sch_taskCount (fst (promote_run t acc rq)) =
     sch_queued (fst acc) - sch_taskCount (fst acc)" by (simp add: def)
  show "sch_queued (fst (promote_run t acc rq)) \<le> sch_queued (fst acc)" by (simp add: def)
qed

text \<open>A run leaves the order only where one of its tasks is superseded.\<close>

lemma promote_run_order:
  assumes "snd rq \<noteq> []" "sch_queued (fst (promote_run t acc rq)) = sch_queued (fst acc)"
  shows "sch_runOrder (fst (promote_run t acc rq)) = sch_runOrder (fst acc) \<and>
         sch_runCursor (fst (promote_run t acc rq)) = sch_runCursor (fst acc)"
proof -
  obtain s old run q0 q removed where e: "acc = (s, old)" "rq = (run, q0)" "promote_queue t 0 q0 [] = (q, removed)"
    by (metis surj_pair)
  have drop: "sch_queued (drop_run r u) = sch_queued u" for r u by (simp add: drop_run_def Let_def)
  show ?thesis
  proof (cases "run = Task_RunID t \<and> Task_RunID t \<noteq> []")
    case False
    then have "removed = []" using assms(2) by (simp add: e promote_run_def Let_def drop split: if_splits)
    moreover have "size (strips q) + size (strips removed) = size (strips q0)"
      using arg_cong[OF conjunct1[OF promote_queue_spec[OF e(3)]], of size] by simp
    ultimately have "q \<noteq> []" using assms(1) e(2) by auto
    with False show ?thesis by (simp add: e promote_run_def Let_def)
  qed (simp add: e promote_run_def)
qed

lemma promote_fold_view:
  "sch_changed (fst (foldl (promote_run t) acc rqs)) = sch_changed (fst acc)"
  "sch_callbacks (fst (foldl (promote_run t) acc rqs)) = sch_callbacks (fst acc)"
  "sch_activeCount (fst (foldl (promote_run t) acc rqs)) = sch_activeCount (fst acc)"
  "sch_closed (fst (foldl (promote_run t) acc rqs)) = sch_closed (fst acc)"
  "sch_cancelledRuns (fst (foldl (promote_run t) acc rqs)) = sch_cancelledRuns (fst acc)"
  "sch_activeByRun (fst (foldl (promote_run t) acc rqs)) = sch_activeByRun (fst acc)"
  "sch_explicitRunConcurrency (fst (foldl (promote_run t) acc rqs)) = sch_explicitRunConcurrency (fst acc)"
  "sch_cfg (fst (foldl (promote_run t) acc rqs)) = sch_cfg (fst acc)"
  "sch_queued (fst (foldl (promote_run t) acc rqs)) - sch_taskCount (fst (foldl (promote_run t) acc rqs)) =
     sch_queued (fst acc) - sch_taskCount (fst acc)"
  by (induction rqs arbitrary: acc) (simp_all add: promote_run_view)

lemma promote_fold_queued: "sch_queued (fst (foldl (promote_run t) acc rqs)) \<le> sch_queued (fst acc)"
proof (induction rqs arbitrary: acc)
  case (Cons rq rqs)
  from Cons[of "promote_run t acc rq"] promote_run_view(10)[of t acc rq] show ?case by simp
qed simp

lemma promote_fold_order:
  assumes "\<forall>rq \<in> set rqs. snd rq \<noteq> []" "sch_queued (fst (foldl (promote_run t) acc rqs)) = sch_queued (fst acc)"
  shows "sch_runOrder (fst (foldl (promote_run t) acc rqs)) = sch_runOrder (fst acc) \<and>
         sch_runCursor (fst (foldl (promote_run t) acc rqs)) = sch_runCursor (fst acc)"
  using assms
proof (induction rqs arbitrary: acc)
  case (Cons rq rqs)
  have "sch_queued (fst (promote_run t acc rq)) = sch_queued (fst acc)"
    using Cons.prems(2) promote_fold_queued[of t "promote_run t acc rq" rqs] promote_run_view(10)[of t acc rq] by simp
  with Cons.IH[of "promote_run t acc rq"] promote_run_order[of rq t acc] Cons.prems show ?case by simp
qed simp

lemma manual_quiet:
  assumes "sched_inv s" "Task_Mode t = EnqueueManualPreemptFront"
  shows "quiet s (snd (submitManualPreemptFront now t wait s))"
proof -
  let ?s1 = "pruneActiveNodesLocked now s"
  have sub: "submit None now t wait s = submitManualPreemptFront now t wait s"
    using assms(2) by (simp add: submit_def EnqueueManualPreemptFront_def EnqueuePeriodicDedupe_def)
  obtain s2 old where f: "foldl (promote_run t) (?s1, []) (sch_queues ?s1) = (s2, old)" by fastforce
  have q: "sch_queues ?s1 = sch_queues s" using prune_quiet(3)[of now s] by (simp add: dispatch_view_def)
  have ne: "\<forall>rq \<in> set (sch_queues ?s1). snd rq \<noteq> []"
    using sched_invD(2)[OF assms(1)] by (auto simp: q queues_ok_def queue_ok_def gm_get_iff)
  note v = promote_fold_view[of t "(?s1, [])" "sch_queues ?s1", unfolded f fst_conv]
  note o = promote_fold_order[OF ne, of t "(?s1, [])", unfolded f fst_conv]
  show ?thesis
  proof (cases "sch_closed s \<or> Task_RunID t \<in> set (sch_cancelledRuns s) \<or> manual_conflict now t ?s1")
    case True
    then show ?thesis using prune_quiet[of now s]
      by (auto simp: submitManualPreemptFront_def quiet_def Let_def)
  next
    case False
    show ?thesis
    proof (cases "sch_queued s2 < Cfg_QueueSize (sch_cfg s2)")
      case True
      with False f v(1) prune_quiet(1)[of now s] show ?thesis
        by (simp add: submitManualPreemptFront_def quiet_def Let_def front_task_def touch_record_def signalLocked_def)
    next
      case full: False
      let ?s3 = "s2\<lparr>sch_returning := sch_returning s2 @ map (\<lambda>t. (t, None)) old\<rparr>"
      have r: "submitManualPreemptFront now t wait s = (if wait then Waits else Returned (Some ErrCapacityExceeded), ?s3)"
        using False full f by (simp add: submitManualPreemptFront_def Let_def)
      have "sch_queued s2 = sch_queued s"
        using full v(8) promote_fold_queued[of t "(?s1, [])" "sch_queues ?s1", unfolded f fst_conv] sched_invD(6)[OF assms(1)] prune_quiet(2,3)[of now s] by (simp add: wait_view_def dispatch_view_def)
      with v o prune_quiet(2,3)[of now s] have w: "wait_view ?s3 = wait_view s"
        "sch_queues ?s3 = sch_queues s \<Longrightarrow> dispatch_view ?s3 = dispatch_view s"
        by (simp_all add: wait_view_def dispatch_view_def)
      have "refused_promotion s ?s3" if "sch_queues ?s3 \<noteq> sch_queues s"
        unfolding refused_promotion_def using that assms(2) by (intro exI[of _ now] exI[of _ t] exI[of _ wait]) (simp add: sub r)
      with w r show ?thesis by (auto simp: quiet_def)
    qed
  qed
qed

lemma submit_quiet: "sched_inv s \<Longrightarrow> quiet s (snd (submit ctxErr now t wait s))"
  using manual_quiet[of s t now wait] prune_quiet[of now s]
  by (auto simp: quiet_def wait_view_def dispatch_view_def submit_def submitStrictConflict_def submitPeriodicDedupe_def Let_def
      enqueueTaskLocked_def append_task_def touch_record_def signalLocked_def split: option.splits)

lemma dispatch_quiet: "sched_inv s \<Longrightarrow> quiet s (dispatch s)"
  by (auto simp: quiet_def wait_view_def dispatch_view_def dispatch_def Let_def signalLocked_def split: option.split elim!: nextEligible_spec)

lemma step_quiet:
  assumes "sched_inv s" "sched_step s s'"
  shows "quiet s s'"
  using assms(2)
proof (cases rule: sched_step.cases)
  case (starts e t now)
  then show ?thesis
    by (auto simp: quiet_def wait_view_def dispatch_view_def processTask_start_def begin_callback_def finishTaskExecutionLocked_def
        Let_def signalLocked_def)
next
  case (ends e k t now err)
  then show ?thesis
    by (auto simp: quiet_def processTask_end_def begin_callback_def finishTaskExecutionLocked_def Let_def signalLocked_def)
next
  case (submits ctxErr now t wait)
  with assms submit_quiet show ?thesis by simp
next
  case dispatches
  with assms dispatch_quiet show ?thesis by simp
qed (auto simp: quiet_def wait_view_def dispatch_view_def completeCallback_def CancelRun_eq Close_def Let_def signalLocked_def)

text \<open>
  C27. Wake-ups: a step that changes the queue length, the number of outstanding tasks, callbacks or
  executing tasks, the cancelled runs or the closed flag advances the generation of the broadcast
  channel, and so does a step that turns a dispatcher with nothing to do into one that can start a
  task, so goroutines that sleep on the old generation are woken. The only exception is a manual
  submission that promotes waiting tasks of other runs and then finds no room.
\<close>

theorem step_signals:
  assumes "sched_reachable cfg s" "sched_step s s'"
    and "wait_view s' \<noteq> wait_view s \<or> \<not> dispatcher_ready s \<and> dispatcher_ready s' \<and> \<not> refused_promotion s s'"
  shows "sch_changed s' > sch_changed s"
  using step_quiet[OF reachable_inv[OF assms(1)] assms(2)] assms(3) dispatcher_ready_cong[of s' s]
  unfolding quiet_def by blast

theorem step_signals_witness: "sch_changed (snd (submit None 0 (example_task ''r'' ''a'' 1) False example_new)) > sch_changed example_new"
proof -
  let ?s' = "snd (submit None 0 (example_task ''r'' ''a'' 1) False example_new)"
  have "wait_view ?s' \<noteq> wait_view example_new" by code_simp
  with step_signals[OF example_new_reachable submits] show ?thesis by blast
qed







subsection \<open>What the pool reports\<close>

lemma collect_queued_fold:
  "set (foldl (collect_queued probing) acc ts) =
     set acc \<union> {nid \<in> Task_LogicalID ` set ts. nid \<noteq> [] \<and> nid \<notin> set probing} \<and>
   (distinct acc \<longrightarrow> distinct (foldl (collect_queued probing) acc ts))"
proof (induction ts arbitrary: acc)
  case (Cons t ts)
  have "set (collect_queued probing acc t) =
      set acc \<union> {nid. nid = Task_LogicalID t \<and> nid \<noteq> [] \<and> nid \<notin> set probing} \<and>
    (distinct acc \<longrightarrow> distinct (collect_queued probing acc t))"
    by (auto simp: collect_queued_def Let_def)
  with Cons[of "collect_queued probing acc t"] show ?case by auto
qed simp

lemma ordered_queues:
  assumes "queues_ok Q order n"
  shows "set (concat (map (gm_get_or [] Q) order)) = set (concat (map snd Q))"
proof -
  have ok: "gm_ok Q" and keys: "\<And>run. run \<in> set order \<longleftrightarrow> gm_get Q run \<noteq> None" using assms by (simp_all add: queues_ok_def)
  have ordered: "t \<in> set (concat (map (gm_get_or [] Q) order)) \<longleftrightarrow> (\<exists>run q. gm_get Q run = Some q \<and> t \<in> set q)" for t
  proof
    assume "t \<in> set (concat (map (gm_get_or [] Q) order))"
    then obtain run where "t \<in> set (gm_get_or [] Q run)" by auto
    then show "\<exists>run q. gm_get Q run = Some q \<and> t \<in> set q" by (cases "gm_get Q run") (auto simp: gm_get_or_def)
  next
    assume "\<exists>run q. gm_get Q run = Some q \<and> t \<in> set q"
    then obtain run q where q: "gm_get Q run = Some q" "t \<in> set q" by blast
    then have "run \<in> set order" "t \<in> set (gm_get_or [] Q run)" using keys by (simp_all add: gm_get_or_def)
    then show "t \<in> set (concat (map (gm_get_or [] Q) order))" by auto
  qed
  have "t \<in> set (concat (map snd Q)) \<longleftrightarrow> (\<exists>run q. gm_get Q run = Some q \<and> t \<in> set q)" for t
    unfolding gm_get_iff[OF ok] by (simp add: Bex_def)
  with ordered show ?thesis by blast
qed

lemma positive_keys:
  assumes "gm_ok (N :: (string, int) gomap)"
  shows "set (map fst (filter (\<lambda>(nid, count). count > 0 \<and> nid \<noteq> []) N)) = {k. gm_get_or 0 N k > 0 \<and> k \<noteq> []}"
proof -
  have keys: "k \<in> set (map fst (filter (\<lambda>(nid, count). count > 0 \<and> nid \<noteq> []) N)) \<longleftrightarrow> (\<exists>n. (k, n) \<in> set N \<and> n > 0 \<and> k \<noteq> [])" for k
    by (induction N) auto
  have vals: "(\<exists>n. (k, n) \<in> set N \<and> n > 0 \<and> k \<noteq> []) \<longleftrightarrow> gm_get_or 0 N k > 0 \<and> k \<noteq> []" for k
    using gm_get_iff[OF assms, of k] by (cases "gm_get N k") (simp_all add: gm_get_or_def, metis option.inject)
  show ?thesis unfolding set_eq_iff keys vals by simp
qed

lemma probing_nodes:
  assumes "counts_ok Task_LogicalID N (running_in P)"
  shows "gm_get_or 0 N k > 0 \<longleftrightarrow> k \<in> Task_LogicalID ` set (map snd P)"
proof -
  have "gm_get_or 0 N k = int (size {#t \<in># running_in P. Task_LogicalID t = k#})" using assms by (simp add: counts_ok_def)
  then have "gm_get_or 0 N k > 0 \<longleftrightarrow> set_mset {#t \<in># running_in P. Task_LogicalID t = k#} \<noteq> {}"
    by (metis nonempty_has_size of_nat_0_less_iff set_mset_eq_empty_iff)
  also have "\<dots> \<longleftrightarrow> (\<exists>t \<in># running_in P. Task_LogicalID t = k)" by auto
  also have "\<dots> \<longleftrightarrow> k \<in> Task_LogicalID ` set (map snd P)"
    by (auto simp: running_in_def strips_def image_iff)
  finally show ?thesis .
qed

text \<open>
  The pool reports what it holds: the probing nodes are those with an executing task, sorted; the
  queued nodes are those with a waiting task that are not probing; no node is listed twice; and the
  state reported for one node is probing, queued or idle accordingly.
\<close>

theorem SnapshotNodePool_exact:
  assumes "sched_reachable cfg s"
  shows "let snap = SnapshotNodePool s; running = Task_LogicalID ` set (map snd (sch_probingTasks s));
             waiting = Task_LogicalID ` set (concat (map snd (sch_queues s)))
         in set (Pool_ProbingNodeIDs snap) = running - {[]} \<and> sorted (Pool_ProbingNodeIDs snap) \<and>
            set (Pool_QueuedNodeIDs snap) = waiting - running - {[]} \<and>
            distinct (Pool_ProbingNodeIDs snap @ Pool_QueuedNodeIDs snap) \<and>
            Pool_QueueNodesCount snap = card ((running \<union> waiting) - {[]}) \<and>
            GetNodePoolState nid s =
              (if nid \<in> running then ''probing'' else if nid \<in> waiting then ''queued'' else ''idle'')"
proof -
  note inv = reachable_inv[OF assms]
  let ?N = "sch_probingNodes s" and ?P = "sch_probingTasks s" and ?Q = "sch_queues s"
  let ?R = "Task_LogicalID ` set (map snd ?P)" and ?W = "Task_LogicalID ` set (concat (map snd ?Q))"
  have N: "counts_ok Task_LogicalID ?N (running_in ?P)" using sched_invD(3)[OF inv] by (simp add: active_ok_def)
  then have ok: "gm_ok ?N" by (simp add: counts_ok_def)
  let ?probing = "sort (map fst (filter (\<lambda>(nid, count). count > 0 \<and> nid \<noteq> []) ?N))"
  have probing: "set ?probing = ?R - {[]}" unfolding set_sort positive_keys[OF ok] using probing_nodes[OF N] by auto
  have dp: "distinct ?probing" using ok by (simp add: gm_ok_def distinct_map_filter)
  let ?tasks = "concat (map (queue_of s) (sch_runOrder s))"
  have tasks: "set ?tasks = set (concat (map snd ?Q))"
    using ordered_queues[OF sched_invD(2)[OF inv]] by (simp add: queue_of_def[abs_def])
  let ?queued = "foldl (collect_queued ?probing) (foldl (collect_queued ?probing) [] (filter is_manual ?tasks)) ?tasks"
  have queued: "set ?queued = ?W - ?R - {[]}" "distinct ?queued"
    unfolding conjunct1[OF collect_queued_fold] probing using tasks collect_queued_fold by (auto simp: probing)
  have state: "GetNodePoolState nid s = (if nid \<in> ?R then ''probing'' else if nid \<in> ?W then ''queued'' else ''idle'')"
  proof -
    have "list_ex (\<lambda>(run, q). list_ex (\<lambda>t. Task_LogicalID t = nid) q) ?Q \<longleftrightarrow> nid \<in> ?W"
      by (force simp: list_ex_iff)
    then show ?thesis using probing_nodes[OF N, of nid] by (simp add: GetNodePoolState_def)
  qed
  have dis: "distinct (?probing @ ?queued)" using dp queued probing by auto
  have "set (?probing @ ?queued) = (?R \<union> ?W) - {[]}" using queued(1) probing by auto
  then have "length (?probing @ ?queued) = card ((?R \<union> ?W) - {[]})" using distinct_card[OF dis] by simp
  with dis queued(1) probing state show ?thesis
    by (simp add: SnapshotNodePool_def Let_def)
qed

theorem SnapshotNodePool_exact_witness:
  "GetNodePoolState ''b'' example_running = ''probing'' \<and> GetNodePoolState ''a'' example_running = ''queued''"
proof -
  have "map snd (sch_probingTasks example_running) = [example_task ''r'' ''b'' 2]"
    "concat (map snd (sch_queues example_running)) = [example_task ''r'' ''a'' 0]" by code_simp+
  with SnapshotNodePool_exact[OF example_running_reachable, of "''b''"]
    SnapshotNodePool_exact[OF example_running_reachable, of "''a''"]
  show ?thesis by (simp add: Let_def example_task_def)
qed

end
