(* ===== verification/Probe_Pool.thy ===== *)
theory Probe_Pool
  imports Probe_Steps
begin

section \<open>The probe scheduler as a pool of tasks\<close>

text \<open>
  What the scheduler promises, without its queues, records and counters: a pool holds waiting and
  executing tasks and tasks whose callback runs or has returned. The scheduler refines this machine
  step by step. The theory also shows that a closed scheduler can always be drained, and two places
  where the scheduler does not do what its comments or its other branches say.
\<close>

subsection \<open>The abstract pool\<close>

record pool =
  p_waiting :: "Task multiset"
  p_running :: "Task multiset"
  p_returning :: "Task multiset"
  p_completed :: "Task multiset"
  p_closed :: bool

definition empty_pool :: pool where
  "empty_pool = \<lparr>p_waiting = {#}, p_running = {#}, p_returning = {#}, p_completed = {#}, p_closed = False\<rparr>"

text \<open>A pool that executes at most \<open>c\<close> tasks and lets at most \<open>q\<close> wait.\<close>

inductive pool_step :: "int \<Rightarrow> int \<Rightarrow> pool \<Rightarrow> pool \<Rightarrow> bool" for c q where
  idle: "pool_step c q p p"
| accept: "\<not> p_closed p \<Longrightarrow> p_waiting p = w + old \<Longrightarrow> int (size w) < q \<Longrightarrow>
    pool_step c q p (p\<lparr>p_waiting := add_mset t w, p_returning := p_returning p + old\<rparr>)"
| start: "\<not> p_closed p \<Longrightarrow> p_waiting p = add_mset t w \<Longrightarrow> int (size (p_running p)) < c \<Longrightarrow>
    pool_step c q p (p\<lparr>p_waiting := w, p_running := add_mset t (p_running p)\<rparr>)"
| finish: "p_running p = add_mset t r \<Longrightarrow>
    pool_step c q p (p\<lparr>p_running := r, p_returning := add_mset t (p_returning p)\<rparr>)"
| complete: "p_returning p = add_mset t r \<Longrightarrow>
    pool_step c q p (p\<lparr>p_returning := r, p_completed := add_mset t (p_completed p)\<rparr>)"
| discard: "p_waiting p = w + old \<Longrightarrow>
    pool_step c q p (p\<lparr>p_waiting := w, p_returning := p_returning p + old\<rparr>)"
| shut: "pool_step c q p (p\<lparr>p_waiting := {#}, p_returning := p_returning p + p_waiting p, p_closed := True\<rparr>)"

inductive pool_reachable :: "int \<Rightarrow> int \<Rightarrow> pool \<Rightarrow> bool" for c q where
  empty: "pool_reachable c q empty_pool"
| step: "pool_reachable c q p \<Longrightarrow> pool_step c q p p' \<Longrightarrow> pool_reachable c q p'"

definition pool_of :: "Scheduler \<Rightarrow> pool" where
  "pool_of s = \<lparr>p_waiting = waiting_in (sch_queues s), p_running = running_in (sch_probingTasks s),
     p_returning = strips (map fst (sch_returning s)), p_completed = strips (map fst (sch_completed s)),
     p_closed = sch_closed s\<rparr>"

lemma pool_of_sel [simp]:
  "p_waiting (pool_of s) = waiting_in (sch_queues s)" "p_running (pool_of s) = running_in (sch_probingTasks s)"
  "p_returning (pool_of s) = strips (map fst (sch_returning s))" "p_closed (pool_of s) = sch_closed s"
  "p_completed (pool_of s) = strips (map fst (sch_completed s))"
  by (simp_all add: pool_of_def)

lemma pool_eqI:
  "p_waiting p = p_waiting p' \<Longrightarrow> p_running p = p_running p' \<Longrightarrow> p_returning p = p_returning p' \<Longrightarrow>
   p_completed p = p_completed p' \<Longrightarrow> p_closed p = p_closed p' \<Longrightarrow> (p :: pool) = p'"
  by simp

lemma pool_of_signal [simp]: "pool_of (signalLocked s) = pool_of s"
  by (simp add: pool_of_def signalLocked_def)

lemma pool_of_prune [simp]: "pool_of (pruneActiveNodesLocked now s) = pool_of s"
  by (simp add: pool_of_def pruneActiveNodesLocked_def Let_def)

abbreviation refines :: "Scheduler \<Rightarrow> Scheduler \<Rightarrow> bool" where
  "refines s s' \<equiv> pool_step (Cfg_Concurrency (sch_cfg s)) (Cfg_QueueSize (sch_cfg s)) (pool_of s) (pool_of s')"

subsection \<open>Submissions\<close>

lemma inv_queued: "sched_inv s \<Longrightarrow> sch_queued s = int (size (waiting_in (sch_queues s)))"
  using sched_invD(2) by (simp add: queues_ok_def)

lemma inv_active: "sched_inv s \<Longrightarrow> sch_activeCount s = int (size (running_in (sch_probingTasks s)))"
  using sched_invD(3) by (simp add: active_ok_def)

lemma waiting_append:
  assumes "gm_ok (sch_queues s)"
  shows "waiting_in (sch_queues (append_task t s)) = add_mset (strip t) (waiting_in (sch_queues s))"
  using waiting_in_put[OF assms, of "Task_RunID t" "queue_of s (Task_RunID t) @ [t]"]
  by (simp add: append_task_def Let_def signalLocked_def queue_of_def)

lemma waiting_front:
  assumes "gm_ok (sch_queues s)"
  shows "waiting_in (sch_queues (front_task t s)) = add_mset (strip t) (waiting_in (sch_queues s))"
  using waiting_in_put[OF assms, of "Task_RunID t" "insert_manual t (queue_of s (Task_RunID t))"]
  by (simp add: front_task_def Let_def signalLocked_def queue_of_def)

lemma append_refines:
  assumes "sched_inv s" "\<not> sch_closed s" "sch_queued s < Cfg_QueueSize (sch_cfg s)"
    and "pool_of s1 = pool_of s" "sch_queues s1 = sch_queues s"
  shows "refines s (append_task t s1)"
proof -
  have "gm_ok (sch_queues s)" using sched_invD(2)[OF assms(1)] by (simp add: queues_ok_def)
  then have "pool_of (append_task t s1) =
      (pool_of s)\<lparr>p_waiting := add_mset (strip t) (waiting_in (sch_queues s)), p_returning := p_returning (pool_of s) + {#}\<rparr>"
    using waiting_append[of s1 t] assms(4,5)
    by (simp add: pool_of_def append_task_def Let_def signalLocked_def)
  then show ?thesis using accept[of "pool_of s" "waiting_in (sch_queues s)" "{#}" "Cfg_QueueSize (sch_cfg s)"
        "Cfg_Concurrency (sch_cfg s)" "strip t"] assms inv_queued[OF assms(1)] by simp
qed

lemma promote_fold_frame:
  "sch_accepted (fst (foldl (promote_run t) acc rqs)) = sch_accepted (fst acc) \<and>
   sch_probingTasks (fst (foldl (promote_run t) acc rqs)) = sch_probingTasks (fst acc) \<and>
   sch_completed (fst (foldl (promote_run t) acc rqs)) = sch_completed (fst acc)"
proof (induction rqs arbitrary: acc)
  case (Cons rq rqs)
  have d: "sch_accepted (drop_run run s) = sch_accepted s \<and> sch_probingTasks (drop_run run s) = sch_probingTasks s \<and>
      sch_completed (drop_run run s) = sch_completed s" for run s by (simp add: drop_run_def Let_def)
  have "sch_accepted (fst (promote_run t acc rq)) = sch_accepted (fst acc) \<and>
      sch_probingTasks (fst (promote_run t acc rq)) = sch_probingTasks (fst acc) \<and>
      sch_completed (fst (promote_run t acc rq)) = sch_completed (fst acc)"
    by (auto simp: promote_run_def Let_def d split: prod.splits)
  with Cons.IH[of "promote_run t acc rq"] show ?case by simp
qed simp

lemma promotion_spec:
  assumes "sched_inv s" "\<not> sch_closed s"
    and f: "foldl (promote_run t) (pruneActiveNodesLocked now s, []) (sch_queues s) = (s2, old)"
  shows "sched_inv (superseded s2 old)" "same_frame (pruneActiveNodesLocked now s) s2"
    "waiting_in (sch_queues s) = waiting_in (sch_queues s2) + strips old"
    "sch_probingTasks s2 = sch_probingTasks s" "sch_completed s2 = sch_completed s"
proof -
  let ?s1 = "pruneActiveNodesLocked now s"
  obtain m where m: "?s1 = s\<lparr>sch_activeNodes := m\<rparr>" "sched_inv (s\<lparr>sch_activeNodes := m\<rparr>)"
    using prune_spec[OF assms(1)] by blast
  have inv1: "sched_inv (superseded ?s1 [])" using m(2) by (simp add: superseded_def m(1))
  have ok: "gm_ok (sch_queues s)" using sched_invD(2)[OF assms(1)] by (simp add: queues_ok_def)
  have "distinct (map fst (sch_queues s))" "\<forall>(r, q) \<in> set (sch_queues s). gm_get (sch_queues ?s1) r = Some q"
    using ok gm_get_iff[OF ok] by (auto simp: gm_ok_def m(1))
  from promote_runs[OF inv1 _ this f] assms(2) show inv2: "sched_inv (superseded s2 old)" and fr: "same_frame ?s1 s2"
    by (simp_all add: m(1))
  have frame: "sch_accepted s2 = sch_accepted s" "sch_probingTasks s2 = sch_probingTasks s" "sch_completed s2 = sch_completed s"
    using promote_fold_frame[of t "(?s1, [])" "sch_queues s"] f by (simp_all add: m(1))
  then show "sch_probingTasks s2 = sch_probingTasks s" "sch_completed s2 = sch_completed s" by simp_all
  show "waiting_in (sch_queues s) = waiting_in (sch_queues s2) + strips old"
    using sched_invD(11)[OF inv2] sched_invD(11)[OF assms(1)] frame fr
    by (simp add: superseded_def pooled_def same_frame_def m(1) o_def ac_simps)
qed

lemma manual_refines:
  assumes "sched_inv s" "is_manual t"
  shows "refines s (snd (submitManualPreemptFront now t wait s))"
proof (cases "sch_closed s \<or> Task_RunID t \<in> set (sch_cancelledRuns s) \<or> manual_conflict now t (pruneActiveNodesLocked now s)")
  case True
  then show ?thesis by (auto simp: submitManualPreemptFront_def Let_def intro: idle)
next
  case False
  have q: "sch_queues (pruneActiveNodesLocked now s) = sch_queues s" "sch_closed (pruneActiveNodesLocked now s) = sch_closed s"
    "sch_cfg (pruneActiveNodesLocked now s) = sch_cfg s" "sch_returning (pruneActiveNodesLocked now s) = sch_returning s"
    by (simp_all add: pruneActiveNodesLocked_def Let_def)
  obtain s2 old where f: "foldl (promote_run t) (pruneActiveNodesLocked now s, []) (sch_queues s) = (s2, old)" by fastforce
  note sp = promotion_spec[OF assms(1) _ f]
  have fr: "sch_cfg s2 = sch_cfg s" "sch_closed s2 = sch_closed s" "sch_returning s2 = sch_returning s"
    using sp(2) False by (simp_all add: same_frame_def q)
  have inv2: "sched_inv (superseded s2 old)" using sp(1) False by blast
  have ok: "gm_ok (sch_queues s2)" and n: "sch_queued s2 = int (size (waiting_in (sch_queues s2)))"
    using sched_invD(2)[OF inv2] by (simp_all add: queues_ok_def superseded_def)
  show ?thesis
  proof (cases "sch_queued s2 < Cfg_QueueSize (sch_cfg s2)")
    case True
    let ?s3 = "front_task t (touch_record (task_key t) t s2)"
    have "waiting_in (sch_queues ?s3) = add_mset (strip t) (waiting_in (sch_queues s2))"
      using waiting_front[of "touch_record (task_key t) t s2" t] ok by (simp add: touch_record_def Let_def)
    then have "pool_of (?s3\<lparr>sch_returning := sch_returning ?s3 @ map (\<lambda>t. (t, None)) old\<rparr>) =
        (pool_of s)\<lparr>p_waiting := add_mset (strip t) (waiting_in (sch_queues s2)), p_returning := p_returning (pool_of s) + strips old\<rparr>"
      using sp(4,5) False fr
      by (simp add: pool_of_def front_task_def touch_record_def signalLocked_def Let_def o_def)
    moreover have "refines s s'" if "pool_of s' = (pool_of s)\<lparr>p_waiting := add_mset (strip t) (waiting_in (sch_queues s2)),
        p_returning := p_returning (pool_of s) + strips old\<rparr>" for s'
      using accept[of "pool_of s" "waiting_in (sch_queues s2)" "strips old"] sp(3) that True False n fr by simp
    ultimately show ?thesis using False True f by (simp add: submitManualPreemptFront_def Let_def q)
  next
    case full: False
    have "pool_of (s2\<lparr>sch_returning := sch_returning s2 @ map (\<lambda>t. (t, None)) old\<rparr>) =
        (pool_of s)\<lparr>p_waiting := waiting_in (sch_queues s2), p_returning := p_returning (pool_of s) + strips old\<rparr>"
      using sp(4,5) False fr by (simp add: pool_of_def o_def)
    with discard[of "pool_of s" "waiting_in (sch_queues s2)" "strips old"] sp(3) False full f show ?thesis
      by (simp add: submitManualPreemptFront_def Let_def q)
  qed
qed

lemma pool_of_frame [simp]:
  "pool_of (s\<lparr>sch_activeNodes := m\<rparr>) = pool_of s" "pool_of (s\<lparr>sch_skipped := ts\<rparr>) = pool_of s"
  "pool_of (s\<lparr>sch_ctxDone := b\<rparr>) = pool_of s" "pool_of (s\<lparr>sch_dispatcherDone := b\<rparr>) = pool_of s"
  "pool_of (touch_record k t s) = pool_of s"
  by (simp_all add: pool_of_def touch_record_def Let_def)

lemma prune_frame [simp]:
  "sch_queues (pruneActiveNodesLocked now s) = sch_queues s" "sch_cfg (pruneActiveNodesLocked now s) = sch_cfg s"
  "sch_queued (pruneActiveNodesLocked now s) = sch_queued s" "sch_probingTasks (pruneActiveNodesLocked now s) = sch_probingTasks s"
  "sch_queues (touch_record k t s) = sch_queues s"
  by (simp_all add: pruneActiveNodesLocked_def touch_record_def Let_def)

lemma strict_refines: "sched_inv s \<Longrightarrow> refines s (snd (submitStrictConflict now t wait s))"
  by (auto simp: submitStrictConflict_def Let_def enqueueTaskLocked_def split: option.split intro: idle intro!: append_refines)

lemma periodic_refines: "sched_inv s \<Longrightarrow> refines s (snd (submitPeriodicDedupe now t wait s))"
  by (auto simp: submitPeriodicDedupe_def Let_def intro: idle intro!: append_refines)

lemma submit_refines: "sched_inv s \<Longrightarrow> refines s (snd (submit ctxErr now t wait s))"
  using manual_refines[of s t now wait] strict_refines[of s now t wait] periodic_refines[of s now t wait]
  by (auto simp: submit_def is_manual_def intro: idle split: option.split)

subsection \<open>The other sections\<close>

lemma dispatch_refines:
  assumes "sched_inv s"
  shows "refines s (dispatch s)"
proof (cases "sch_closed s \<or> sch_activeCount s \<ge> Cfg_Concurrency (sch_cfg s) \<or> sch_queued s = 0 \<or> nextEligibleLocked s = None")
  case True
  then show ?thesis by (auto simp: dispatch_def intro: idle)
next
  case False
  then obtain t s1 where n: "nextEligibleLocked s = Some (t, s1)" by auto
  from nextEligible_spec[OF assms n] obtain Q' order' cur where s1:
    "s1 = signalLocked (s\<lparr>sch_queued := sch_queued s - 1, sch_queues := Q', sch_runOrder := order', sch_runCursor := cur\<rparr>)"
    and w: "waiting_in (sch_queues s) = add_mset (strip t) (waiting_in Q')" by metis
  have "running_in (gm_put (sch_probingTasks s) (sch_nextExecID s + 1) t) = add_mset (strip t) (running_in (sch_probingTasks s))"
    by (rule running_in_put[OF active_ok_spawn(2)[OF sched_invD(3)[OF assms]]])
  then have "pool_of (dispatch s) =
      (pool_of s)\<lparr>p_waiting := waiting_in Q', p_running := add_mset (strip t) (p_running (pool_of s))\<rparr>"
    using False by (simp add: pool_of_def dispatch_def n Let_def s1 signalLocked_def)
  with start[of "pool_of s" "strip t" "waiting_in Q'"] w False inv_active[OF assms] show ?thesis by simp
qed

lemma finish_refines:
  assumes "sched_inv s" "gm_get (sch_probingTasks s) e = Some t"
  shows "refines s (begin_callback e t err (finishTaskExecutionLocked now t e sq s))"
proof -
  have "gm_ok (sch_probingTasks s)" using sched_invD(3)[OF assms(1)] by (simp add: active_ok_def)
  note del = running_in_del[OF this assms(2)]
  have "pool_of (begin_callback e t err (finishTaskExecutionLocked now t e sq s)) =
      (pool_of s)\<lparr>p_running := running_in (gm_del (sch_probingTasks s) e), p_returning := add_mset (strip t) (p_returning (pool_of s))\<rparr>"
    by (simp add: pool_of_def begin_callback_def finishTaskExecutionLocked_def Let_def signalLocked_def)
  with finish[of "pool_of s" "strip t"] del show ?thesis by simp
qed

lemma start_refines:
  assumes "sched_inv s" "gm_get (sch_probingTasks s) e = Some t"
  shows "refines s (processTask_start now t e s)"
proof (cases "sch_closed s \<or> Task_RunID t \<in> set (sch_cancelledRuns s)")
  case True
  with finish_refines[OF assms] show ?thesis by (auto simp: processTask_start_def)
next
  case False
  then have "pool_of (processTask_start now t e s) = pool_of s" by (simp add: pool_of_def processTask_start_def Let_def)
  then show ?thesis by (simp add: idle)
qed

lemma callback_refines:
  assumes "i < length (sch_returning s)"
  shows "refines s (completeCallback i s)"
proof -
  let ?t = "strip (fst (sch_returning s ! i))" and ?r = "strips (map fst (remove_nth i (sch_returning s)))"
  have r: "p_returning (pool_of s) = add_mset ?t ?r"
    using strips_remove_nth[of i "map fst (sch_returning s)"] assms by (simp add: map_remove_nth)
  have "pool_of (completeCallback i s) = (pool_of s)\<lparr>p_returning := ?r, p_completed := add_mset ?t (p_completed (pool_of s))\<rparr>"
    by (simp add: pool_of_def completeCallback_def signalLocked_def)
  with complete[OF r] show ?thesis by simp
qed

lemma cancel_refines:
  assumes "sched_inv s"
  shows "refines s (CancelRun now run s)"
proof -
  let ?q = "gm_get_or [] (sch_queues s) run"
  have "gm_ok (sch_queues s)" using sched_invD(2)[OF assms] by (simp add: queues_ok_def)
  then have w: "p_waiting (pool_of s) = waiting_in (gm_del (sch_queues s) run) + strips ?q" using waiting_in_del by simp
  have "pool_of (CancelRun now run s) = (pool_of s)\<lparr>p_waiting := waiting_in (gm_del (sch_queues s) run),
      p_returning := p_returning (pool_of s) + strips ?q\<rparr>"
    by (simp add: pool_of_def CancelRun_eq Let_def signalLocked_def o_def)
  with discard[OF w] show ?thesis by simp
qed

lemma close_refines: "refines s (Close now s)"
proof (cases "sch_closed s")
  case False
  then have "pool_of (Close now s) =
      (pool_of s)\<lparr>p_waiting := {#}, p_returning := p_returning (pool_of s) + p_waiting (pool_of s), p_closed := True\<rparr>"
    by (simp add: pool_of_def Close_def Let_def signalLocked_def waiting_in_def o_def)
  then show ?thesis by (simp only: shut)
qed (simp add: Close_def idle)

lemma step_refines: "sched_step s s' \<Longrightarrow> sched_inv s \<Longrightarrow> refines s s'"
proof (induction rule: sched_step.induct)
  case (ends s e k t now err)
  then show ?case unfolding processTask_end_def by (intro finish_refines)
qed (auto intro: submit_refines dispatch_refines start_refines callback_refines cancel_refines close_refines idle)

subsection \<open>What every step leaves alone\<close>

lemma submit_cfg: "sch_cfg (snd (submit ctxErr now t wait s)) = sch_cfg s \<and>
   sch_nextExecID (snd (submit ctxErr now t wait s)) = sch_nextExecID s \<and>
   sch_dispatcherDone (snd (submit ctxErr now t wait s)) = sch_dispatcherDone s"
proof -
  let ?same = "\<lambda>a b. sch_cfg a = sch_cfg b \<and> sch_nextExecID a = sch_nextExecID b \<and> sch_dispatcherDone a = sch_dispatcherDone b"
  have p: "?same (pruneActiveNodesLocked now s) s" by (simp add: pruneActiveNodesLocked_def Let_def)
  have d: "?same (drop_run run u) u" for run u by (simp add: drop_run_def Let_def)
  have r: "?same (fst (promote_run t acc rq)) (fst acc)" for acc rq
    by (auto simp: promote_run_def Let_def d split: prod.splits)
  have f: "?same (fst (foldl (promote_run t) acc rqs)) (fst acc)" for acc rqs
    by (induction rqs arbitrary: acc) (auto simp: r)
  have "?same (snd (submitManualPreemptFront now t wait s)) s"
    using f[of "(pruneActiveNodesLocked now s, [])" "sch_queues s"] p
    by (auto simp: submitManualPreemptFront_def Let_def front_task_def touch_record_def signalLocked_def split: prod.splits)
  then show ?thesis using p
    by (auto simp: submit_def submitStrictConflict_def submitPeriodicDedupe_def Let_def enqueueTaskLocked_def append_task_def
        touch_record_def signalLocked_def split: option.splits)
qed

lemma step_cfg: "sched_step s s' \<Longrightarrow> sched_inv s \<Longrightarrow> sch_cfg s' = sch_cfg s"
proof (induction rule: sched_step.induct)
  case (dispatches s)
  then show ?case by (auto simp: dispatch_def Let_def signalLocked_def split: option.split elim!: nextEligible_spec)
qed (simp_all add: submit_cfg processTask_start_def processTask_end_def begin_callback_def finishTaskExecutionLocked_def
    completeCallback_def CancelRun_eq Close_def Let_def signalLocked_def)

lemma stopped_step:
  assumes "sched_step s s'" "sch_dispatcherDone s"
  shows "sch_dispatcherDone s' \<and> sch_nextExecID s' = sch_nextExecID s"
  using assms
  by (induction rule: sched_step.induct) (simp_all add: submit_cfg processTask_start_def processTask_end_def begin_callback_def
    finishTaskExecutionLocked_def completeCallback_def CancelRun_eq Close_def Let_def signalLocked_def)

lemma stopped_steps:
  "sched_step\<^sup>*\<^sup>* s s' \<Longrightarrow> sch_dispatcherDone s \<Longrightarrow> sch_dispatcherDone s' \<and> sch_nextExecID s' = sch_nextExecID s"
  by (induction rule: rtranclp_induct) (auto dest: stopped_step)

subsection \<open>Properties\<close>

text \<open>
  C4. The scheduler refines the abstract pool: a new scheduler is an empty pool, every step of the
  scheduler is a step of the pool with the configured limits or leaves it unchanged, and so every
  reachable scheduler is a reachable pool. In particular a task only moves from waiting to executing
  to its callback to completed, or from waiting straight to its callback.
\<close>

theorem scheduler_refines_pool:
  assumes "sched_reachable cfg s"
  shows "pool_reachable (Cfg_Concurrency (sch_cfg s)) (Cfg_QueueSize (sch_cfg s)) (pool_of s) \<and>
         (\<forall>s'. sched_step s s' \<longrightarrow>
            pool_step (Cfg_Concurrency (sch_cfg s)) (Cfg_QueueSize (sch_cfg s)) (pool_of s) (pool_of s'))"
  using assms
proof (induction rule: sched_reachable.induct)
  case (initial s)
  then have "pool_of s = empty_pool"
    by (auto simp: NewScheduler_def Let_def pool_of_def empty_pool_def running_in_def split: if_splits)
  then have "pool_reachable (Cfg_Concurrency (sch_cfg s)) (Cfg_QueueSize (sch_cfg s)) (pool_of s)"
    by (simp add: pool_reachable.empty)
  with step_refines[OF _ NewScheduler_inv[OF initial]] show ?case by blast
next
  case (step s s')
  have inv: "sched_inv s" "sched_inv s'" using reachable_inv sched_reachable.step step.hyps by blast+
  have "pool_reachable (Cfg_Concurrency (sch_cfg s)) (Cfg_QueueSize (sch_cfg s)) (pool_of s')"
    using step.IH step.hyps(2) by (blast intro: pool_reachable.step)
  with step_cfg[OF step.hyps(2) inv(1)] step_refines[OF _ inv(2)] show ?case by simp
qed

theorem scheduler_refines_pool_witness:
  "pool_step 2 3 (pool_of example_queued) (pool_of (dispatch example_queued))"
proof -
  have "sched_step example_queued (dispatch example_queued)" using example_queued_state by (blast intro: dispatches)
  moreover have "Cfg_Concurrency (sch_cfg example_queued) = 2 \<and> Cfg_QueueSize (sch_cfg example_queued) = 3" by code_simp
  ultimately show ?thesis using scheduler_refines_pool[OF example_queued_reachable] by simp
qed

definition undrained :: "Scheduler \<Rightarrow> nat" where
  "undrained s = 2 * length (sch_workers s) + length (sch_returning s) + (if sch_dispatcherDone s then 0 else 1)"

lemma closed_progress:
  assumes "sched_inv s" "sch_closed s" "undrained s \<noteq> 0"
  shows "\<exists>s'. sched_step s s' \<and> sch_closed s' \<and> undrained s' < undrained s"
proof -
  have "gm_get (sch_workers s) (fst (hd (sch_workers s))) \<noteq> None" if "sch_workers s \<noteq> []"
    using that by (cases "sch_workers s") (auto simp: gm_get_def)
  then consider (disp) "\<not> sch_dispatcherDone s" | (ret) "sch_returning s \<noteq> []" | (work) e w where "gm_get (sch_workers s) e = Some w"
    using assms(3) unfolding undrained_def by fastforce
  then show ?thesis
  proof cases
    case disp
    from dispatches[OF this] assms(2) disp show ?thesis by (auto simp: dispatch_def undrained_def)
  next
    case ret
    then have "sched_step s (completeCallback 0 s)" by (intro returns) simp
    moreover have "sch_closed (completeCallback 0 s) \<and> undrained (completeCallback 0 s) < undrained s"
      using ret assms(2) by (simp add: completeCallback_def undrained_def signalLocked_def remove_nth_def)
    ultimately show ?thesis by blast
  next
    case work
    have act: "gm_ok (sch_workers s)" "gm_get (sch_workers s) e = None \<longleftrightarrow> gm_get (sch_probingTasks s) e = None"
      using sched_invD(3)[OF assms(1)] unfolding active_ok_def by blast+
    then obtain t where t: "gm_get (sch_probingTasks s) e = Some t" using work by auto
    let ?s = "\<lambda>err sq. begin_callback e t err (finishTaskExecutionLocked 0 t e sq s)"
    have less: "sch_closed (?s err sq) \<and> undrained (?s err sq) < undrained s" for err sq
      using length_gm_del[OF act(1) work] assms(2)
      by (simp add: undrained_def begin_callback_def finishTaskExecutionLocked_def Let_def signalLocked_def)
    show ?thesis
    proof (cases w)
      case Spawned
      have "processTask_start 0 t e s = ?s (Some ContextCanceled) None" using assms(2) by (simp add: processTask_start_def)
      with starts[of s e t 0] work t Spawned less show ?thesis by metis
    next
      case (Executing k)
      have "processTask_end 0 t e k None s = ?s None (Some k)" by (simp add: processTask_end_def)
      with ends[of s e k t 0 None] work t Executing less show ?thesis by metis
    qed
  qed
qed

lemma closed_drains: "sched_inv s \<Longrightarrow> sch_closed s \<Longrightarrow> \<exists>s'. sched_step\<^sup>*\<^sup>* s s' \<and> sched_inv s' \<and> sch_closed s' \<and> undrained s' = 0"
proof (induction "undrained s" arbitrary: s rule: less_induct)
  case less
  show ?case
  proof (cases "undrained s = 0")
    case False
    then obtain s1 where s1: "sched_step s s1" "sch_closed s1" "undrained s1 < undrained s"
      using closed_progress less.prems by blast
    with less.hyps[OF s1(3) sched_step_inv[OF s1(1) less.prems(1)] s1(2)] show ?thesis
      by (meson converse_rtranclp_into_rtranclp)
  qed (use less.prems in blast)
qed

text \<open>
  C26. A closed scheduler can always be drained: from every reachable closed state the goroutines that are
  left, each running to its end, lead to a state in which \<open>Drain\<close> and \<open>Wait\<close> return. No state after
  \<open>Close\<close> is a deadlock.
\<close>

theorem Close_can_drain:
  assumes "sched_reachable cfg s" "sch_closed s"
  shows "\<exists>s'. sched_step\<^sup>*\<^sup>* s s' \<and> Drain_ready s' \<and> Wait_ready s'"
proof -
  obtain s' where s': "sched_step\<^sup>*\<^sup>* s s'" "sched_inv s'" "sch_closed s'" "undrained s' = 0"
    using closed_drains[OF reachable_inv[OF assms(1)] assms(2)] by blast
  have q: "sch_queued s' = 0" using inv_queued[OF s'(2)] sched_invD(12)[OF s'(2,3)] by simp
  have "sch_workers s' = []" using s'(4) by (simp add: undrained_def split: if_splits)
  then have none: "gm_get (sch_probingTasks s') e = None" for e
    using sched_invD(3)[OF s'(2)] by (simp add: active_ok_def gm_get_def)
  have "sch_probingTasks s' = []"
    using none[of "fst (hd (sch_probingTasks s'))"] by (cases "sch_probingTasks s'") (auto simp: gm_get_def)
  then have "sch_activeCount s' = 0" using inv_active[OF s'(2)] by (simp add: running_in_def)
  with q sched_invD(9,10)[OF s'(2)] s'(4) have "Drain_ready s' \<and> Wait_ready s'"
    by (simp add: Drain_ready_def Wait_ready_def undrained_def split: if_splits)
  with s'(1) show ?thesis by blast
qed

theorem Close_can_drain_witness: "\<exists>s'. sched_step\<^sup>*\<^sup>* (Close 5 example_running) s' \<and> Drain_ready s' \<and> Wait_ready s'"
proof (rule Close_can_drain)
  show "sched_reachable example_cfg (Close 5 example_running)" by (rule sched_reachable.step[OF example_running_reachable closes])
  show "sch_closed (Close 5 example_running)" by code_simp
qed

text \<open>
  C40. A scheduler whose dispatcher has stopped because the parent context is done, but that is not closed,
  still accepts tasks: a periodic submission that finds room and a node that is not in the pool
  returns success, although no task is ever dispatched again, whatever happens next.
\<close>

theorem stopped_dispatcher_accepts:
  assumes "sch_dispatcherDone s" "\<not> sch_closed s" "Task_RunID t \<notin> set (sch_cancelledRuns s)"
    and "Task_Mode t = EnqueuePeriodicDedupe" "\<not> isNodeInPoolForPeriodicLocked t s"
    and "sch_queued s < Cfg_QueueSize (sch_cfg s)"
  shows "fst (submit None now t wait s) = Returned None \<and>
         sch_queued (snd (submit None now t wait s)) = sch_queued s + 1 \<and>
         (\<forall>s'. sched_step\<^sup>*\<^sup>* (snd (submit None now t wait s)) s' \<longrightarrow> sch_nextExecID s' = sch_nextExecID s)"
proof (intro conjI allI impI)
  show "fst (submit None now t wait s) = Returned None" "sch_queued (snd (submit None now t wait s)) = sch_queued s + 1"
    using assms(2-6) by (simp_all add: submit_def submitPeriodicDedupe_def Let_def append_task_def signalLocked_def touch_record_def)
  show "sch_nextExecID s' = sch_nextExecID s" if "sched_step\<^sup>*\<^sup>* (snd (submit None now t wait s)) s'" for s'
    using stopped_steps[OF that] assms(1) submit_cfg[of None now t wait s] by simp
qed

definition example_stopped :: Scheduler where
  "example_stopped = (example_new\<lparr>sch_ctxDone := True\<rparr>)\<lparr>sch_dispatcherDone := True\<rparr>"

theorem stopped_dispatcher_accepts_witness:
  "sched_reachable example_cfg example_stopped \<and>
   fst (submit None 0 (example_task ''r'' ''a'' 1) False example_stopped) = Returned None"
proof
  have "sched_reachable example_cfg (example_new\<lparr>sch_ctxDone := True\<rparr>)"
    by (rule sched_reachable.step[OF example_new_reachable parent_done])
  moreover have "sched_step (example_new\<lparr>sch_ctxDone := True\<rparr>) example_stopped"
    unfolding example_stopped_def by (rule dispatcher_exits) simp
  ultimately show "sched_reachable example_cfg example_stopped" by (rule sched_reachable.step)
  show "fst (submit None 0 (example_task ''r'' ''a'' 1) False example_stopped) = Returned None"
    by (rule stopped_dispatcher_accepts[THEN conjunct1]) code_simp+
qed

end
