(* ===== verification/Probe_Lifecycle.thy ===== *)
theory Probe_Lifecycle
  imports Domain_Model
begin

section \<open>Probe runs, schedules and node health (domain/probe.go, probe_schedule.go, probe_health.go)\<close>

text \<open>
  The state machines of probe runs and probe batches, which share the contract \<open>lifecycle\<close>, the
  validation of schedules, and the classification of a node from its observations. The current
  time is an argument; \<open>NowUTC\<close> cuts it to milliseconds.
\<close>

definition NowUTC :: "time \<Rightarrow> time" where
  "NowUTC t = t - t mod 1000000"

subsection \<open>Probe runs\<close>

record ProbeRun =
  Run_ID :: string
  Run_IdempotencyKey :: string
  Run_ActorScope :: string
  Run_ConfigRevision :: string
  Run_State :: string
  Run_DeadlineAt :: time
  Run_CreatedAt :: time
  Run_UpdatedAt :: time

definition ProbeRun_CanTransitionTo :: "ProbeRun \<Rightarrow> string \<Rightarrow> bool" where
  "ProbeRun_CanTransitionTo r target =
     (if \<not> ProbeRunState_IsValid target then False
      else if ProbeRunState_IsTerminal (Run_State r) then False
      else if Run_State r = ProbeRunStateQueued
      then target = ProbeRunStateRunning \<or> target = ProbeRunStateCancelled \<or> target = ProbeRunStateExpired
      else if Run_State r = ProbeRunStateRunning
      then target = ProbeRunStateSucceeded \<or> target = ProbeRunStateFailed \<or> target = ProbeRunStateCancelled \<or>
           target = ProbeRunStateExpired
      else False)"

definition ProbeRun_TransitionTo :: "time \<Rightarrow> ProbeRun \<Rightarrow> string \<Rightarrow> ProbeRun result" where
  "ProbeRun_TransitionTo now r target =
     (if \<not> ProbeRun_CanTransitionTo r target then Inl (new_conflict_error ''invalid_state_transition'')
      else Inr (r\<lparr>Run_State := target, Run_UpdatedAt := NowUTC now\<rparr>))"

subsection \<open>Schedules and batches\<close>

record ProbeSchedule =
  Sched_Enabled :: bool
  Sched_IntervalSeconds :: int
  Sched_Kinds :: "string list"
  Sched_NextDueAt :: "time option"
  Sched_Generation :: int
  Sched_UpdatedAt :: time

definition DefaultProbeSchedule :: "time \<Rightarrow> ProbeSchedule" where
  "DefaultProbeSchedule now = \<lparr>Sched_Enabled = False, Sched_IntervalSeconds = 3600, Sched_Kinds = [ProbeKindBaseline],
     Sched_NextDueAt = None, Sched_Generation = 0, Sched_UpdatedAt = NowUTC now\<rparr>"

fun check_kinds :: "string list \<Rightarrow> string list \<Rightarrow> go_error" where
  "check_kinds seen [] = None"
| "check_kinds seen (k # ks) =
     (if \<not> ProbeKind_IsValid k then Some (new_validation_error ''invalid_probe_kind'')
      else if k \<in> set seen then Some (new_validation_error ''duplicate_probe_kind'')
      else check_kinds (k # seen) ks)"

definition ProbeSchedule_Validate :: "ProbeSchedule \<Rightarrow> go_error" where
  "ProbeSchedule_Validate s =
     (if Sched_IntervalSeconds s < 60 \<or> Sched_IntervalSeconds s > 604800
      then Some (new_validation_error ''invalid_probe_schedule_interval'')
      else if Sched_Kinds s = [] then Some (new_validation_error ''invalid_probe_schedule_kinds'')
      else check_kinds [] (Sched_Kinds s))"

definition ProbeBatchStatePending :: string where [enum_defs]: "ProbeBatchStatePending = ''pending''"
definition ProbeBatchStateRunning :: string where [enum_defs]: "ProbeBatchStateRunning = ''running''"
definition ProbeBatchStateSucceeded :: string where [enum_defs]: "ProbeBatchStateSucceeded = ''succeeded''"
definition ProbeBatchStateFailed :: string where [enum_defs]: "ProbeBatchStateFailed = ''failed''"
definition ProbeBatchStateCancelled :: string where [enum_defs]: "ProbeBatchStateCancelled = ''cancelled''"
definition ProbeBatchStateExpired :: string where [enum_defs]: "ProbeBatchStateExpired = ''expired''"

definition validProbeBatchStates :: "string list" where
  [enum_defs]: "validProbeBatchStates =
     [ProbeBatchStatePending, ProbeBatchStateRunning, ProbeBatchStateSucceeded,
      ProbeBatchStateFailed, ProbeBatchStateCancelled, ProbeBatchStateExpired]"

definition ProbeBatchState_IsValid :: "string \<Rightarrow> bool" where
  "ProbeBatchState_IsValid v \<longleftrightarrow> v \<in> set validProbeBatchStates"

definition ProbeBatchState_IsTerminal :: "string \<Rightarrow> bool" where
  "ProbeBatchState_IsTerminal s \<longleftrightarrow>
     s = ProbeBatchStateSucceeded \<or> s = ProbeBatchStateFailed \<or> s = ProbeBatchStateCancelled \<or> s = ProbeBatchStateExpired"

definition ParseProbeBatchState :: "string \<Rightarrow> string result" where
  "ParseProbeBatchState s = parse_enum validProbeBatchStates ''invalid_probe_batch_state'' s"

interpretation batch_state_enum: string_enum validProbeBatchStates ProbeBatchState_IsValid ParseProbeBatchState "''invalid_probe_batch_state''"
  by unfold_locales
    (simp_all add: ProbeBatchState_IsValid_def ParseProbeBatchState_def, erule enum_canonical[rotated],
      simp add: enum_defs string_defs)

record ProbeBatchCounts =
  Counts_TotalNodes :: int
  Counts_DispatchedRuns :: int
  Counts_CompletedRuns :: int
  Counts_SkippedNodes :: int

record ProbeBatch =
  Batch_ID :: string
  Batch_WindowAt :: time
  Batch_Generation :: int
  Batch_Owner :: string
  Batch_LeaseUntil :: "time option"
  Batch_State :: string
  Batch_RunIDs :: "string list"
  Batch_Counts :: ProbeBatchCounts
  Batch_RedactedError :: string
  Batch_CreatedAt :: time
  Batch_UpdatedAt :: time

definition ProbeBatch_CanTransitionTo :: "ProbeBatch \<Rightarrow> string \<Rightarrow> bool" where
  "ProbeBatch_CanTransitionTo b target =
     (if \<not> ProbeBatchState_IsValid target then False
      else if ProbeBatchState_IsTerminal (Batch_State b) then False
      else if Batch_State b = ProbeBatchStatePending
      then target = ProbeBatchStateRunning \<or> target = ProbeBatchStateCancelled \<or> target = ProbeBatchStateExpired
      else if Batch_State b = ProbeBatchStateRunning
      then target = ProbeBatchStateSucceeded \<or> target = ProbeBatchStateFailed \<or> target = ProbeBatchStateCancelled \<or>
           target = ProbeBatchStateExpired
      else False)"

definition ProbeBatch_TransitionTo :: "time \<Rightarrow> ProbeBatch \<Rightarrow> string \<Rightarrow> ProbeBatch result" where
  "ProbeBatch_TransitionTo now b target =
     (if \<not> ProbeBatch_CanTransitionTo b target then Inl (new_conflict_error ''invalid_batch_state_transition'')
      else Inr (b\<lparr>Batch_State := target, Batch_UpdatedAt := NowUTC now\<rparr>))"

subsection \<open>The contract of a state machine\<close>

text \<open>
  Transitions climb a rank of at most 2; terminal objects have none, and an object of top rank is
  terminal.
\<close>

definition moves :: "(time \<Rightarrow> 'a \<Rightarrow> string \<Rightarrow> 'a result) \<Rightarrow> 'a \<Rightarrow> 'a \<Rightarrow> bool" where
  "moves transition x y \<longleftrightarrow> (\<exists>now target. transition now x target = Inr y)"

locale lifecycle =
  fixes transition :: "time \<Rightarrow> 'a \<Rightarrow> string \<Rightarrow> 'a result"
    and terminal :: "'a \<Rightarrow> bool"
    and rank :: "'a \<Rightarrow> nat"
  assumes climbs: "transition now x target = Inr y \<Longrightarrow> rank x < rank y"
    and top: "transition now x target = Inr y \<Longrightarrow> rank y \<le> 2"
    and top_terminal: "transition now x target = Inr y \<Longrightarrow> rank y = 2 \<Longrightarrow> terminal y"
    and terminal_stuck: "terminal x \<Longrightarrow> \<exists>e. transition now x target = Inl e"
begin

lemma moves_rank: "(moves transition ^^ n) x y \<Longrightarrow> rank x + n \<le> rank y \<and> (n \<noteq> 0 \<longrightarrow> rank y \<le> 2)"
proof (induction n arbitrary: y)
  case (Suc n)
  then obtain z where z: "(moves transition ^^ n) x z" "moves transition z y" by (auto elim: relpowp_Suc_E)
  then obtain now target where t: "transition now z target = Inr y" by (auto simp: moves_def)
  from climbs[OF t] top[OF t] Suc.IH[OF z(1)] show ?case by simp
qed simp

lemma moves_terminal: "terminal x \<Longrightarrow> (moves transition ^^ n) x y \<Longrightarrow> n = 0"
proof (rule ccontr)
  assume "terminal x" "(moves transition ^^ n) x y" "n \<noteq> 0"
  then obtain z where "moves transition x z" by (cases n) (simp, metis relpowp_Suc_D2)
  with terminal_stuck[OF \<open>terminal x\<close>] show False unfolding moves_def by (metis Inl_Inr_False)
qed

lemma moves_two:
  assumes "(moves transition ^^ 2) x y"
  shows "terminal y"
proof -
  obtain z where z: "moves transition x z" "moves transition z y" using assms by (auto simp: numeral_2_eq_2 relcompp_apply)
  then obtain now target now' target' where t: "transition now x target = Inr z" "transition now' z target' = Inr y"
    by (auto simp: moves_def)
  with climbs[OF t(1)] climbs[OF t(2)] top[OF t(2)] have "rank y = 2" by linarith
  with top_terminal[OF t(2)] show ?thesis by simp
qed

lemma bounded: "(moves transition ^^ n) x y \<Longrightarrow> n \<le> 2 \<and> (n = 2 \<longrightarrow> terminal y) \<and> (terminal x \<longrightarrow> n = 0)"
  using moves_rank[of n x y] moves_terminal[of x n y] moves_two[of x y] by fastforce

end

definition run_rank :: "ProbeRun \<Rightarrow> nat" where
  "run_rank r = (if Run_State r = ProbeRunStateQueued then 0 else if Run_State r = ProbeRunStateRunning then 1 else 2)"

definition batch_rank :: "ProbeBatch \<Rightarrow> nat" where
  "batch_rank b = (if Batch_State b = ProbeBatchStatePending then 0 else if Batch_State b = ProbeBatchStateRunning then 1 else 2)"

lemmas run_defs = ProbeRun_TransitionTo_def ProbeRun_CanTransitionTo_def ProbeRunState_IsTerminal_def run_rank_def enum_defs
lemmas batch_defs = ProbeBatch_TransitionTo_def ProbeBatch_CanTransitionTo_def ProbeBatchState_IsTerminal_def batch_rank_def enum_defs

interpretation run_cycle: lifecycle ProbeRun_TransitionTo "\<lambda>r. ProbeRunState_IsTerminal (Run_State r)" run_rank
  by unfold_locales (auto simp: run_defs split: if_splits)

interpretation batch_cycle: lifecycle ProbeBatch_TransitionTo "\<lambda>b. ProbeBatchState_IsTerminal (Batch_State b)" batch_rank
  by unfold_locales (auto simp: batch_defs split: if_splits)


subsection \<open>Node health\<close>

definition BaselineHealthy :: string where [enum_defs]: "BaselineHealthy = ''healthy''"
definition BaselineDegraded :: string where [enum_defs]: "BaselineDegraded = ''degraded''"
definition BaselineUnhealthy :: string where [enum_defs]: "BaselineUnhealthy = ''unhealthy''"
definition BaselineUnknown :: string where [enum_defs]: "BaselineUnknown = ''unknown''"

definition EvaluateBaselineHealth :: "ProbeObservation option \<Rightarrow> int \<Rightarrow> time \<Rightarrow> duration \<Rightarrow> string \<times> bool" where
  "EvaluateBaselineHealth obs revision now freshness =
     (case obs of
        None \<Rightarrow> (BaselineUnknown, False)
      | Some ob \<Rightarrow>
          if Obs_Kind ob \<noteq> ProbeKindBaseline \<or> Obs_ConnectionRevision ob = None \<or> revision < 1 \<or>
             Obs_ConnectionRevision ob \<noteq> Some revision \<or> freshness \<le> 0 \<or> Obs_ObservedAt ob > now \<or>
             time_sub now (Obs_ObservedAt ob) \<ge> freshness
          then (BaselineUnknown, False)
          else if Obs_Verdict ob = VerdictAvailable then (BaselineHealthy, Obs_LatencyMS ob > 0)
          else if Obs_Verdict ob = VerdictRestricted then (BaselineDegraded, Obs_LatencyMS ob > 0)
          else if Obs_Verdict ob = VerdictError \<and> contains (Obs_RedactedSummary ob) ''reason=node_connect_failed''
          then (BaselineUnhealthy, False)
          else (BaselineUnknown, False))"

definition HealthCategoryHealthy :: string where [enum_defs]: "HealthCategoryHealthy = ''healthy''"
definition HealthCategoryDegraded :: string where [enum_defs]: "HealthCategoryDegraded = ''degraded''"
definition HealthCategoryUnhealthy :: string where [enum_defs]: "HealthCategoryUnhealthy = ''unhealthy''"
definition HealthCategoryUndetermined :: string where [enum_defs]: "HealthCategoryUndetermined = ''undetermined''"
definition HealthCategoryUntested :: string where [enum_defs]: "HealthCategoryUntested = ''untested''"

definition ClassifyNodeHealth :: "(string, ProbeObservation) gomap \<Rightarrow> int \<Rightarrow> time \<Rightarrow> duration \<Rightarrow> string" where
  "ClassifyNodeHealth observations currentRevision now freshness =
     (if observations = [] then HealthCategoryUntested
      else (let health = fst (EvaluateBaselineHealth (gm_get observations ProbeKindBaseline) currentRevision now freshness)
            in if health = BaselineHealthy then HealthCategoryHealthy
               else if health = BaselineDegraded then HealthCategoryDegraded
               else if health = BaselineUnhealthy then HealthCategoryUnhealthy
               else HealthCategoryUndetermined))"

definition keep_latest :: "(string, ProbeObservation) gomap \<Rightarrow> ProbeObservation \<Rightarrow> (string, ProbeObservation) gomap" where
  "keep_latest m ob =
     (case gm_get m (Obs_Kind ob) of
        None \<Rightarrow> gm_put m (Obs_Kind ob) ob
      | Some existing \<Rightarrow>
          if Obs_ObservedAt ob > Obs_ObservedAt existing \<or>
             Obs_ObservedAt ob = Obs_ObservedAt existing \<and> Obs_ID ob > Obs_ID existing
          then gm_put m (Obs_Kind ob) ob else m)"

definition ClassifyNodeHealthFromSlice :: "ProbeObservation list \<Rightarrow> int \<Rightarrow> time \<Rightarrow> duration \<Rightarrow> string" where
  "ClassifyNodeHealthFromSlice observations currentRevision now freshness =
     (if observations = [] then HealthCategoryUntested
      else ClassifyNodeHealth (foldl keep_latest [] observations) currentRevision now freshness)"

text \<open>An observation is superseded by a later one of its kind, ties going to the larger identifier.\<close>

definition superseded_by :: "ProbeObservation \<Rightarrow> ProbeObservation \<Rightarrow> bool" where
  "superseded_by a b \<longleftrightarrow> Obs_Kind b = Obs_Kind a \<and>
     (Obs_ObservedAt b > Obs_ObservedAt a \<or> Obs_ObservedAt b = Obs_ObservedAt a \<and> Obs_ID b > Obs_ID a)"

definition latest_in :: "ProbeObservation set \<Rightarrow> string \<Rightarrow> ProbeObservation \<Rightarrow> bool" where
  "latest_in S k ob \<longleftrightarrow> ob \<in> S \<and> Obs_Kind ob = k \<and> (\<forall>b \<in> S. \<not> superseded_by ob b)"

definition table_ok :: "(string, ProbeObservation) gomap \<Rightarrow> ProbeObservation set \<Rightarrow> bool" where
  "table_ok m S \<longleftrightarrow> (\<forall>k. case gm_get m k of None \<Rightarrow> \<forall>b \<in> S. Obs_Kind b \<noteq> k | Some ob \<Rightarrow> latest_in S k ob)"

lemma keep_latest_get:
  "gm_get (keep_latest m ob) k =
     (if k = Obs_Kind ob \<and> (case gm_get m k of None \<Rightarrow> True | Some e \<Rightarrow> superseded_by e ob \<or> Obs_Kind e \<noteq> k \<and>
          (Obs_ObservedAt ob > Obs_ObservedAt e \<or> Obs_ObservedAt ob = Obs_ObservedAt e \<and> Obs_ID ob > Obs_ID e))
      then Some ob else gm_get m k)"
  by (auto simp: keep_latest_def superseded_by_def split: option.split)

lemma superseded_by_trans: "superseded_by a b \<Longrightarrow> \<not> superseded_by c b \<Longrightarrow> Obs_Kind c = Obs_Kind a \<Longrightarrow> superseded_by a c"
  by (auto simp: superseded_by_def)

lemma keep_latest_ok:
  assumes "table_ok m S"
  shows "table_ok (keep_latest m ob) (insert ob S)"
  unfolding table_ok_def
proof
  fix k
  have old: "case gm_get m k of None \<Rightarrow> \<forall>b \<in> S. Obs_Kind b \<noteq> k | Some e \<Rightarrow> latest_in S k e"
    using assms by (simp add: table_ok_def)
  show "case gm_get (keep_latest m ob) k of None \<Rightarrow> \<forall>b \<in> insert ob S. Obs_Kind b \<noteq> k | Some e \<Rightarrow> latest_in (insert ob S) k e"
  proof (cases "gm_get m k")
    case None
    with old show ?thesis by (auto simp: keep_latest_get latest_in_def superseded_by_def)
  next
    case (Some e)
    with old have e: "e \<in> S" "Obs_Kind e = k" "\<forall>b \<in> S. \<not> superseded_by e b" by (simp_all add: latest_in_def)
    show ?thesis
    proof (cases "superseded_by e ob")
      case True
      then have "\<not> superseded_by ob b" if "b \<in> S" for b
        using e(3) that by (force simp: superseded_by_def)
      with True Some e show ?thesis by (auto simp: keep_latest_get latest_in_def superseded_by_def)
    next
      case False
      with Some e show ?thesis by (auto simp: keep_latest_get latest_in_def)
    qed
  qed
qed

lemma keep_latest_fold: "table_ok m S \<Longrightarrow> table_ok (foldl keep_latest m obs) (S \<union> set obs)"
proof (induction obs arbitrary: m S)
  case (Cons ob obs)
  from Cons.IH[OF keep_latest_ok[OF Cons.prems, of ob]] show ?case by simp
qed simp

lemma latest_unique:
  assumes "latest_in S k a" "latest_in S k b" "inj_on (\<lambda>ob. (Obs_Kind ob, Obs_ObservedAt ob, Obs_ID ob)) S"
  shows "a = b"
proof -
  have "Obs_ObservedAt a = Obs_ObservedAt b \<and> Obs_ID a = Obs_ID b"
    using assms(1,2) unfolding latest_in_def superseded_by_def by (metis linorder_less_linear)
  with assms show ?thesis by (auto simp: latest_in_def dest: inj_onD)
qed

lemma table_ok_Nil: "table_ok [] {}"
  by (simp add: table_ok_def gm_get_def)

lemma table_lookup:
  assumes "table_ok m S" "table_ok m' S" "inj_on (\<lambda>ob. (Obs_Kind ob, Obs_ObservedAt ob, Obs_ID ob)) S"
  shows "gm_get m k = gm_get m' k"
proof -
  have "case gm_get m k of None \<Rightarrow> \<forall>b \<in> S. Obs_Kind b \<noteq> k | Some ob \<Rightarrow> latest_in S k ob"
    "case gm_get m' k of None \<Rightarrow> \<forall>b \<in> S. Obs_Kind b \<noteq> k | Some ob \<Rightarrow> latest_in S k ob"
    using assms(1,2) by (simp_all add: table_ok_def)
  then show ?thesis using latest_unique[OF _ _ assms(3)]
    by (auto split: option.splits simp: latest_in_def)
qed

lemma keep_latest_nonempty: "obs \<noteq> [] \<Longrightarrow> foldl keep_latest [] obs \<noteq> []"
  using keep_latest_fold[OF table_ok_Nil, of obs] by (cases obs) (auto simp: table_ok_def gm_get_def)

lemma baseline_healthy_iff:
  assumes "freshness < 2 ^ 63"
  shows "fst (EvaluateBaselineHealth obs revision now freshness) = BaselineHealthy \<longleftrightarrow>
     (\<exists>ob. obs = Some ob \<and> Obs_Kind ob = ProbeKindBaseline \<and> Obs_ConnectionRevision ob = Some revision \<and> 1 \<le> revision \<and>
        Obs_ObservedAt ob \<le> now \<and> now < Obs_ObservedAt ob + freshness \<and> Obs_Verdict ob = VerdictAvailable)"
proof (cases obs)
  case (Some ob)
  have "0 < freshness \<Longrightarrow> Obs_ObservedAt ob \<le> now \<Longrightarrow> time_sub now (Obs_ObservedAt ob) < freshness \<longleftrightarrow> now < Obs_ObservedAt ob + freshness"
    using assms by (auto simp: time_sub_def)
  then have "Obs_ObservedAt ob \<le> now \<and> 0 < freshness \<and> \<not> freshness \<le> time_sub now (Obs_ObservedAt ob) \<longleftrightarrow>
      Obs_ObservedAt ob \<le> now \<and> now < Obs_ObservedAt ob + freshness" by (auto simp: not_le)
  then show ?thesis by (auto simp: Some EvaluateBaselineHealth_def enum_defs not_less)
qed (simp add: EvaluateBaselineHealth_def enum_defs)

subsection \<open>Properties\<close>

text \<open>
  C21. The life of a probe run and of a probe batch is short and final: no sequence of accepted
  transitions is longer than two, after two the state is terminal, and from a terminal state no
  transition is accepted at all.
\<close>

theorem lifecycle_final:
  "((moves ProbeRun_TransitionTo ^^ n) r r' \<longrightarrow>
      n \<le> 2 \<and> (n = 2 \<longrightarrow> ProbeRunState_IsTerminal (Run_State r')) \<and> (ProbeRunState_IsTerminal (Run_State r) \<longrightarrow> n = 0)) \<and>
   ((moves ProbeBatch_TransitionTo ^^ m) b b' \<longrightarrow>
      m \<le> 2 \<and> (m = 2 \<longrightarrow> ProbeBatchState_IsTerminal (Batch_State b')) \<and> (ProbeBatchState_IsTerminal (Batch_State b) \<longrightarrow> m = 0))"
  using run_cycle.bounded batch_cycle.bounded by blast

definition example_run :: "string \<Rightarrow> ProbeRun" where
  "example_run st = \<lparr>Run_ID = ''p'', Run_IdempotencyKey = [], Run_ActorScope = [], Run_ConfigRevision = [],
     Run_State = st, Run_DeadlineAt = 0, Run_CreatedAt = 0, Run_UpdatedAt = 0\<rparr>"

theorem lifecycle_final_witness:
  "(moves ProbeRun_TransitionTo ^^ 2) (example_run ''queued'') (example_run ''failed'') \<and>
   ProbeRunState_IsTerminal (Run_State (example_run ''failed''))"
proof
  have "ProbeRun_TransitionTo 0 (example_run ''queued'') ''running'' = Inr (example_run ''running'')"
    "ProbeRun_TransitionTo 0 (example_run ''running'') ''failed'' = Inr (example_run ''failed'')" by code_simp+
  then show two: "(moves ProbeRun_TransitionTo ^^ 2) (example_run ''queued'') (example_run ''failed'')"
    unfolding numeral_2_eq_2 by (auto simp: relcompp_apply moves_def)
  show "ProbeRunState_IsTerminal (Run_State (example_run ''failed''))"
    using lifecycle_final[of 2 "example_run ''queued''" "example_run ''failed''"] two by blast
qed

text \<open>
  C22. The health of a node does not depend on the order in which its observations are listed, where kind,
  time and identifier tell them apart. The node is healthy exactly when its latest baseline
  observation is of the current connection revision, not from the future, fresh and available.
\<close>

theorem ClassifyNodeHealthFromSlice_latest:
  assumes "set xs = set ys" "inj_on (\<lambda>ob. (Obs_Kind ob, Obs_ObservedAt ob, Obs_ID ob)) (set xs)" "freshness < 2 ^ 63"
  shows "ClassifyNodeHealthFromSlice xs revision now freshness = ClassifyNodeHealthFromSlice ys revision now freshness \<and>
         (ClassifyNodeHealthFromSlice xs revision now freshness = HealthCategoryHealthy \<longleftrightarrow>
            (\<exists>ob. latest_in (set xs) ProbeKindBaseline ob \<and> Obs_ConnectionRevision ob = Some revision \<and> 1 \<le> revision \<and>
               Obs_ObservedAt ob \<le> now \<and> now < Obs_ObservedAt ob + freshness \<and> Obs_Verdict ob = VerdictAvailable))"
proof
  have ok: "table_ok (foldl keep_latest [] xs) (set xs)" "table_ok (foldl keep_latest [] ys) (set xs)"
    using keep_latest_fold[OF table_ok_Nil, of xs] keep_latest_fold[OF table_ok_Nil, of ys] assms(1) by simp_all
  have "xs = [] \<longleftrightarrow> ys = []" using assms(1) by auto
  with table_lookup[OF ok assms(2)] keep_latest_nonempty[of xs] keep_latest_nonempty[of ys]
  show "ClassifyNodeHealthFromSlice xs revision now freshness = ClassifyNodeHealthFromSlice ys revision now freshness"
    by (simp add: ClassifyNodeHealthFromSlice_def ClassifyNodeHealth_def)
  let ?ob = "gm_get (foldl keep_latest [] xs) ProbeKindBaseline"
  have get: "?ob = Some ob \<longleftrightarrow> latest_in (set xs) ProbeKindBaseline ob" for ob
  proof -
    have "case ?ob of None \<Rightarrow> \<forall>b \<in> set xs. Obs_Kind b \<noteq> ProbeKindBaseline | Some o' \<Rightarrow> latest_in (set xs) ProbeKindBaseline o'"
      using ok(1) by (simp add: table_ok_def)
    then show ?thesis using latest_unique[OF _ _ assms(2)] by (auto split: option.splits simp: latest_in_def)
  qed
  have "ClassifyNodeHealthFromSlice xs revision now freshness = HealthCategoryHealthy \<longleftrightarrow>
      fst (EvaluateBaselineHealth ?ob revision now freshness) = BaselineHealthy"
    using keep_latest_nonempty[of xs]
    by (cases "xs = []")
      (simp_all add: ClassifyNodeHealthFromSlice_def ClassifyNodeHealth_def Let_def EvaluateBaselineHealth_def gm_get_def enum_defs)
  then show "ClassifyNodeHealthFromSlice xs revision now freshness = HealthCategoryHealthy \<longleftrightarrow>
      (\<exists>ob. latest_in (set xs) ProbeKindBaseline ob \<and> Obs_ConnectionRevision ob = Some revision \<and> 1 \<le> revision \<and>
         Obs_ObservedAt ob \<le> now \<and> now < Obs_ObservedAt ob + freshness \<and> Obs_Verdict ob = VerdictAvailable)"
    unfolding baseline_healthy_iff[OF assms(3)] get by (auto simp: latest_in_def)
qed

definition example_obs :: "string \<Rightarrow> time \<Rightarrow> string \<Rightarrow> ProbeObservation" where
  "example_obs i at verdict = \<lparr>Obs_ID = i, Obs_ProbeRunID = [], Obs_NodeLogicalID = [], Obs_Kind = ''baseline'',
     Obs_Verdict = verdict, Obs_EvidenceDigest = [], Obs_ObservedAt = at, Obs_LatencyMS = 9, Obs_RedactedSummary = [],
     Obs_ConnectionRevision = Some 1\<rparr>"

theorem ClassifyNodeHealthFromSlice_latest_witness:
  "ClassifyNodeHealthFromSlice [example_obs ''a'' 5 ''available'', example_obs ''b'' 3 ''restricted''] 1 6 4 =
   ClassifyNodeHealthFromSlice [example_obs ''b'' 3 ''restricted'', example_obs ''a'' 5 ''available''] 1 6 4"
  by (rule ClassifyNodeHealthFromSlice_latest[THEN conjunct1]) (auto simp: example_obs_def)

end
