(* ===== verification/Fetch_Policy.thy ===== *)
theory Fetch_Policy
  imports Go_Prelude "HOL-Library.Word"
begin

unbundle bit_operations_syntax

section \<open>Outbound request policy (fetch/policy.go)\<close>

text \<open>
  The checks that keep subscription downloads away from private and special addresses. An address is
  a byte list of length 4 or 16 as in package net, and the parsers of addresses and networks and the
  host part of a URL are modelled as the standard library has them. The DNS resolver is a parameter:
  a function from a host to the addresses it resolves to, or \<open>None\<close> for a failed lookup. Proxy
  endpoints, which need the whole URL parser, are not modelled.
\<close>

subsection \<open>Addresses (package net)\<close>

type_synonym ip = "8 word list"

definition To4 :: "ip \<Rightarrow> ip option" where
  "To4 a = (if length a = 4 then Some a
            else if length a = 16 \<and> take 12 a = replicate 10 0 @ [0xFF, 0xFF] then Some (drop 12 a) else None)"

definition v4_mapped :: "ip \<Rightarrow> ip" where
  "v4_mapped a = replicate 10 0 @ [0xFF, 0xFF] @ a"

text \<open>Four decimal fields without leading zeros.\<close>

definition parse_octet :: "string \<Rightarrow> 8 word option" where
  "parse_octet s =
     (if s \<noteq> [] \<and> list_all is_digit s \<and> (length s > 1 \<longrightarrow> \<not> has_prefix s ''0'') \<and> nat_of_digits s \<le> 255
      then Some (of_nat (nat_of_digits s)) else None)"

definition parse_v4 :: "string \<Rightarrow> ip option" where
  "parse_v4 s = (case map parse_octet (split_on CHR ''.'' s) of
                   [Some a, Some b, Some c, Some d] \<Rightarrow> Some [a, b, c, d]
                 | _ \<Rightarrow> None)"

text \<open>
  One turn of the loop over the groups of an IPv6 address: \<open>acc\<close> holds the bytes so far and \<open>gap\<close> the
  position of the double colon. The loop goes on with more text, ends, or fails.
\<close>

definition group_value :: "string \<Rightarrow> 32 word" where
  "group_value field = foldl (\<lambda>v c. push_bit 4 v + of_nat (hex_val c)) 0 field"

datatype group_step = Bad | Last ip "nat option" | More string "nat option" ip

definition after_group :: "string \<Rightarrow> nat option \<Rightarrow> ip \<Rightarrow> group_step" where
  "after_group rest gap acc =
     (case rest of
        [] \<Rightarrow> Last acc gap
      | c # r \<Rightarrow>
          if c \<noteq> CHR '':'' \<or> r = [] then Bad
          else if has_prefix r '':''
          then (if gap \<noteq> None then Bad
                else if tl r = [] then Last acc (Some (length acc)) else More (tl r) (Some (length acc)) acc)
          else More r gap acc)"

definition parse_group :: "string \<Rightarrow> nat option \<Rightarrow> ip \<Rightarrow> group_step" where
  "parse_group s gap acc =
     (let field = takeWhile is_hex s; rest = dropWhile is_hex s
      in if field = [] \<or> length field > 4 then Bad
         else if has_prefix rest ''.''
         then (if gap = None \<and> length acc \<noteq> 12 \<or> length acc + 4 > 16 then Bad
               else case parse_v4 s of None \<Rightarrow> Bad | Some a \<Rightarrow> Last (acc @ a) gap)
         else after_group rest gap (acc @ [ucast (drop_bit 8 (group_value field)), ucast (group_value field)]))"

text \<open>At most \<open>n\<close> groups may follow; the result is the bytes, the gap and the text that is left.\<close>

fun parse_groups :: "nat \<Rightarrow> string \<Rightarrow> nat option \<Rightarrow> ip \<Rightarrow> (ip \<times> nat option \<times> string) option" where
  "parse_groups 0 s gap acc = Some (acc, gap, s)"
| "parse_groups (Suc n) s gap acc =
     (case parse_group s gap acc of
        Bad \<Rightarrow> None
      | Last acc' gap' \<Rightarrow> Some (acc', gap', [])
      | More s' gap' acc' \<Rightarrow> parse_groups n s' gap' acc')"

definition fill_gap :: "ip \<times> nat option \<times> string \<Rightarrow> ip option" where
  "fill_gap r =
     (case r of (acc, gap, rest) \<Rightarrow>
        if rest \<noteq> [] then None
        else if length acc < 16
        then (case gap of None \<Rightarrow> None | Some g \<Rightarrow> Some (take g acc @ replicate (16 - length acc) 0 @ drop g acc))
        else if gap \<noteq> None then None else Some acc)"

definition parse_v6 :: "string \<Rightarrow> ip option" where
  "parse_v6 s =
     (if has_prefix s ''::''
      then (if drop 2 s = [] then Some (replicate 16 0)
            else Option.bind (parse_groups 8 (drop 2 s) (Some 0) []) fill_gap)
      else Option.bind (parse_groups 8 s None []) fill_gap)"

text \<open>
  \<open>netip.ParseAddr\<close>: the first of dot, colon and percent decides. Zones are refused by both
  callers, so an address with a percent sign is none.
\<close>

definition parse_addr :: "string \<Rightarrow> ip option" where
  "parse_addr s =
     (if CHR ''%'' \<in> set s then None
      else case find (\<lambda>c. c = CHR ''.'' \<or> c = CHR '':'') s of
             None \<Rightarrow> None
           | Some c \<Rightarrow> if c = CHR ''.'' then parse_v4 s else parse_v6 s)"

definition ParseIP :: "string \<Rightarrow> ip option" where
  "ParseIP s = map_option (\<lambda>a. if length a = 4 then v4_mapped a else a) (parse_addr s)"

subsection \<open>Networks (package net)\<close>

record IPNet =
  Net_IP :: ip
  Net_Mask :: ip

definition mask_byte :: "nat \<Rightarrow> 8 word" where
  "mask_byte n = NOT (mask (8 - n))"

definition CIDRMask :: "nat \<Rightarrow> nat \<Rightarrow> ip" where
  "CIDRMask ones bits = map (\<lambda>i. mask_byte (min 8 (ones - 8 * i))) [0..<bits div 8]"

definition ParseCIDR :: "string \<Rightarrow> IPNet option" where
  "ParseCIDR s =
     (case cut_at s ''/'' of
        None \<Rightarrow> None
      | Some (addr, len) \<Rightarrow>
          (case parse_addr addr of
             None \<Rightarrow> None
           | Some a \<Rightarrow>
               if len = [] \<or> \<not> list_all is_digit len \<or> nat_of_digits len > 8 * length a then None
               else (let m = CIDRMask (nat_of_digits len) (8 * length a)
                     in Some \<lparr>Net_IP = map2 (AND) a m, Net_Mask = m\<rparr>)))"

text \<open>The number of bits of a mask that is a run of ones followed by zeros, else 0.\<close>

definition simple_mask :: "ip \<Rightarrow> bool" where
  "simple_mask m = (case dropWhile (\<lambda>b. b = 0xFF) m of
                      [] \<Rightarrow> True
                    | b # r \<Rightarrow> b \<in> set (map mask_byte [0..<8]) \<and> list_all (\<lambda>c. c = 0) r)"

definition mask_bits :: "ip \<Rightarrow> nat" where
  "mask_bits m = (if simple_mask m then 8 * length m else 0)"

definition networkNumberAndMask :: "IPNet \<Rightarrow> (ip \<times> ip) option" where
  "networkNumberAndMask n =
     (let a = (case To4 (Net_IP n) of Some b \<Rightarrow> b | None \<Rightarrow> Net_IP n); m = Net_Mask n
      in if length a \<noteq> 4 \<and> length a \<noteq> 16 then None
         else if length m = 4 then (if length a = 4 then Some (a, m) else None)
         else if length m = 16 then Some (a, if length a = 4 then drop 12 m else m)
         else None)"

definition Contains :: "IPNet \<Rightarrow> ip \<Rightarrow> bool" where
  "Contains n a0 =
     (let a = (case To4 a0 of Some b \<Rightarrow> b | None \<Rightarrow> a0)
      in case networkNumberAndMask n of
           None \<Rightarrow> a = []
         | Some (nn, m) \<Rightarrow> length a = length nn \<and> map2 (AND) nn m = map2 (AND) a m)"

subsection \<open>Predicates on addresses (package net)\<close>

definition IsLoopback :: "ip \<Rightarrow> bool" where
  "IsLoopback a = (case To4 a of Some b \<Rightarrow> b ! 0 = 127 | None \<Rightarrow> a = replicate 15 0 @ [1])"

definition IsPrivate :: "ip \<Rightarrow> bool" where
  "IsPrivate a =
     (case To4 a of
        Some b \<Rightarrow> b ! 0 = 10 \<or> b ! 0 = 172 \<and> b ! 1 AND 0xF0 = 16 \<or> b ! 0 = 192 \<and> b ! 1 = 168
      | None \<Rightarrow> length a = 16 \<and> a ! 0 AND 0xFE = 0xFC)"

definition IsMulticast :: "ip \<Rightarrow> bool" where
  "IsMulticast a = (case To4 a of Some b \<Rightarrow> b ! 0 AND 0xF0 = 0xE0 | None \<Rightarrow> length a = 16 \<and> a ! 0 = 0xFF)"

definition IsLinkLocalMulticast :: "ip \<Rightarrow> bool" where
  "IsLinkLocalMulticast a =
     (case To4 a of Some b \<Rightarrow> b ! 0 = 224 \<and> b ! 1 = 0 \<and> b ! 2 = 0
      | None \<Rightarrow> length a = 16 \<and> a ! 0 = 0xFF \<and> a ! 1 AND 0x0F = 0x02)"

definition IsLinkLocalUnicast :: "ip \<Rightarrow> bool" where
  "IsLinkLocalUnicast a =
     (case To4 a of Some b \<Rightarrow> b ! 0 = 169 \<and> b ! 1 = 254
      | None \<Rightarrow> length a = 16 \<and> a ! 0 = 0xFE \<and> a ! 1 AND 0xC0 = 0x80)"

definition IsUnspecified :: "ip \<Rightarrow> bool" where
  "IsUnspecified a = (case To4 a of Some b \<Rightarrow> b = replicate 4 0 | None \<Rightarrow> a = replicate 16 0)"

subsection \<open>The policy\<close>

definition defaultBlockedCIDRs :: "string list" where
  "defaultBlockedCIDRs =
     [''0.0.0.0/8'', ''10.0.0.0/8'', ''100.64.0.0/10'', ''127.0.0.0/8'', ''169.254.0.0/16'', ''172.16.0.0/12'',
      ''192.0.0.0/24'', ''192.0.2.0/24'', ''192.88.99.0/24'', ''192.168.0.0/16'', ''198.18.0.0/15'',
      ''198.51.100.0/24'', ''203.0.113.0/24'', ''224.0.0.0/4'', ''240.0.0.0/4'', ''255.255.255.255/32'',
      ''::/128'', ''::1/128'', ''::ffff:0:0/96'', ''64:ff9b::/96'', ''100::/64'', ''2001::/23'', ''2001:db8::/32'',
      ''2002::/16'', ''fc00::/7'', ''fe80::/10'', ''ff00::/8'']"

record Policy =
  Pol_AllowedSchemes :: "string list"
  Pol_MaxRedirects :: int
  Pol_BlockedCIDRs :: "IPNet list"
  Pol_AllowedHosts :: "string list"
  Pol_AllowedProxyHosts :: "string list"
  Pol_AllowPrivate :: bool

definition DefaultPolicy :: Policy where
  "DefaultPolicy = \<lparr>Pol_AllowedSchemes = [''http'', ''https''], Pol_MaxRedirects = 5,
     Pol_BlockedCIDRs = concat (map (\<lambda>cidr. case ParseCIDR cidr of None \<Rightarrow> [] | Some ipNet \<Rightarrow> [ipNet]) defaultBlockedCIDRs), Pol_AllowedHosts = [],
     Pol_AllowedProxyHosts = [], Pol_AllowPrivate = False\<rparr>"

definition numeric_part :: "string \<Rightarrow> bool" where
  "numeric_part part =
     (let p = to_lower (trim_space part)
      in if p = [] then False
         else if has_prefix p ''0x'' then parse_hex64 (drop 2 p) \<noteq> None else parse_uint64 p \<noteq> None)"

definition odd_octet :: "string \<Rightarrow> bool" where
  "odd_octet part =
     (let p = to_lower (trim_space part) in has_prefix p ''0x'' \<or> length p > 1 \<and> has_prefix p ''0'')"

definition isObfuscatedIP :: "string \<Rightarrow> bool" where
  "isObfuscatedIP host =
     (let t = trim_space host; clean = (if has_suffix t ''.'' then butlast t else t)
      in if clean = [] then False
         else if parse_uint64 clean \<noteq> None then True
         else if has_prefix (to_lower clean) ''0x'' \<and> parse_hex64 (drop 2 clean) \<noteq> None then True
         else if contains clean ''.''
         then (let parts = split_on CHR ''.'' clean
               in list_all numeric_part parts \<and>
                  (length parts \<le> 3 \<or> length parts = 4 \<and> list_ex odd_octet parts))
         else False)"

definition IsHostAllowed :: "Policy \<Rightarrow> string \<Rightarrow> bool" where
  "IsHostAllowed p target \<longleftrightarrow>
     Pol_AllowPrivate p \<or>
     list_ex (\<lambda>allowed. equal_fold (to_lower (trim_space target)) (to_lower (trim_space allowed))) (Pol_AllowedHosts p)"

definition block_hits :: "ip \<Rightarrow> ip \<Rightarrow> IPNet \<Rightarrow> bool" where
  "block_hits a checkIP block =
     (if To4 checkIP \<noteq> None then mask_bits (Net_Mask block) = 32 \<and> Contains block checkIP
      else Contains block checkIP \<or> Contains block a)"

text \<open>A nil address is the empty list.\<close>

definition ValidateIP :: "Policy \<Rightarrow> ip \<Rightarrow> go_error" where
  "ValidateIP p a =
     (if a = [] then Some (new_security_error ''invalid_ip'')
      else
        (let checkIP = (case To4 a of Some b \<Rightarrow> b | None \<Rightarrow> a)
         in if IsLoopback checkIP \<or> IsPrivate checkIP \<or> IsLinkLocalUnicast checkIP \<or> IsLinkLocalMulticast checkIP \<or>
               IsMulticast checkIP \<or> IsUnspecified checkIP
            then Some (new_security_error ''ssrf_blocked'')
            else if list_ex (block_hits a checkIP) (Pol_BlockedCIDRs p) then Some (new_security_error ''ssrf_blocked'')
            else None))"

subsection \<open>The host of a URL (package net/url)\<close>

record URL =
  URL_Scheme :: string
  URL_Host :: string

definition host_before_port :: "string \<Rightarrow> string" where
  "host_before_port h =
     (let port = rev (takeWhile (\<lambda>c. c \<noteq> CHR '':'') (rev h))
      in if CHR '':'' \<in> set h \<and> list_all is_digit port then take (length h - length port - 1) h else h)"

definition Hostname :: "URL \<Rightarrow> string" where
  "Hostname u =
     (let h = host_before_port (URL_Host u)
      in if has_prefix h ''['' \<and> has_suffix h '']'' then butlast (tl h) else h)"

definition ValidateTarget :: "(string \<Rightarrow> ip list option) \<Rightarrow> Policy \<Rightarrow> URL option \<Rightarrow> go_error" where
  "ValidateTarget lookup p url =
     (case url of
        None \<Rightarrow> Some (new_validation_error ''invalid_url'')
      | Some u \<Rightarrow>
          (let scheme = to_lower (URL_Scheme u); host = trim_space (Hostname u)
           in if scheme = [] then Some (new_validation_error ''missing_scheme'')
              else if \<not> list_ex (equal_fold scheme) (Pol_AllowedSchemes p) then Some (new_security_error ''unsupported_scheme'')
              else if host = [] then Some (new_validation_error ''invalid_url'')
              else if has_suffix host ''.'' then Some (new_validation_error ''invalid_url'')
              else if isObfuscatedIP host then Some (new_security_error ''ssrf_blocked'')
              else if contains (to_lower host) ''::ffff:'' \<or> contains (to_lower host) '':ffff:''
              then Some (new_security_error ''ssrf_blocked'')
              else if IsHostAllowed p host \<or> IsHostAllowed p (URL_Host u) then None
              else case ParseIP host of
                     Some a \<Rightarrow> ValidateIP p a
                   | None \<Rightarrow>
                       (case lookup host of
                          None \<Rightarrow> Some (new_security_error ''dns_resolution_failed'')
                        | Some [] \<Rightarrow> Some (new_security_error ''dns_resolution_failed'')
                        | Some ips \<Rightarrow> first_error (ValidateIP p) ips)))"

subsection \<open>The blocked networks, computed\<close>

lemma parsed_nets:
  "ParseCIDR ''0.0.0.0/8'' = Some \<lparr>Net_IP = [0, 0, 0, 0], Net_Mask = [255, 0, 0, 0]\<rparr>"
  "ParseCIDR ''10.0.0.0/8'' = Some \<lparr>Net_IP = [10, 0, 0, 0], Net_Mask = [255, 0, 0, 0]\<rparr>"
  "ParseCIDR ''100.64.0.0/10'' = Some \<lparr>Net_IP = [100, 64, 0, 0], Net_Mask = [255, 192, 0, 0]\<rparr>"
  "ParseCIDR ''127.0.0.0/8'' = Some \<lparr>Net_IP = [127, 0, 0, 0], Net_Mask = [255, 0, 0, 0]\<rparr>"
  "ParseCIDR ''169.254.0.0/16'' = Some \<lparr>Net_IP = [169, 254, 0, 0], Net_Mask = [255, 255, 0, 0]\<rparr>"
  "ParseCIDR ''172.16.0.0/12'' = Some \<lparr>Net_IP = [172, 16, 0, 0], Net_Mask = [255, 240, 0, 0]\<rparr>"
  "ParseCIDR ''192.0.0.0/24'' = Some \<lparr>Net_IP = [192, 0, 0, 0], Net_Mask = [255, 255, 255, 0]\<rparr>"
  "ParseCIDR ''192.0.2.0/24'' = Some \<lparr>Net_IP = [192, 0, 2, 0], Net_Mask = [255, 255, 255, 0]\<rparr>"
  "ParseCIDR ''192.88.99.0/24'' = Some \<lparr>Net_IP = [192, 88, 99, 0], Net_Mask = [255, 255, 255, 0]\<rparr>"
  "ParseCIDR ''192.168.0.0/16'' = Some \<lparr>Net_IP = [192, 168, 0, 0], Net_Mask = [255, 255, 0, 0]\<rparr>"
  "ParseCIDR ''198.18.0.0/15'' = Some \<lparr>Net_IP = [198, 18, 0, 0], Net_Mask = [255, 254, 0, 0]\<rparr>"
  "ParseCIDR ''198.51.100.0/24'' = Some \<lparr>Net_IP = [198, 51, 100, 0], Net_Mask = [255, 255, 255, 0]\<rparr>"
  "ParseCIDR ''203.0.113.0/24'' = Some \<lparr>Net_IP = [203, 0, 113, 0], Net_Mask = [255, 255, 255, 0]\<rparr>"
  "ParseCIDR ''224.0.0.0/4'' = Some \<lparr>Net_IP = [224, 0, 0, 0], Net_Mask = [240, 0, 0, 0]\<rparr>"
  "ParseCIDR ''240.0.0.0/4'' = Some \<lparr>Net_IP = [240, 0, 0, 0], Net_Mask = [240, 0, 0, 0]\<rparr>"
  "ParseCIDR ''255.255.255.255/32'' = Some \<lparr>Net_IP = [255, 255, 255, 255], Net_Mask = [255, 255, 255, 255]\<rparr>"
  "ParseCIDR ''::/128'' = Some \<lparr>Net_IP = [0, 0, 0, 0, 0, 0, 0, 0, 0, 0, 0, 0, 0, 0, 0, 0], Net_Mask = [255, 255, 255, 255, 255, 255, 255, 255, 255, 255, 255, 255, 255, 255, 255, 255]\<rparr>"
  "ParseCIDR ''::1/128'' = Some \<lparr>Net_IP = [0, 0, 0, 0, 0, 0, 0, 0, 0, 0, 0, 0, 0, 0, 0, 1], Net_Mask = [255, 255, 255, 255, 255, 255, 255, 255, 255, 255, 255, 255, 255, 255, 255, 255]\<rparr>"
  "ParseCIDR ''::ffff:0:0/96'' = Some \<lparr>Net_IP = [0, 0, 0, 0, 0, 0, 0, 0, 0, 0, 255, 255, 0, 0, 0, 0], Net_Mask = [255, 255, 255, 255, 255, 255, 255, 255, 255, 255, 255, 255, 0, 0, 0, 0]\<rparr>"
  "ParseCIDR ''64:ff9b::/96'' = Some \<lparr>Net_IP = [0, 100, 255, 155, 0, 0, 0, 0, 0, 0, 0, 0, 0, 0, 0, 0], Net_Mask = [255, 255, 255, 255, 255, 255, 255, 255, 255, 255, 255, 255, 0, 0, 0, 0]\<rparr>"
  "ParseCIDR ''100::/64'' = Some \<lparr>Net_IP = [1, 0, 0, 0, 0, 0, 0, 0, 0, 0, 0, 0, 0, 0, 0, 0], Net_Mask = [255, 255, 255, 255, 255, 255, 255, 255, 0, 0, 0, 0, 0, 0, 0, 0]\<rparr>"
  "ParseCIDR ''2001::/23'' = Some \<lparr>Net_IP = [32, 1, 0, 0, 0, 0, 0, 0, 0, 0, 0, 0, 0, 0, 0, 0], Net_Mask = [255, 255, 254, 0, 0, 0, 0, 0, 0, 0, 0, 0, 0, 0, 0, 0]\<rparr>"
  "ParseCIDR ''2001:db8::/32'' = Some \<lparr>Net_IP = [32, 1, 13, 184, 0, 0, 0, 0, 0, 0, 0, 0, 0, 0, 0, 0], Net_Mask = [255, 255, 255, 255, 0, 0, 0, 0, 0, 0, 0, 0, 0, 0, 0, 0]\<rparr>"
  "ParseCIDR ''2002::/16'' = Some \<lparr>Net_IP = [32, 2, 0, 0, 0, 0, 0, 0, 0, 0, 0, 0, 0, 0, 0, 0], Net_Mask = [255, 255, 0, 0, 0, 0, 0, 0, 0, 0, 0, 0, 0, 0, 0, 0]\<rparr>"
  "ParseCIDR ''fc00::/7'' = Some \<lparr>Net_IP = [252, 0, 0, 0, 0, 0, 0, 0, 0, 0, 0, 0, 0, 0, 0, 0], Net_Mask = [254, 0, 0, 0, 0, 0, 0, 0, 0, 0, 0, 0, 0, 0, 0, 0]\<rparr>"
  "ParseCIDR ''fe80::/10'' = Some \<lparr>Net_IP = [254, 128, 0, 0, 0, 0, 0, 0, 0, 0, 0, 0, 0, 0, 0, 0], Net_Mask = [255, 192, 0, 0, 0, 0, 0, 0, 0, 0, 0, 0, 0, 0, 0, 0]\<rparr>"
  "ParseCIDR ''ff00::/8'' = Some \<lparr>Net_IP = [255, 0, 0, 0, 0, 0, 0, 0, 0, 0, 0, 0, 0, 0, 0, 0], Net_Mask = [255, 0, 0, 0, 0, 0, 0, 0, 0, 0, 0, 0, 0, 0, 0, 0]\<rparr>"
  by code_simp+

definition v4_nets :: "IPNet list" where
  "v4_nets =
     [\<lparr>Net_IP = [0, 0, 0, 0], Net_Mask = [255, 0, 0, 0]\<rparr>,
      \<lparr>Net_IP = [10, 0, 0, 0], Net_Mask = [255, 0, 0, 0]\<rparr>,
      \<lparr>Net_IP = [100, 64, 0, 0], Net_Mask = [255, 192, 0, 0]\<rparr>,
      \<lparr>Net_IP = [127, 0, 0, 0], Net_Mask = [255, 0, 0, 0]\<rparr>,
      \<lparr>Net_IP = [169, 254, 0, 0], Net_Mask = [255, 255, 0, 0]\<rparr>,
      \<lparr>Net_IP = [172, 16, 0, 0], Net_Mask = [255, 240, 0, 0]\<rparr>,
      \<lparr>Net_IP = [192, 0, 0, 0], Net_Mask = [255, 255, 255, 0]\<rparr>,
      \<lparr>Net_IP = [192, 0, 2, 0], Net_Mask = [255, 255, 255, 0]\<rparr>,
      \<lparr>Net_IP = [192, 88, 99, 0], Net_Mask = [255, 255, 255, 0]\<rparr>,
      \<lparr>Net_IP = [192, 168, 0, 0], Net_Mask = [255, 255, 0, 0]\<rparr>,
      \<lparr>Net_IP = [198, 18, 0, 0], Net_Mask = [255, 254, 0, 0]\<rparr>,
      \<lparr>Net_IP = [198, 51, 100, 0], Net_Mask = [255, 255, 255, 0]\<rparr>,
      \<lparr>Net_IP = [203, 0, 113, 0], Net_Mask = [255, 255, 255, 0]\<rparr>,
      \<lparr>Net_IP = [224, 0, 0, 0], Net_Mask = [240, 0, 0, 0]\<rparr>,
      \<lparr>Net_IP = [240, 0, 0, 0], Net_Mask = [240, 0, 0, 0]\<rparr>,
      \<lparr>Net_IP = [255, 255, 255, 255], Net_Mask = [255, 255, 255, 255]\<rparr>]"

definition v6_nets :: "IPNet list" where
  "v6_nets =
     [\<lparr>Net_IP = [0, 0, 0, 0, 0, 0, 0, 0, 0, 0, 0, 0, 0, 0, 0, 0], Net_Mask = [255, 255, 255, 255, 255, 255, 255, 255, 255, 255, 255, 255, 255, 255, 255, 255]\<rparr>,
      \<lparr>Net_IP = [0, 0, 0, 0, 0, 0, 0, 0, 0, 0, 0, 0, 0, 0, 0, 1], Net_Mask = [255, 255, 255, 255, 255, 255, 255, 255, 255, 255, 255, 255, 255, 255, 255, 255]\<rparr>,
      \<lparr>Net_IP = [0, 0, 0, 0, 0, 0, 0, 0, 0, 0, 255, 255, 0, 0, 0, 0], Net_Mask = [255, 255, 255, 255, 255, 255, 255, 255, 255, 255, 255, 255, 0, 0, 0, 0]\<rparr>,
      \<lparr>Net_IP = [0, 100, 255, 155, 0, 0, 0, 0, 0, 0, 0, 0, 0, 0, 0, 0], Net_Mask = [255, 255, 255, 255, 255, 255, 255, 255, 255, 255, 255, 255, 0, 0, 0, 0]\<rparr>,
      \<lparr>Net_IP = [1, 0, 0, 0, 0, 0, 0, 0, 0, 0, 0, 0, 0, 0, 0, 0], Net_Mask = [255, 255, 255, 255, 255, 255, 255, 255, 0, 0, 0, 0, 0, 0, 0, 0]\<rparr>,
      \<lparr>Net_IP = [32, 1, 0, 0, 0, 0, 0, 0, 0, 0, 0, 0, 0, 0, 0, 0], Net_Mask = [255, 255, 254, 0, 0, 0, 0, 0, 0, 0, 0, 0, 0, 0, 0, 0]\<rparr>,
      \<lparr>Net_IP = [32, 1, 13, 184, 0, 0, 0, 0, 0, 0, 0, 0, 0, 0, 0, 0], Net_Mask = [255, 255, 255, 255, 0, 0, 0, 0, 0, 0, 0, 0, 0, 0, 0, 0]\<rparr>,
      \<lparr>Net_IP = [32, 2, 0, 0, 0, 0, 0, 0, 0, 0, 0, 0, 0, 0, 0, 0], Net_Mask = [255, 255, 0, 0, 0, 0, 0, 0, 0, 0, 0, 0, 0, 0, 0, 0]\<rparr>,
      \<lparr>Net_IP = [252, 0, 0, 0, 0, 0, 0, 0, 0, 0, 0, 0, 0, 0, 0, 0], Net_Mask = [254, 0, 0, 0, 0, 0, 0, 0, 0, 0, 0, 0, 0, 0, 0, 0]\<rparr>,
      \<lparr>Net_IP = [254, 128, 0, 0, 0, 0, 0, 0, 0, 0, 0, 0, 0, 0, 0, 0], Net_Mask = [255, 192, 0, 0, 0, 0, 0, 0, 0, 0, 0, 0, 0, 0, 0, 0]\<rparr>,
      \<lparr>Net_IP = [255, 0, 0, 0, 0, 0, 0, 0, 0, 0, 0, 0, 0, 0, 0, 0], Net_Mask = [255, 0, 0, 0, 0, 0, 0, 0, 0, 0, 0, 0, 0, 0, 0, 0]\<rparr>]"

lemma default_nets: "Pol_BlockedCIDRs DefaultPolicy = v4_nets @ v6_nets"
  unfolding DefaultPolicy_def Policy.select_convs defaultBlockedCIDRs_def list.map parsed_nets option.case concat.simps append.simps v4_nets_def v6_nets_def ..

lemma net_bits: "list_all (\<lambda>n. mask_bits (Net_Mask n) = 32) v4_nets" "list_all (\<lambda>n. mask_bits (Net_Mask n) = 128) v6_nets"
  by code_simp+

lemma byte_and_255 [simp]: "(b :: 8 word) AND 255 = b" "255 AND b = b"
proof -
  have "(255 :: 8 word) = - 1" by simp
  then show "b AND 255 = b" "255 AND b = b" by (simp_all only: and.right_neutral and.left_neutral)
qed

lemma high_bits:
  fixes b c :: "8 word"
  shows "b AND NOT (mask k) = c AND NOT (mask k) \<longleftrightarrow> unat b div 2 ^ k = unat c div 2 ^ k"
proof -
  have high: "bit (w AND NOT (mask k)) n \<longleftrightarrow> bit w n \<and> k \<le> n" for w :: "8 word" and n
    using bit_imp_le_length[of w n] by (auto simp: bit_and_iff bit_not_iff bit_mask_iff)
  have "b AND NOT (mask k) = c AND NOT (mask k) \<longleftrightarrow> (\<forall>n. k \<le> n \<longrightarrow> bit b n = bit c n)"
    unfolding bit_eq_iff high using bit_imp_possible_bit by blast
  also have "\<dots> \<longleftrightarrow> (\<forall>n. bit b (k + n) = bit c (k + n))" by (metis le_add1 le_add_diff_inverse)
  also have "\<dots> \<longleftrightarrow> drop_bit k b = drop_bit k c"
  proof
    assume "\<forall>n. bit b (k + n) = bit c (k + n)"
    then show "drop_bit k b = drop_bit k c" by (intro bit_eqI) (simp add: bit_drop_bit_eq)
  next
    assume "drop_bit k b = drop_bit k c"
    then have "bit (drop_bit k b) n = bit (drop_bit k c) n" for n by simp
    then show "\<forall>n. bit b (k + n) = bit c (k + n)" by (simp add: bit_drop_bit_eq)
  qed
  also have "\<dots> \<longleftrightarrow> unat (drop_bit k b) = unat (drop_bit k c)" by (simp only: word_eq_iff_unsigned[where ?'a = nat])
  also have "\<dots> \<longleftrightarrow> drop_bit k (unat b) = drop_bit k (unat c)" by (simp only: unat_drop_bit_eq)
  finally show ?thesis by (simp only: drop_bit_eq_div)
qed

lemma byte_masks:
  fixes b :: "8 word"
  shows "b AND 240 = 224 \<longleftrightarrow> 224 \<le> b \<and> b \<le> 239" "b AND 240 = 240 \<longleftrightarrow> 240 \<le> b"
    "b AND 240 = 16 \<longleftrightarrow> 16 \<le> b \<and> b \<le> 31" "b AND 192 = 64 \<longleftrightarrow> 64 \<le> b \<and> b \<le> 127"
    "b AND 192 = 128 \<longleftrightarrow> 128 \<le> b \<and> b \<le> 191"
    "b AND 254 = 18 \<longleftrightarrow> 18 \<le> b \<and> b \<le> 19" "b AND 254 = 252 \<longleftrightarrow> 252 \<le> b \<and> b \<le> 253" "b AND 254 = 0 \<longleftrightarrow> b \<le> 1"
proof -
  have b: "unat b < 256" using unsigned_less[of b] by simp
  have m: "NOT (mask 4) = (240 :: 8 word)" "NOT (mask 6) = (192 :: 8 word)" "NOT (mask 1) = (254 :: 8 word)"
    by (simp_all add: mask_eq_exp_minus_1)
  note h4 = high_bits[of b 4, unfolded m] and h6 = high_bits[of b 6, unfolded m] and h1 = high_bits[of b 1, unfolded m]
  show "b AND 240 = 224 \<longleftrightarrow> 224 \<le> b \<and> b \<le> 239" using h4[of 224] by (simp add: word_le_nat_alt) linarith
  show "b AND 240 = 240 \<longleftrightarrow> 240 \<le> b" using h4[of 240] b by (simp add: word_le_nat_alt) linarith
  show "b AND 240 = 16 \<longleftrightarrow> 16 \<le> b \<and> b \<le> 31" using h4[of 16] by (simp add: word_le_nat_alt) linarith
  show "b AND 192 = 64 \<longleftrightarrow> 64 \<le> b \<and> b \<le> 127" using h6[of 64] by (simp add: word_le_nat_alt) linarith
  show "b AND 192 = 128 \<longleftrightarrow> 128 \<le> b \<and> b \<le> 191" using h6[of 128] by (simp add: word_le_nat_alt) linarith
  show "b AND 254 = 18 \<longleftrightarrow> 18 \<le> b \<and> b \<le> 19" using h1[of 18] by (simp add: word_le_nat_alt) linarith
  show "b AND 254 = 252 \<longleftrightarrow> 252 \<le> b \<and> b \<le> 253" using h1[of 252] by (simp add: word_le_nat_alt) linarith
  show "b AND 254 = 0 \<longleftrightarrow> b \<le> 1" using h1[of 0] by (simp add: word_le_nat_alt) linarith
qed

subsection \<open>Which addresses pass\<close>

text \<open>The IPv4 addresses that are neither private nor reserved for a special purpose.\<close>

definition public_v4 :: "8 word \<Rightarrow> 8 word \<Rightarrow> 8 word \<Rightarrow> bool" where
  "public_v4 a b c \<longleftrightarrow>
     \<not> (a = 0 \<or> a = 10 \<or> a = 100 \<and> 64 \<le> b \<and> b \<le> 127 \<or> a = 127 \<or> a = 169 \<and> b = 254 \<or> a = 172 \<and> 16 \<le> b \<and> b \<le> 31 \<or>
        a = 192 \<and> b = 0 \<and> c = 0 \<or> a = 192 \<and> b = 0 \<and> c = 2 \<or> a = 192 \<and> b = 88 \<and> c = 99 \<or> a = 192 \<and> b = 168 \<or>
        a = 198 \<and> 18 \<le> b \<and> b \<le> 19 \<or> a = 198 \<and> b = 51 \<and> c = 100 \<or> a = 203 \<and> b = 0 \<and> c = 113 \<or> 224 \<le> a)"

lemma contains_v4:
  "Contains \<lparr>Net_IP = [n0, n1, n2, n3], Net_Mask = [m0, m1, m2, m3]\<rparr> [a, b, c, d] \<longleftrightarrow>
     a AND m0 = n0 AND m0 \<and> b AND m1 = n1 AND m1 \<and> c AND m2 = n2 AND m2 \<and> d AND m3 = n3 AND m3"
  by (auto simp: Contains_def networkNumberAndMask_def To4_def)

lemma v4_contains:
  "Contains \<lparr>Net_IP = [0, 0, 0, 0], Net_Mask = [255, 0, 0, 0]\<rparr> [a, b, c, d] \<longleftrightarrow> a = 0"
  "Contains \<lparr>Net_IP = [10, 0, 0, 0], Net_Mask = [255, 0, 0, 0]\<rparr> [a, b, c, d] \<longleftrightarrow> a = 10"
  "Contains \<lparr>Net_IP = [100, 64, 0, 0], Net_Mask = [255, 192, 0, 0]\<rparr> [a, b, c, d] \<longleftrightarrow> a = 100 \<and> 64 \<le> b \<and> b \<le> 127"
  "Contains \<lparr>Net_IP = [127, 0, 0, 0], Net_Mask = [255, 0, 0, 0]\<rparr> [a, b, c, d] \<longleftrightarrow> a = 127"
  "Contains \<lparr>Net_IP = [169, 254, 0, 0], Net_Mask = [255, 255, 0, 0]\<rparr> [a, b, c, d] \<longleftrightarrow> a = 169 \<and> b = 254"
  "Contains \<lparr>Net_IP = [172, 16, 0, 0], Net_Mask = [255, 240, 0, 0]\<rparr> [a, b, c, d] \<longleftrightarrow> a = 172 \<and> 16 \<le> b \<and> b \<le> 31"
  "Contains \<lparr>Net_IP = [192, 0, 0, 0], Net_Mask = [255, 255, 255, 0]\<rparr> [a, b, c, d] \<longleftrightarrow> a = 192 \<and> b = 0 \<and> c = 0"
  "Contains \<lparr>Net_IP = [192, 0, 2, 0], Net_Mask = [255, 255, 255, 0]\<rparr> [a, b, c, d] \<longleftrightarrow> a = 192 \<and> b = 0 \<and> c = 2"
  "Contains \<lparr>Net_IP = [192, 88, 99, 0], Net_Mask = [255, 255, 255, 0]\<rparr> [a, b, c, d] \<longleftrightarrow> a = 192 \<and> b = 88 \<and> c = 99"
  "Contains \<lparr>Net_IP = [192, 168, 0, 0], Net_Mask = [255, 255, 0, 0]\<rparr> [a, b, c, d] \<longleftrightarrow> a = 192 \<and> b = 168"
  "Contains \<lparr>Net_IP = [198, 18, 0, 0], Net_Mask = [255, 254, 0, 0]\<rparr> [a, b, c, d] \<longleftrightarrow> a = 198 \<and> 18 \<le> b \<and> b \<le> 19"
  "Contains \<lparr>Net_IP = [198, 51, 100, 0], Net_Mask = [255, 255, 255, 0]\<rparr> [a, b, c, d] \<longleftrightarrow> a = 198 \<and> b = 51 \<and> c = 100"
  "Contains \<lparr>Net_IP = [203, 0, 113, 0], Net_Mask = [255, 255, 255, 0]\<rparr> [a, b, c, d] \<longleftrightarrow> a = 203 \<and> b = 0 \<and> c = 113"
  "Contains \<lparr>Net_IP = [224, 0, 0, 0], Net_Mask = [240, 0, 0, 0]\<rparr> [a, b, c, d] \<longleftrightarrow> 224 \<le> a \<and> a \<le> 239"
  "Contains \<lparr>Net_IP = [240, 0, 0, 0], Net_Mask = [240, 0, 0, 0]\<rparr> [a, b, c, d] \<longleftrightarrow> 240 \<le> a"
  "Contains \<lparr>Net_IP = [255, 255, 255, 255], Net_Mask = [255, 255, 255, 255]\<rparr> [a, b, c, d] \<longleftrightarrow> a = 255 \<and> b = 255 \<and> c = 255 \<and> d = 255"
  by (simp_all add: contains_v4 byte_masks)

lemma v4_hits: "list_ex (block_hits ip [a, b, c, d]) (v4_nets @ v6_nets) \<longleftrightarrow> list_ex (\<lambda>n. Contains n [a, b, c, d]) v4_nets"
  using net_bits by (auto simp: list_ex_iff list_all_iff block_hits_def To4_def)

lemma validate_v4: "ValidateIP DefaultPolicy [a, b, c, d] = None \<longleftrightarrow> public_v4 a b c"
proof -
  have high: "(224 \<le> a \<and> a \<le> 239 \<or> 240 \<le> a \<or> a = 255 \<and> b = 255 \<and> c = 255 \<and> d = 255 \<or> False) = (224 \<le> a)"
    by (auto simp: word_le_nat_alt)
  have nets: "list_ex (\<lambda>n. Contains n [a, b, c, d]) v4_nets \<longleftrightarrow> \<not> public_v4 a b c"
    unfolding v4_nets_def list_ex_Nil_iff list_ex_Cons_iff v4_contains high public_v4_def not_not ..
  have "ValidateIP DefaultPolicy [a, b, c, d] = None \<longleftrightarrow>
      \<not> (IsLoopback [a, b, c, d] \<or> IsPrivate [a, b, c, d] \<or> IsLinkLocalUnicast [a, b, c, d] \<or> IsLinkLocalMulticast [a, b, c, d] \<or>
        IsMulticast [a, b, c, d] \<or> IsUnspecified [a, b, c, d]) \<and> public_v4 a b c"
    unfolding ValidateIP_def default_nets by (simp add: To4_def v4_hits nets Let_def del: list_ex_append)
  moreover have "\<not> public_v4 a b c" if "IsLoopback [a, b, c, d] \<or> IsPrivate [a, b, c, d] \<or> IsLinkLocalUnicast [a, b, c, d] \<or>
      IsLinkLocalMulticast [a, b, c, d] \<or> IsMulticast [a, b, c, d] \<or> IsUnspecified [a, b, c, d]"
    using that by (elim disjE) (auto simp: IsLoopback_def IsPrivate_def IsLinkLocalUnicast_def IsLinkLocalMulticast_def
        IsMulticast_def IsUnspecified_def To4_def public_v4_def byte_masks eval_nat_numeral)
  ultimately show ?thesis by blast
qed

text \<open>The IPv6 addresses, other than mapped IPv4 ones, outside the blocked prefixes.\<close>

definition public_v6 :: "ip \<Rightarrow> bool" where
  "public_v6 a \<longleftrightarrow>
     \<not> (a = replicate 16 0 \<or> a = replicate 15 0 @ [1] \<or> take 12 a = [0, 0x64, 0xFF, 0x9B] @ replicate 8 0 \<or>
        take 8 a = [1] @ replicate 7 0 \<or> take 2 a = [0x20, 0x01] \<and> a ! 2 \<le> 1 \<or> take 4 a = [0x20, 0x01, 0x0D, 0xB8] \<or>
        take 2 a = [0x20, 0x02] \<or> 0xFC \<le> a ! 0 \<and> a ! 0 \<le> 0xFD \<or>
        a ! 0 = 0xFE \<and> 0x80 \<le> a ! 1 \<and> a ! 1 \<le> 0xBF \<or> a ! 0 = 0xFF)"

lemma contains_v6:
  assumes "To4 a = None" "length a = 16"
  shows "Contains n a \<longleftrightarrow>
    (case networkNumberAndMask n of None \<Rightarrow> False | Some (nn, m) \<Rightarrow> length nn = 16 \<and> map2 (AND) nn m = map2 (AND) a m)"
  using assms by (auto simp: Contains_def split: option.split)

lemma length_16: "length a = 16 \<Longrightarrow> \<exists>x0 x1 x2 x3 x4 x5 x6 x7 x8 x9 y0 y1 y2 y3 y4 y5.
    a = [x0, x1, x2, x3, x4, x5, x6, x7, x8, x9, y0, y1, y2, y3, y4, y5]"
  by (simp add: eval_nat_numeral length_Suc_conv) blast

lemma zero_runs:
  "replicate 16 (0 :: 8 word) = [0, 0, 0, 0, 0, 0, 0, 0, 0, 0, 0, 0, 0, 0, 0, 0]"
  "replicate 15 (0 :: 8 word) = [0, 0, 0, 0, 0, 0, 0, 0, 0, 0, 0, 0, 0, 0, 0]"
  "replicate 10 (0 :: 8 word) = [0, 0, 0, 0, 0, 0, 0, 0, 0, 0]"
  "replicate 8 (0 :: 8 word) = [0, 0, 0, 0, 0, 0, 0, 0]" "replicate 7 (0 :: 8 word) = [0, 0, 0, 0, 0, 0, 0]"
  by (simp_all add: eval_nat_numeral)

lemma v6_contains:
  assumes "To4 a = None" "length a = 16"
  shows
    "Contains \<lparr>Net_IP = [0, 0, 0, 0, 0, 0, 0, 0, 0, 0, 0, 0, 0, 0, 0, 0], Net_Mask = [255, 255, 255, 255, 255, 255, 255, 255, 255, 255, 255, 255, 255, 255, 255, 255]\<rparr> a \<longleftrightarrow> a = replicate 16 0"
    "Contains \<lparr>Net_IP = [0, 0, 0, 0, 0, 0, 0, 0, 0, 0, 0, 0, 0, 0, 0, 1], Net_Mask = [255, 255, 255, 255, 255, 255, 255, 255, 255, 255, 255, 255, 255, 255, 255, 255]\<rparr> a \<longleftrightarrow> a = replicate 15 0 @ [1]"
    "Contains \<lparr>Net_IP = [0, 0, 0, 0, 0, 0, 0, 0, 0, 0, 255, 255, 0, 0, 0, 0], Net_Mask = [255, 255, 255, 255, 255, 255, 255, 255, 255, 255, 255, 255, 0, 0, 0, 0]\<rparr> a \<longleftrightarrow> False"
    "Contains \<lparr>Net_IP = [0, 100, 255, 155, 0, 0, 0, 0, 0, 0, 0, 0, 0, 0, 0, 0], Net_Mask = [255, 255, 255, 255, 255, 255, 255, 255, 255, 255, 255, 255, 0, 0, 0, 0]\<rparr> a \<longleftrightarrow> take 12 a = [0, 0x64, 0xFF, 0x9B] @ replicate 8 0"
    "Contains \<lparr>Net_IP = [1, 0, 0, 0, 0, 0, 0, 0, 0, 0, 0, 0, 0, 0, 0, 0], Net_Mask = [255, 255, 255, 255, 255, 255, 255, 255, 0, 0, 0, 0, 0, 0, 0, 0]\<rparr> a \<longleftrightarrow> take 8 a = [1] @ replicate 7 0"
    "Contains \<lparr>Net_IP = [32, 1, 0, 0, 0, 0, 0, 0, 0, 0, 0, 0, 0, 0, 0, 0], Net_Mask = [255, 255, 254, 0, 0, 0, 0, 0, 0, 0, 0, 0, 0, 0, 0, 0]\<rparr> a \<longleftrightarrow> take 2 a = [0x20, 0x01] \<and> a ! 2 \<le> 1"
    "Contains \<lparr>Net_IP = [32, 1, 13, 184, 0, 0, 0, 0, 0, 0, 0, 0, 0, 0, 0, 0], Net_Mask = [255, 255, 255, 255, 0, 0, 0, 0, 0, 0, 0, 0, 0, 0, 0, 0]\<rparr> a \<longleftrightarrow> take 4 a = [0x20, 0x01, 0x0D, 0xB8]"
    "Contains \<lparr>Net_IP = [32, 2, 0, 0, 0, 0, 0, 0, 0, 0, 0, 0, 0, 0, 0, 0], Net_Mask = [255, 255, 0, 0, 0, 0, 0, 0, 0, 0, 0, 0, 0, 0, 0, 0]\<rparr> a \<longleftrightarrow> take 2 a = [0x20, 0x02]"
    "Contains \<lparr>Net_IP = [252, 0, 0, 0, 0, 0, 0, 0, 0, 0, 0, 0, 0, 0, 0, 0], Net_Mask = [254, 0, 0, 0, 0, 0, 0, 0, 0, 0, 0, 0, 0, 0, 0, 0]\<rparr> a \<longleftrightarrow> 0xFC \<le> a ! 0 \<and> a ! 0 \<le> 0xFD"
    "Contains \<lparr>Net_IP = [254, 128, 0, 0, 0, 0, 0, 0, 0, 0, 0, 0, 0, 0, 0, 0], Net_Mask = [255, 192, 0, 0, 0, 0, 0, 0, 0, 0, 0, 0, 0, 0, 0, 0]\<rparr> a \<longleftrightarrow> a ! 0 = 0xFE \<and> 0x80 \<le> a ! 1 \<and> a ! 1 \<le> 0xBF"
    "Contains \<lparr>Net_IP = [255, 0, 0, 0, 0, 0, 0, 0, 0, 0, 0, 0, 0, 0, 0, 0], Net_Mask = [255, 0, 0, 0, 0, 0, 0, 0, 0, 0, 0, 0, 0, 0, 0, 0]\<rparr> a \<longleftrightarrow> a ! 0 = 0xFF"
proof -
  obtain x0 x1 x2 x3 x4 x5 x6 x7 x8 x9 y0 y1 y2 y3 y4 y5 where
    a: "a = [x0, x1, x2, x3, x4, x5, x6, x7, x8, x9, y0, y1, y2, y3, y4, y5]" using length_16[OF assms(2)] by blast
  show
    "Contains \<lparr>Net_IP = [0, 0, 0, 0, 0, 0, 0, 0, 0, 0, 0, 0, 0, 0, 0, 0], Net_Mask = [255, 255, 255, 255, 255, 255, 255, 255, 255, 255, 255, 255, 255, 255, 255, 255]\<rparr> a \<longleftrightarrow> a = replicate 16 0"
    "Contains \<lparr>Net_IP = [0, 0, 0, 0, 0, 0, 0, 0, 0, 0, 0, 0, 0, 0, 0, 1], Net_Mask = [255, 255, 255, 255, 255, 255, 255, 255, 255, 255, 255, 255, 255, 255, 255, 255]\<rparr> a \<longleftrightarrow> a = replicate 15 0 @ [1]"
    "Contains \<lparr>Net_IP = [0, 0, 0, 0, 0, 0, 0, 0, 0, 0, 255, 255, 0, 0, 0, 0], Net_Mask = [255, 255, 255, 255, 255, 255, 255, 255, 255, 255, 255, 255, 0, 0, 0, 0]\<rparr> a \<longleftrightarrow> False"
    "Contains \<lparr>Net_IP = [0, 100, 255, 155, 0, 0, 0, 0, 0, 0, 0, 0, 0, 0, 0, 0], Net_Mask = [255, 255, 255, 255, 255, 255, 255, 255, 255, 255, 255, 255, 0, 0, 0, 0]\<rparr> a \<longleftrightarrow> take 12 a = [0, 0x64, 0xFF, 0x9B] @ replicate 8 0"
    "Contains \<lparr>Net_IP = [1, 0, 0, 0, 0, 0, 0, 0, 0, 0, 0, 0, 0, 0, 0, 0], Net_Mask = [255, 255, 255, 255, 255, 255, 255, 255, 0, 0, 0, 0, 0, 0, 0, 0]\<rparr> a \<longleftrightarrow> take 8 a = [1] @ replicate 7 0"
    "Contains \<lparr>Net_IP = [32, 1, 0, 0, 0, 0, 0, 0, 0, 0, 0, 0, 0, 0, 0, 0], Net_Mask = [255, 255, 254, 0, 0, 0, 0, 0, 0, 0, 0, 0, 0, 0, 0, 0]\<rparr> a \<longleftrightarrow> take 2 a = [0x20, 0x01] \<and> a ! 2 \<le> 1"
    "Contains \<lparr>Net_IP = [32, 1, 13, 184, 0, 0, 0, 0, 0, 0, 0, 0, 0, 0, 0, 0], Net_Mask = [255, 255, 255, 255, 0, 0, 0, 0, 0, 0, 0, 0, 0, 0, 0, 0]\<rparr> a \<longleftrightarrow> take 4 a = [0x20, 0x01, 0x0D, 0xB8]"
    "Contains \<lparr>Net_IP = [32, 2, 0, 0, 0, 0, 0, 0, 0, 0, 0, 0, 0, 0, 0, 0], Net_Mask = [255, 255, 0, 0, 0, 0, 0, 0, 0, 0, 0, 0, 0, 0, 0, 0]\<rparr> a \<longleftrightarrow> take 2 a = [0x20, 0x02]"
    "Contains \<lparr>Net_IP = [252, 0, 0, 0, 0, 0, 0, 0, 0, 0, 0, 0, 0, 0, 0, 0], Net_Mask = [254, 0, 0, 0, 0, 0, 0, 0, 0, 0, 0, 0, 0, 0, 0, 0]\<rparr> a \<longleftrightarrow> 0xFC \<le> a ! 0 \<and> a ! 0 \<le> 0xFD"
    "Contains \<lparr>Net_IP = [254, 128, 0, 0, 0, 0, 0, 0, 0, 0, 0, 0, 0, 0, 0, 0], Net_Mask = [255, 192, 0, 0, 0, 0, 0, 0, 0, 0, 0, 0, 0, 0, 0, 0]\<rparr> a \<longleftrightarrow> a ! 0 = 0xFE \<and> 0x80 \<le> a ! 1 \<and> a ! 1 \<le> 0xBF"
    "Contains \<lparr>Net_IP = [255, 0, 0, 0, 0, 0, 0, 0, 0, 0, 0, 0, 0, 0, 0, 0], Net_Mask = [255, 0, 0, 0, 0, 0, 0, 0, 0, 0, 0, 0, 0, 0, 0, 0]\<rparr> a \<longleftrightarrow> a ! 0 = 0xFF"
    unfolding contains_v6[OF assms] by (auto simp: networkNumberAndMask_def To4_def Let_def zero_runs a byte_masks)
qed

lemma v6_hits:
  assumes "To4 a = None" "length a = 16"
  shows "list_ex (\<lambda>n. Contains n a) (v4_nets @ v6_nets) \<longleftrightarrow> \<not> public_v6 a"
proof -
  have "list_ex (\<lambda>n. Contains n a) v4_nets = False"
    unfolding v4_nets_def by (simp add: contains_v6[OF assms] networkNumberAndMask_def To4_def Let_def)
  moreover have "list_ex (\<lambda>n. Contains n a) v6_nets \<longleftrightarrow> \<not> public_v6 a"
    unfolding v6_nets_def list_ex_Nil_iff list_ex_Cons_iff v6_contains[OF assms] public_v6_def not_not by (simp only: simp_thms)
  ultimately show ?thesis by simp
qed

lemma validate_v6:
  assumes "To4 a = None" "length a = 16"
  shows "ValidateIP DefaultPolicy a = None \<longleftrightarrow> public_v6 a"
proof -
  have hits: "list_ex (block_hits a a) (v4_nets @ v6_nets) \<longleftrightarrow> \<not> public_v6 a"
    using v6_hits[OF assms] assms(1) by (simp add: block_hits_def list_ex_iff)
  have "\<not> public_v6 a" if "IsLoopback a \<or> IsPrivate a \<or> IsLinkLocalUnicast a \<or> IsLinkLocalMulticast a \<or> IsMulticast a \<or> IsUnspecified a"
    using that assms(1) by (elim disjE) (auto simp: IsLoopback_def IsPrivate_def IsLinkLocalUnicast_def IsLinkLocalMulticast_def
        IsMulticast_def IsUnspecified_def public_v6_def byte_masks)
  moreover have "a \<noteq> []" using assms(2) by auto
  ultimately show ?thesis unfolding ValidateIP_def default_nets using assms(1) by (auto simp: hits Let_def simp del: list_ex_append)
qed

lemma v4_mapped_To4: "To4 (v4_mapped [a, b, c, d]) = Some [a, b, c, d]"
  by (simp add: To4_def v4_mapped_def)

lemma validate_mapped: "ValidateIP p (v4_mapped [a, b, c, d]) = ValidateIP p [a, b, c, d]"
proof -
  have "block_hits (v4_mapped [a, b, c, d]) [a, b, c, d] = block_hits [a, b, c, d] [a, b, c, d]"
    by (rule ext) (simp add: block_hits_def To4_def)
  moreover have "v4_mapped [a, b, c, d] \<noteq> []" by (simp add: v4_mapped_def)
  moreover have "To4 [a, b, c, d] = Some [a, b, c, d]" by (simp add: To4_def)
  ultimately show ?thesis by (simp add: ValidateIP_def v4_mapped_To4 Let_def)
qed

text \<open>An address of 4 or 16 bytes that the policy of the program lets through.\<close>

definition public_ip :: "ip \<Rightarrow> bool" where
  "public_ip a = (case To4 a of Some b \<Rightarrow> public_v4 (b ! 0) (b ! 1) (b ! 2) | None \<Rightarrow> public_v6 a)"

lemma length_4: "length a = 4 \<Longrightarrow> \<exists>w x y z. a = [w, x, y, z]"
  by (simp add: eval_nat_numeral length_Suc_conv) blast

lemma validate_public:
  assumes "length a = 4 \<or> length a = 16"
  shows "ValidateIP DefaultPolicy a = None \<longleftrightarrow> public_ip a"
proof (cases "To4 a")
  case None
  with assms validate_v6[of a] show ?thesis by (auto simp: public_ip_def To4_def split: if_splits)
next
  case (Some b)
  have "take 12 a = replicate 10 0 @ [0xFF, 0xFF] \<Longrightarrow> a = v4_mapped (drop 12 a)"
    unfolding v4_mapped_def append_assoc[symmetric] by (metis append_take_drop_id)
  with Some have "a = b \<or> a = v4_mapped b" "length b = 4" by (auto simp: To4_def v4_mapped_def split: if_splits)
  then show ?thesis using length_4[of b] Some by (auto simp: public_ip_def validate_v4 validate_mapped)
qed

subsection \<open>The parsers give addresses of 4 or 16 bytes\<close>

lemma parse_v4_length: "parse_v4 s = Some a \<Longrightarrow> length a = 4"
  by (auto simp: parse_v4_def split: list.splits option.splits)

lemma parse_group_length:
  "parse_group s gap acc = Last r g \<Longrightarrow> length acc + 2 \<le> 16 \<Longrightarrow> length r \<le> 16"
  "parse_group s gap acc = More t g r \<Longrightarrow> length r = length acc + 2"
  by (auto simp: parse_group_def after_group_def Let_def dest: parse_v4_length split: if_splits option.splits list.splits)

lemma parse_groups_length:
  "parse_groups n s gap acc = Some (r, g, t) \<Longrightarrow> length acc + 2 * n \<le> 16 \<Longrightarrow> length r \<le> 16"
proof (induction n arbitrary: s gap acc)
  case (Suc n)
  then show ?case
    by (cases "parse_group s gap acc") (auto dest: parse_group_length)
qed simp

lemma fill_gap_length: "fill_gap (r, g, t) = Some a \<Longrightarrow> length r \<le> 16 \<Longrightarrow> length a = 16"
  by (auto simp: fill_gap_def split: if_splits option.splits)

lemma ParseIP_length: "ParseIP s = Some a \<Longrightarrow> length a = 16"
proof -
  have "length b = 16" if "Option.bind (parse_groups 8 t gap []) fill_gap = Some b" for t gap b
    using that parse_groups_length[of 8 t gap "[]"] fill_gap_length by (auto simp: bind_eq_Some_conv)
  then have "parse_v6 s = Some b \<Longrightarrow> length b = 16" for b by (auto simp: parse_v6_def split: if_splits)
  then show "ParseIP s = Some a \<Longrightarrow> length a = 16"
    by (auto simp: ParseIP_def parse_addr_def v4_mapped_def dest: parse_v4_length split: if_splits option.splits)
qed

subsection \<open>Properties\<close>

text \<open>
  C6. The default policy blocks exactly the private and special-purpose addresses: an IPv4 address passes
  exactly when it is outside the listed ranges, its form mapped into IPv6 is treated the same, and
  every other IPv6 address passes exactly when it is outside the listed prefixes.
\<close>

theorem ValidateIP_exact:
  "(ValidateIP DefaultPolicy [a, b, c, d] = None \<longleftrightarrow> public_v4 a b c) \<and>
   ValidateIP DefaultPolicy (v4_mapped [a, b, c, d]) = ValidateIP DefaultPolicy [a, b, c, d] \<and>
   (length ip = 16 \<and> To4 ip = None \<longrightarrow> (ValidateIP DefaultPolicy ip = None \<longleftrightarrow> public_v6 ip))"
  using validate_v4 validate_mapped validate_v6 by blast

theorem ValidateIP_exact_witness:
  "ValidateIP DefaultPolicy [8, 8, 8, 8] = None \<and> ValidateIP DefaultPolicy (v4_mapped [127, 0, 0, 1]) \<noteq> None \<and>
   ValidateIP DefaultPolicy (0x26 # replicate 15 0) = None"
proof -
  have "public_v4 8 8 8" "\<not> public_v4 127 0 0" by (simp_all add: public_v4_def)
  moreover have "length (0x26 # replicate 15 (0 :: 8 word)) = 16 \<and> To4 (0x26 # replicate 15 0) = None \<and> public_v6 (0x26 # replicate 15 0)"
    by code_simp
  ultimately show ?thesis
    using ValidateIP_exact[of 8 8 8 8 "0x26 # replicate 15 0"] ValidateIP_exact[of 127 0 0 1 "[]"] by auto
qed

text \<open>
  C7. A request that the default policy admits can only go to public addresses: the scheme is http or
  https, the host is not a number in disguise, and the literal address, or else every address that
  the resolver returned (at least one), is public. The resolver is assumed to return addresses of 4
  or 16 bytes.
\<close>

theorem ValidateTarget_public:
  assumes "ValidateTarget lookup DefaultPolicy (Some u) = None"
    and "\<And>h ips a. lookup h = Some ips \<Longrightarrow> a \<in> set ips \<Longrightarrow> length a = 4 \<or> length a = 16"
  shows "to_lower (URL_Scheme u) \<in> {''http'', ''https''} \<and> \<not> isObfuscatedIP (trim_space (Hostname u)) \<and>
         (case ParseIP (trim_space (Hostname u)) of
            Some a \<Rightarrow> public_ip a
          | None \<Rightarrow> \<exists>ips. lookup (trim_space (Hostname u)) = Some ips \<and> ips \<noteq> [] \<and> (\<forall>a \<in> set ips. public_ip a))"
proof -
  let ?host = "trim_space (Hostname u)"
  have pol: "Pol_AllowedSchemes DefaultPolicy = [''http'', ''https'']" "\<not> IsHostAllowed DefaultPolicy t" for t
    by (simp_all add: DefaultPolicy_def IsHostAllowed_def)
  have scheme: "equal_fold (to_lower (URL_Scheme u)) ''http'' \<or> equal_fold (to_lower (URL_Scheme u)) ''https''"
    and obf: "\<not> isObfuscatedIP ?host"
    and rest: "(case ParseIP ?host of Some a \<Rightarrow> ValidateIP DefaultPolicy a
      | None \<Rightarrow> (case lookup ?host of None \<Rightarrow> Some (new_security_error ''dns_resolution_failed'')
                | Some [] \<Rightarrow> Some (new_security_error ''dns_resolution_failed'')
                | Some ips \<Rightarrow> first_error (ValidateIP DefaultPolicy) ips)) = None"
    using assms(1) by (simp_all add: ValidateTarget_def Let_def pol split: if_splits)
  have "to_lower (URL_Scheme u) \<in> {''http'', ''https''}" using scheme by (simp add: equal_fold_def to_lower_idem) (simp add: string_defs)
  moreover have "case ParseIP ?host of Some a \<Rightarrow> public_ip a
      | None \<Rightarrow> \<exists>ips. lookup ?host = Some ips \<and> ips \<noteq> [] \<and> (\<forall>a \<in> set ips. public_ip a)"
  proof (cases "ParseIP ?host")
    case None
    with rest obtain ips where ips: "lookup ?host = Some ips" "ips \<noteq> []" "first_error (ValidateIP DefaultPolicy) ips = None"
      by (auto split: option.splits list.splits)
    with None assms(2)[OF ips(1)] validate_public show ?thesis by (auto simp: first_error_None)
  next
    case (Some a)
    with rest validate_public[of a] ParseIP_length[OF Some] show ?thesis by simp
  qed
  ultimately show ?thesis using obf by blast
qed

definition example_lookup :: "string \<Rightarrow> ip list option" where
  "example_lookup host = (if host = ''a.io'' then Some [[8, 8, 8, 8]] else None)"

theorem ValidateTarget_public_witness:
  "ValidateTarget example_lookup DefaultPolicy (Some \<lparr>URL_Scheme = ''https'', URL_Host = ''a.io:443''\<rparr>) = None \<and> public_ip [8, 8, 8, 8]"
proof -
  let ?u = "\<lparr>URL_Scheme = ''https'', URL_Host = ''a.io:443''\<rparr>"
  have host: "trim_space (Hostname ?u) = ''a.io''" "ParseIP ''a.io'' = None" by code_simp+
  have "ValidateIP DefaultPolicy [8, 8, 8, 8] = None" by (simp add: validate_v4 public_v4_def)
  moreover have "\<not> isObfuscatedIP ''a.io''" "\<not> contains (to_lower ''a.io'') '':ffff:''" "\<not> contains (to_lower ''a.io'') ''::ffff:''"
    "\<not> has_suffix ''a.io'' ''.''" "to_lower ''https'' = ''https''" "equal_fold ''https'' ''https''" by code_simp+
  ultimately have ok: "ValidateTarget example_lookup DefaultPolicy (Some ?u) = None"
    using host by (simp add: ValidateTarget_def Let_def DefaultPolicy_def example_lookup_def)
  have "length a = 4 \<or> length a = 16" if "example_lookup h = Some ips" "a \<in> set ips" for h ips a
    using that by (auto simp: example_lookup_def split: if_splits)
  from ValidateTarget_public[OF ok this] host ok show ?thesis by (auto simp: example_lookup_def)
qed

end
