(* ===== verification/Risk_Text.thy ===== *)
theory Risk_Text
  imports Fetch_Policy
begin

section \<open>Sensitive text in risk data (domain/iprisk.go)\<close>

text \<open>
  The checks that keep addresses and credentials out of stored risk data. The six regular expressions
  of \<open>iprisk.go\<close> and the query expression of \<open>errors.go\<close> are fixed, so each is a function that finds
  what package regexp finds: the leftmost match, with greedy repetition. Case-insensitive letters
  include the two letters outside ASCII that fold to \<open>s\<close> and \<open>k\<close>, and lower case includes the two
  that map to \<open>i\<close> and \<open>k\<close>, as byte sequences of UTF-8. Text is trimmed as in the prelude.
\<close>

subsection \<open>Expressions for identifiers and codes\<close>

definition is_upper :: "char \<Rightarrow> bool" where
  "is_upper c \<longleftrightarrow> (65::nat) \<le> of_char c \<and> (of_char c :: nat) \<le> 90"

definition is_lower :: "char \<Rightarrow> bool" where
  "is_lower c \<longleftrightarrow> (97::nat) \<le> of_char c \<and> (of_char c :: nat) \<le> 122"

definition is_alnum :: "char \<Rightarrow> bool" where
  "is_alnum c \<longleftrightarrow> is_digit c \<or> is_upper c \<or> is_lower c"

definition is_word :: "char \<Rightarrow> bool" where
  "is_word c \<longleftrightarrow> is_alnum c \<or> c = CHR ''_''"

definition isoCountryCodeRegex :: "string \<Rightarrow> bool" where
  "isoCountryCodeRegex s \<longleftrightarrow> length s = 2 \<and> list_all is_upper s"

definition reasonCodeRegex :: "string \<Rightarrow> bool" where
  "reasonCodeRegex s =
     (case s of [] \<Rightarrow> False
      | c # r \<Rightarrow> is_lower c \<and> list_all (\<lambda>d. is_lower d \<or> is_digit d \<or> d \<in> set ''_.-'') r)"

definition ipRiskIdentifierRegex :: "string \<Rightarrow> bool" where
  "ipRiskIdentifierRegex s =
     (case s of [] \<Rightarrow> False | c # r \<Rightarrow> is_alnum c \<and> list_all (\<lambda>d. is_alnum d \<or> d \<in> set ''_.-'') r)"

subsection \<open>Expressions for URLs with a query and for secrets\<close>

text \<open>\<open>fold_prefix s p\<close> is what follows the lower-case pattern \<open>p\<close>, matched in any case, in \<open>s\<close>.\<close>

definition fold_char :: "char \<Rightarrow> string \<Rightarrow> string option" where
  "fold_char p s =
     (case s of
        [] \<Rightarrow> None
      | c # r \<Rightarrow>
          if lower_char c = p then Some r
          else if p = CHR ''s'' \<and> has_prefix s [CHR 0xC5, CHR 0xBF] then Some (drop 2 s)
          else if p = CHR ''k'' \<and> has_prefix s [CHR 0xE2, CHR 0x84, CHR 0xAA] then Some (drop 3 s)
          else None)"

fun fold_prefix :: "string \<Rightarrow> string \<Rightarrow> string option" where
  "fold_prefix s [] = Some s"
| "fold_prefix s (p # ps) = (case fold_char p s of None \<Rightarrow> None | Some r \<Rightarrow> fold_prefix r ps)"

definition re_space :: "char \<Rightarrow> bool" where
  "re_space c \<longleftrightarrow> c = CHR '' '' \<or> c = CHR 0x09 \<or> c = CHR 0x0A \<or> c = CHR 0x0C \<or> c = CHR 0x0D"

definition secret_value_char :: "char \<Rightarrow> bool" where
  "secret_value_char c \<longleftrightarrow> \<not> re_space c \<and> c \<notin> set [CHR ''&'', CHR 0x22, CHR 0x27, CHR ''<'', CHR ''>'', CHR 0x60, CHR '')'', CHR '']'', CHR ''}'']"

definition query_secret_at :: "string \<Rightarrow> bool" where
  "query_secret_at s =
     (case s of
        [] \<Rightarrow> False
      | c # r \<Rightarrow>
          (c = CHR ''?'' \<or> c = CHR ''&'') \<and>
          list_ex (\<lambda>key. case fold_prefix r (key @ ''='') of Some (d # _) \<Rightarrow> secret_value_char d | _ \<Rightarrow> False)
            [''token'', ''secret'', ''password'', ''key'', ''auth'', ''api_key'', ''access_token''])"

fun querySecretRegex :: "string \<Rightarrow> bool" where
  "querySecretRegex [] = False"
| "querySecretRegex (c # s) = (query_secret_at (c # s) \<or> querySecretRegex s)"

definition query_part :: "string \<Rightarrow> bool" where
  "query_part t =
     (takeWhile (\<lambda>c. \<not> re_space c \<and> c \<noteq> CHR ''?'') t \<noteq> [] \<and>
      (case dropWhile (\<lambda>c. \<not> re_space c \<and> c \<noteq> CHR ''?'') t of
         q # d # _ \<Rightarrow> q = CHR ''?'' \<and> \<not> re_space d
       | _ \<Rightarrow> False))"

definition url_query_at :: "string \<Rightarrow> bool" where
  "url_query_at s =
     list_ex (\<lambda>scheme. case fold_prefix s scheme of None \<Rightarrow> False | Some t \<Rightarrow> query_part t) [''https://'', ''http://'']"

text \<open>The flag says whether the byte before is a word character, for the word boundary.\<close>

fun url_query_from :: "bool \<Rightarrow> string \<Rightarrow> bool" where
  "url_query_from w [] = False"
| "url_query_from w (c # s) = (\<not> w \<and> url_query_at (c # s) \<or> url_query_from (is_word c) s)"

definition urlQueryRegex :: "string \<Rightarrow> bool" where
  "urlQueryRegex s = url_query_from False s"

subsection \<open>Expressions for addresses\<close>

text \<open>\<open>dotted n s\<close> matches \<open>n\<close> fields with their dots and one more field of at most three digits.\<close>

fun dotted :: "nat \<Rightarrow> string \<Rightarrow> string option" where
  "dotted 0 s =
     (let ds = takeWhile is_digit s in if ds = [] \<or> 3 < length ds then None else Some ds)"
| "dotted (Suc n) s =
     (let ds = takeWhile is_digit s
      in if ds = [] \<or> 3 < length ds then None
         else case dropWhile is_digit s of
                [] \<Rightarrow> None
              | c # r \<Rightarrow> if c = CHR ''.'' then map_option (\<lambda>t. ds @ [c] @ t) (dotted n r) else None)"

text \<open>The first submatch of the leftmost match; the flag says whether the byte before is a digit.\<close>

fun ipv4_from :: "bool \<Rightarrow> string \<Rightarrow> string option" where
  "ipv4_from w [] = None"
| "ipv4_from w (c # s) =
     (case (if w then None else dotted 3 (c # s)) of
        Some m \<Rightarrow> Some m
      | None \<Rightarrow> ipv4_from (is_digit c) s)"

definition ipv4Regex :: "string \<Rightarrow> string option" where
  "ipv4Regex s = ipv4_from False s"

text \<open>One group of at most four hexadecimal digits and its colon, and the greedy run of groups.\<close>

definition colon_group :: "string \<Rightarrow> (string \<times> string) option" where
  "colon_group s =
     (let hs = takeWhile is_hex s
      in case dropWhile is_hex s of
           [] \<Rightarrow> None
         | c # r \<Rightarrow> if length hs \<le> 4 \<and> c = CHR '':'' then Some (hs @ [c], r) else None)"

lemma colon_group_shorter: "colon_group s = Some (t, r) \<Longrightarrow> length r < length s"
  using length_dropWhile_le[of is_hex s]
  by (auto simp: colon_group_def Let_def split: list.splits if_splits)

function colon_groups :: "string \<Rightarrow> nat \<times> string \<times> string" where
  "colon_groups s =
     (case colon_group s of
        None \<Rightarrow> (0, [], s)
      | Some (g, r) \<Rightarrow> (case colon_groups r of (n, t, r') \<Rightarrow> (Suc n, g @ t, r')))"
  by pat_completeness auto
termination
  by (relation "measure length") (auto dest: colon_group_shorter)

declare colon_groups.simps [simp del]

lemma colon_groups_shorter: "colon_groups s = (n, t, r) \<Longrightarrow> length r + n \<le> length s"
proof (induction s arbitrary: n t r rule: colon_groups.induct)
  case (1 s)
  show ?case
  proof (cases "colon_group s")
    case None
    with 1(2) show ?thesis by (simp add: colon_groups.simps)
  next
    case (Some gr)
    obtain g r' where gr: "gr = (g, r')" by (cases gr)
    obtain m u v where m: "colon_groups r' = (m, u, v)" by (cases "colon_groups r'")
    from 1(2) Some gr m have "n = Suc m" and "r = v" by (simp_all add: colon_groups.simps)
    with 1(1)[OF Some gr[symmetric] m] colon_group_shorter[of s g r'] Some gr show ?thesis by simp
  qed
qed

definition ipv6_at :: "string \<Rightarrow> (string \<times> string) option" where
  "ipv6_at s =
     (case colon_groups s of (n, t, r) \<Rightarrow>
        if n < 2 then None
        else (let u = take 4 (takeWhile (\<lambda>c. is_hex c \<or> c = CHR '':'') r) in Some (t @ u, drop (length u) r)))"

lemma ipv6_at_shorter: "ipv6_at s = Some (m, r) \<Longrightarrow> length r < length s"
  using colon_groups_shorter[of s]
  by (fastforce simp: ipv6_at_def Let_def split: prod.splits if_splits)

text \<open>All matches from left to right, as \<open>FindAllString\<close> returns them.\<close>

function ipv6Regex :: "string \<Rightarrow> string list" where
  "ipv6Regex [] = []"
| "ipv6Regex (c # s) =
     (case ipv6_at (c # s) of Some (m, r) \<Rightarrow> m # ipv6Regex r | None \<Rightarrow> ipv6Regex s)"
  by pat_completeness auto
termination
  by (relation "measure length") (auto dest: ipv6_at_shorter)

definition trim_colons :: "string \<Rightarrow> string" where
  "trim_colons s = rev (dropWhile (\<lambda>c. c = CHR '':'') (rev (dropWhile (\<lambda>c. c = CHR '':'') s)))"

definition containsIPAddress :: "string \<Rightarrow> bool" where
  "containsIPAddress v \<longleftrightarrow>
     (case ipv4Regex v of Some m \<Rightarrow> ParseIP m \<noteq> None | None \<Rightarrow> False) \<or>
     list_ex (\<lambda>m. 2 \<le> length (filter (\<lambda>c. c = CHR '':'') m) \<and> ParseIP (trim_colons m) \<noteq> None) (ipv6Regex v)"

subsection \<open>Checks of text\<close>

text \<open>\<open>strings.ToLower\<close>, with the two letters outside ASCII whose lower case is in ASCII.\<close>

fun lower_text :: "string \<Rightarrow> string" where
  "lower_text [] = []"
| "lower_text (c # s) =
     (if has_prefix (c # s) [CHR 0xC4, CHR 0xB0] then CHR ''i'' # lower_text (drop 1 s)
      else if has_prefix (c # s) [CHR 0xE2, CHR 0x84, CHR 0xAA] then CHR ''k'' # lower_text (drop 2 s)
      else lower_char c # lower_text s)"

definition containsSensitiveIPRiskText :: "string \<Rightarrow> bool" where
  "containsSensitiveIPRiskText v =
     (let lower = lower_text v
      in containsIPAddress v \<or> urlQueryRegex v \<or> querySecretRegex v \<or>
         contains lower ''api_key'' \<or> contains lower ''apikey'' \<or> contains lower ''cookie'' \<or>
         contains lower ''raw_payload'' \<or> contains lower ''raw json'' \<or> contains lower ''access_token'' \<or>
         contains lower ''token='' \<or> contains lower ''secret='' \<or> contains lower ''password='')"

definition MaxIPRiskIdentifierLength :: nat where
  "MaxIPRiskIdentifierLength = 64"

definition MaxIPRiskRedactedSummaryLength :: nat where
  "MaxIPRiskRedactedSummaryLength = 512"

definition validateIPRiskIdentifier :: "string \<Rightarrow> string \<Rightarrow> go_error" where
  "validateIPRiskIdentifier field v =
     (let trimmed = trim_space v
      in if trimmed = [] then Some (new_validation_error (''missing_ip_risk_'' @ field))
         else if MaxIPRiskIdentifierLength < length trimmed \<or> \<not> ipRiskIdentifierRegex trimmed
         then Some (new_validation_error (''invalid_ip_risk_'' @ field))
         else if containsSensitiveIPRiskText trimmed then Some (new_security_error (''sensitive_ip_risk_'' @ field))
         else None)"

definition validateRedactedSummary :: "string \<Rightarrow> go_error" where
  "validateRedactedSummary summary =
     (if MaxIPRiskRedactedSummaryLength < length summary then Some (new_validation_error ''invalid_ip_risk_summary_length'')
      else if contains summary ''{'' \<or> contains summary ''}'' \<or> contains summary ''['' \<or> contains summary '']''
      then Some (new_security_error ''raw_json_ip_risk_summary'')
      else if containsSensitiveIPRiskText summary then Some (new_security_error ''sensitive_ip_risk_summary'')
      else None)"

definition validDigest :: "string \<Rightarrow> bool" where
  "validDigest v \<longleftrightarrow> has_prefix v ''sha256:'' \<and> length v = length ''sha256:'' + 64 \<and> list_all is_hex (drop 7 v)"

subsection \<open>Addresses that are found\<close>

lemma nat_of_digits_ge: "digit_val c * 10 ^ length s \<le> nat_of_digits (c # s)"
proof -
  have "n * 10 ^ length s \<le> foldl (\<lambda>n c. 10 * n + digit_val c) n s" for n
  proof (induction s arbitrary: n)
    case (Cons d s)
    have "n * 10 ^ length (d # s) \<le> (10 * n + digit_val d) * 10 ^ length s" by simp
    also have "\<dots> \<le> foldl (\<lambda>n c. 10 * n + digit_val c) (10 * n + digit_val d) s" by (rule Cons.IH)
    finally show ?case by simp
  qed simp
  from this[of "digit_val c"] show ?thesis by (simp add: nat_of_digits_def)
qed

lemma parse_octet_field:
  assumes "parse_octet s \<noteq> None"
  shows "s \<noteq> []" "list_all is_digit s" "length s \<le> 3"
proof -
  from assms show ne: "s \<noteq> []" and ds: "list_all is_digit s" by (auto simp: parse_octet_def split: if_splits)
  from assms have lz: "length s > 1 \<longrightarrow> \<not> has_prefix s ''0''" and le: "nat_of_digits s \<le> 255"
    by (auto simp: parse_octet_def split: if_splits)
  obtain c t where s: "s = c # t" using ne by (cases s) auto
  show "length s \<le> 3"
  proof (rule ccontr)
    assume long: "\<not> length s \<le> 3"
    with lz s have "c \<noteq> CHR ''0''" by (cases t) auto
    then have "(of_char c :: nat) \<noteq> 48"
      using of_char_eq_iff[of c "CHR ''0''", where ?'a = nat] by simp
    moreover have "48 \<le> (of_char c :: nat)" using ds s by (simp add: is_digit_def)
    ultimately have "1 \<le> digit_val c" unfolding digit_val_def by linarith
    moreover have "(10::nat) ^ 3 \<le> 10 ^ length t" using long s by (intro power_increasing) auto
    ultimately have "1 * 10 ^ 3 \<le> digit_val c * 10 ^ length t" by (rule mult_le_mono)
    with nat_of_digits_ge[of c t] le s show False by simp
  qed
qed

lemma join_split_on: "join (split_on d s) [d] = s"
proof (induction s)
  case (Cons c s)
  obtain w ws where w: "split_on d s = w # ws" by (cases "split_on d s") (use Cons in \<open>auto split: list.splits\<close>)
  with Cons show ?case by (cases ws) auto
qed simp

lemma parse_v4_fields:
  assumes "parse_v4 m \<noteq> None"
  obtains a b c d where "m = a @ [CHR ''.''] @ b @ [CHR ''.''] @ c @ [CHR ''.''] @ d"
    and "\<forall>x\<in>{a, b, c, d}. x \<noteq> [] \<and> list_all is_digit x \<and> length x \<le> 3"
proof -
  from assms obtain a b c d where split: "split_on CHR ''.'' m = [a, b, c, d]"
    and oct: "parse_octet a \<noteq> None" "parse_octet b \<noteq> None" "parse_octet c \<noteq> None" "parse_octet d \<noteq> None"
    by (auto simp: parse_v4_def map_eq_Cons_conv split: list.splits option.splits)
  from join_split_on[of "CHR ''.''" m] split have "m = a @ [CHR ''.''] @ b @ [CHR ''.''] @ c @ [CHR ''.''] @ d" by simp
  moreover have "\<forall>x\<in>{a, b, c, d}. x \<noteq> [] \<and> list_all is_digit x \<and> length x \<le> 3"
    using oct parse_octet_field by auto
  ultimately show thesis by (rule that)
qed

definition no_digit_first :: "string \<Rightarrow> bool" where
  "no_digit_first s \<longleftrightarrow> (case s of [] \<Rightarrow> True | c # _ \<Rightarrow> \<not> is_digit c)"

lemma digit_run:
  assumes "list_all is_digit x" "no_digit_first s"
  shows "takeWhile is_digit (x @ s) = x" "dropWhile is_digit (x @ s) = s"
  using assms by (auto simp: no_digit_first_def list_all_iff takeWhile_append dropWhile_append split: list.splits)

lemma dotted_field:
  assumes "x \<noteq> []" "list_all is_digit x" "length x \<le> 3"
  shows "no_digit_first s \<Longrightarrow> dotted 0 (x @ s) = Some x"
    and "dotted (Suc n) (x @ CHR ''.'' # s) = map_option (\<lambda>t. x @ [CHR ''.''] @ t) (dotted n s)"
proof -
  show "no_digit_first s \<Longrightarrow> dotted 0 (x @ s) = Some x"
    using assms digit_run[of x s] by (simp add: Let_def)
  have "no_digit_first (CHR ''.'' # s)" by (simp add: no_digit_first_def is_digit_def)
  with assms digit_run[of x "CHR ''.'' # s"]
  show "dotted (Suc n) (x @ CHR ''.'' # s) = map_option (\<lambda>t. x @ [CHR ''.''] @ t) (dotted n s)"
    by (simp add: Let_def)
qed

lemma dotted_address:
  assumes "parse_v4 m \<noteq> None" "no_digit_first s"
  shows "dotted 3 (m @ s) = Some m" and "m \<noteq> []"
proof -
  from assms(1) obtain a b c d where m: "m = a @ [CHR ''.''] @ b @ [CHR ''.''] @ c @ [CHR ''.''] @ d"
    and f: "\<forall>x\<in>{a, b, c, d}. x \<noteq> [] \<and> list_all is_digit x \<and> length x \<le> 3" by (rule parse_v4_fields)
  with assms(2) show "dotted 3 (m @ s) = Some m"
    by (simp add: numeral_3_eq_3 dotted_field del: dotted.simps)
  from m show "m \<noteq> []" by simp
qed

lemma ipv4_from_skip:
  "list_all (\<lambda>c. \<not> is_digit c) a \<Longrightarrow> dotted 3 (m @ s) = Some m \<Longrightarrow> m \<noteq> [] \<Longrightarrow> ipv4_from False (a @ m @ s) = Some m"
proof (induction a)
  case Nil
  then show ?case by (cases m) auto
next
  case (Cons c a)
  then show ?case by (simp add: numeral_3_eq_3)
qed

lemma ParseIP_v4: "parse_v4 m \<noteq> None \<Longrightarrow> ParseIP m \<noteq> None"
proof -
  assume v4: "parse_v4 m \<noteq> None"
  then obtain a b c d where m: "m = a @ [CHR ''.''] @ b @ [CHR ''.''] @ c @ [CHR ''.''] @ d"
    and f: "\<forall>x\<in>{a, b, c, d}. x \<noteq> [] \<and> list_all is_digit x \<and> length x \<le> 3" by (rule parse_v4_fields)
  have dig: "is_digit x \<Longrightarrow> x \<noteq> CHR ''%'' \<and> x \<noteq> CHR ''.'' \<and> x \<noteq> CHR '':''" for x by (auto simp: is_digit_def)
  have "CHR ''%'' \<notin> set m" using m f dig[of "CHR ''%''"] by (auto simp: list_all_iff is_digit_def)
  moreover have "find (\<lambda>c. c = CHR ''.'' \<or> c = CHR '':'') (x @ CHR ''.'' # y) = Some CHR ''.''" if "list_all is_digit x" for x y
    using that dig by (induction x) auto
  ultimately show ?thesis using v4 m f by (simp add: ParseIP_def parse_addr_def)
qed

lemma containsIPAddress_quad:
  assumes "list_all (\<lambda>c. \<not> is_digit c) a" "parse_v4 m \<noteq> None" "no_digit_first s"
  shows "containsIPAddress (a @ m @ s)"
  using ipv4_from_skip[OF assms(1) dotted_address[OF assms(2,3)]] ParseIP_v4[OF assms(2)]
  by (simp add: containsIPAddress_def ipv4Regex_def)

lemma identifier_chars:
  "ipRiskIdentifierRegex s \<Longrightarrow> CHR '':'' \<notin> set s"
  by (auto simp: ipRiskIdentifierRegex_def list_all_iff is_alnum_def is_digit_def is_upper_def is_lower_def split: list.splits)

text \<open>
  C29. An identifier of a provider or of its schema that is accepted is not the text of an address of
  either family, and a text is never free of sensitive data when its first digits begin a dotted
  IPv4 address that no further digit follows.
\<close>

theorem identifier_not_address:
  "(validateIPRiskIdentifier field v = None \<longrightarrow> ParseIP (trim_space v) = None) \<and>
   (list_all (\<lambda>c. \<not> is_digit c) a \<and> parse_v4 m \<noteq> None \<and> no_digit_first s \<longrightarrow>
    containsSensitiveIPRiskText (a @ m @ s) \<and> validateRedactedSummary (a @ m @ s) \<noteq> None)"
proof (intro conjI impI)
  assume ok: "validateIPRiskIdentifier field v = None"
  then have re: "ipRiskIdentifierRegex (trim_space v)" and clean: "\<not> containsIPAddress (trim_space v)"
    by (auto simp: validateIPRiskIdentifier_def Let_def containsSensitiveIPRiskText_def split: if_splits)
  show "ParseIP (trim_space v) = None"
  proof (rule ccontr)
    assume "ParseIP (trim_space v) \<noteq> None"
    with identifier_chars[OF re] have "parse_v4 (trim_space v) \<noteq> None"
      by (auto simp: ParseIP_def parse_addr_def find_Some_iff split: if_splits option.splits dest: nth_mem)
    with containsIPAddress_quad[of "[]" "trim_space v" "[]"] clean show False by (simp add: no_digit_first_def)
  qed
next
  assume a: "list_all (\<lambda>c. \<not> is_digit c) a \<and> parse_v4 m \<noteq> None \<and> no_digit_first s"
  then show "containsSensitiveIPRiskText (a @ m @ s)"
    by (simp add: containsSensitiveIPRiskText_def Let_def containsIPAddress_quad)
  with a show "validateRedactedSummary (a @ m @ s) \<noteq> None"
    by (simp add: validateRedactedSummary_def)
qed

theorem identifier_not_address_witness:
  "validateIPRiskIdentifier ''provider'' ''ipqs'' = None \<and> ParseIP (trim_space ''ipqs'') = None \<and>
   list_all (\<lambda>c. \<not> is_digit c) ''exit '' \<and> parse_v4 ''8.8.4.4'' \<noteq> None \<and> no_digit_first ''!'' \<and>
   validateRedactedSummary (''exit '' @ ''8.8.4.4'' @ ''!'') \<noteq> None"
proof -
  have "validateIPRiskIdentifier ''provider'' ''ipqs'' = None" by code_simp
  moreover have "list_all (\<lambda>c. \<not> is_digit c) ''exit ''" by code_simp
  moreover have "parse_v4 ''8.8.4.4'' \<noteq> None" by code_simp
  moreover have "no_digit_first ''!''" by code_simp
  ultimately show ?thesis
    using identifier_not_address[of "''provider''" "''ipqs''" "''exit ''" "''8.8.4.4''" "''!''"] by blast
qed

subsection \<open>Addresses that are missed\<close>

text \<open>
  Only the first dotted quad of a text is looked at, and the colons at both ends of a match are
  removed before it is parsed: an IPv4 address after an impossible one, and an IPv6 address that
  begins or ends with a double colon, are accepted in a summary.
\<close>

theorem address_in_summary_missed:
  "validateRedactedSummary ''999.1.1.1 8.8.8.8'' = None \<and> ParseIP ''8.8.8.8'' \<noteq> None \<and>
   validateRedactedSummary ''exit ::1'' = None \<and> ParseIP ''::1'' \<noteq> None \<and>
   validateRedactedSummary ''exit 2606:4700::'' = None \<and> ParseIP ''2606:4700::'' \<noteq> None"
proof (intro conjI)
  show "validateRedactedSummary ''999.1.1.1 8.8.8.8'' = None" by code_simp
  show "ParseIP ''8.8.8.8'' \<noteq> None" by code_simp
  show "validateRedactedSummary ''exit ::1'' = None" by code_simp
  show "ParseIP ''::1'' \<noteq> None" by code_simp
  show "validateRedactedSummary ''exit 2606:4700::'' = None" by code_simp
  show "ParseIP ''2606:4700::'' \<noteq> None" by code_simp
qed

subsection \<open>Plain codes\<close>

text \<open>A text of lower-case letters and underscores can only be sensitive through a marker word.\<close>

definition plain :: "char \<Rightarrow> bool" where
  "plain c \<longleftrightarrow> c \<in> set ''abcdefghijklmnopqrstuvwxyz_''"

definition marker_free :: "string \<Rightarrow> bool" where
  "marker_free s \<longleftrightarrow>
     \<not> list_ex (contains s) [''api_key'', ''apikey'', ''cookie'', ''raw_payload'', ''raw json'', ''access_token'', ''token='',
       ''secret='', ''password='']"

lemma plain_all: "list_all P ''abcdefghijklmnopqrstuvwxyz_'' \<Longrightarrow> plain c \<Longrightarrow> P c"
  by (simp only: plain_def list_all_iff)

lemma plain_char:
  assumes "plain c"
  shows "\<not> is_digit c" "lower_char c = c" "\<not> is_space c" "c \<noteq> CHR ''_'' \<Longrightarrow> is_lower c"
    and "c \<notin> set [CHR '':'', CHR ''?'', CHR ''&'', CHR '' '', CHR ''-'', CHR 0xC4, CHR 0xE2]"
proof -
  show "\<not> is_digit c" by (rule plain_all[OF _ assms]) code_simp
  show "lower_char c = c" by (rule plain_all[OF _ assms]) code_simp
  show "\<not> is_space c" by (rule plain_all[OF _ assms]) code_simp
  have "c \<noteq> CHR ''_'' \<longrightarrow> is_lower c" by (rule plain_all[OF _ assms]) code_simp
  then show "c \<noteq> CHR ''_'' \<Longrightarrow> is_lower c" by blast
  show "c \<notin> set [CHR '':'', CHR ''?'', CHR ''&'', CHR '' '', CHR ''-'', CHR 0xC4, CHR 0xE2]"
    by (rule plain_all[OF _ assms]) code_simp
qed

lemma fold_char_suffix: "fold_char p s = Some r \<Longrightarrow> set r \<subseteq> set s"
  by (auto simp: fold_char_def dest: in_set_dropD split: list.splits if_splits)

lemma fold_prefix_suffix: "fold_prefix s ps = Some r \<Longrightarrow> set r \<subseteq> set s"
  by (induction s ps rule: fold_prefix.induct) (force dest: fold_char_suffix split: option.splits)+

lemma query_part_mark: "query_part t \<Longrightarrow> CHR ''?'' \<in> set t"
  using set_dropWhileD[of "CHR ''?''" "\<lambda>c. \<not> re_space c \<and> c \<noteq> CHR ''?''" t]
  by (auto simp: query_part_def split: list.splits)

lemma url_query_at_mark: "url_query_at s \<Longrightarrow> CHR ''?'' \<in> set s"
proof -
  assume "url_query_at s"
  then obtain scheme t where "fold_prefix s scheme = Some t" "query_part t"
    unfolding url_query_at_def list_ex_iff by (metis option.case_eq_if option.collapse)
  with fold_prefix_suffix query_part_mark show ?thesis by blast
qed

lemma url_query_from_mark: "url_query_from w s \<Longrightarrow> CHR ''?'' \<in> set s"
  by (induction w s rule: url_query_from.induct) (auto dest: url_query_at_mark)

lemma querySecret_mark: "querySecretRegex s \<Longrightarrow> CHR ''?'' \<in> set s \<or> CHR ''&'' \<in> set s"
  by (induction s rule: querySecretRegex.induct) (auto simp: query_secret_at_def)

lemma ipv4_from_no_digit: "\<forall>c\<in>set s. \<not> is_digit c \<Longrightarrow> ipv4_from w s = None"
  by (induction w s rule: ipv4_from.induct) (auto simp: numeral_3_eq_3)

lemma colon_group_no_colon: "CHR '':'' \<notin> set s \<Longrightarrow> colon_group s = None"
  by (auto simp: colon_group_def Let_def split: list.splits) (metis list.set_intros(1) set_dropWhileD)

lemma ipv6Regex_no_colon: "CHR '':'' \<notin> set s \<Longrightarrow> ipv6Regex s = []"
proof (induction s)
  case (Cons c s)
  have "ipv6_at (c # s) = None"
    using colon_group_no_colon[OF Cons.prems] by (simp add: ipv6_at_def colon_groups.simps)
  with Cons show ?case by simp
qed simp

lemma lower_text_plain: "list_all plain s \<Longrightarrow> lower_text s = s"
proof (induction s)
  case (Cons c s)
  then have "c \<noteq> CHR 0xC4" "c \<noteq> CHR 0xE2" "lower_char c = c" using plain_char[of c] by auto
  with Cons show ?case by simp
qed simp

lemma plain_not_sensitive:
  assumes "list_all plain s" "marker_free s"
  shows "\<not> containsSensitiveIPRiskText s"
proof -
  have c: "\<And>c. c \<in> set s \<Longrightarrow> \<not> is_digit c \<and> c \<noteq> CHR '':'' \<and> c \<noteq> CHR ''?'' \<and> c \<noteq> CHR ''&''"
    using assms(1) plain_char by (fastforce simp: list_all_iff)
  then have "CHR '':'' \<notin> set s" by blast
  with c have "\<not> containsIPAddress s"
    using ipv4_from_no_digit[of s False] ipv6Regex_no_colon[of s] by (auto simp: containsIPAddress_def ipv4Regex_def)
  moreover have "\<not> urlQueryRegex s" "\<not> querySecretRegex s"
    using c url_query_from_mark[of False s] querySecret_mark[of s] by (auto simp: urlQueryRegex_def)
  ultimately show ?thesis
    using assms by (simp add: containsSensitiveIPRiskText_def lower_text_plain marker_free_def Let_def)
qed

lemma plain_trim: "list_all plain s \<Longrightarrow> trim_space s = s"
proof -
  assume p: "list_all plain s"
  have "dropWhile is_space t = t" if "set t \<subseteq> set s" for t
    using that p plain_char(3) by (cases t) (auto simp: list_all_iff)
  then show ?thesis by (simp add: trim_space_def trim_left_def)
qed

lemma plain_lower: "list_all plain s \<Longrightarrow> to_lower s = s"
  using plain_char(2) by (auto simp: to_lower_def list_all_iff intro: map_idI)

end
