(* ===== verification/Risk_Policy.thy ===== *)
theory Risk_Policy
  imports Risk_Text Node_Admission
begin

section \<open>Risk policies and observations (domain/iprisk.go, domain/iprisk\_repository.go)\<close>

text \<open>
  Enumerations, records and validation of the risk domain. A policy selects providers, maps scores to
  bands and traits to actions, and says what to do without usable evidence. Pointers are options,
  times and durations integers as in the prelude. The secret references of provider settings, which
  need the whole URL parser, are not modelled. The actions \<open>RiskAction\<close> and the record \<open>RiskDecision\<close>
  are those of \<open>Node_Admission\<close>, which consumes decisions.
\<close>

subsection \<open>Enumerations\<close>

definition RiskAction_IsValid :: "string \<Rightarrow> bool" where
  "RiskAction_IsValid a \<longleftrightarrow> a \<in> set [RiskActionAllow, RiskActionReview, RiskActionBlock, RiskActionUnknown]"

definition ParseRiskAction :: "string \<Rightarrow> string result" where
  "ParseRiskAction s =
     (let action = to_lower (trim_space s)
      in if \<not> RiskAction_IsValid action then Inl (new_validation_error ''invalid_risk_action'') else Inr action)"

definition isPolicyAction :: "string \<Rightarrow> bool" where
  "isPolicyAction a \<longleftrightarrow> a = RiskActionAllow \<or> a = RiskActionReview \<or> a = RiskActionBlock"

definition RiskBandLow :: string where [enum_defs]: "RiskBandLow = ''low''"
definition RiskBandMedium :: string where [enum_defs]: "RiskBandMedium = ''medium''"
definition RiskBandHigh :: string where [enum_defs]: "RiskBandHigh = ''high''"
definition RiskBandCritical :: string where [enum_defs]: "RiskBandCritical = ''critical''"
definition RiskBandUnknown :: string where [enum_defs]: "RiskBandUnknown = ''unknown''"

definition RiskBand_IsValid :: "string \<Rightarrow> bool" where
  "RiskBand_IsValid b \<longleftrightarrow> b \<in> set [RiskBandLow, RiskBandMedium, RiskBandHigh, RiskBandCritical, RiskBandUnknown]"

definition ParseRiskBand :: "string \<Rightarrow> string result" where
  "ParseRiskBand s =
     (let band = to_lower (trim_space s)
      in if \<not> RiskBand_IsValid band then Inl (new_validation_error ''invalid_risk_band'') else Inr band)"

definition IPRiskStatusAvailable :: string where [enum_defs]: "IPRiskStatusAvailable = ''available''"
definition IPRiskStatusUnknown :: string where [enum_defs]: "IPRiskStatusUnknown = ''unknown''"
definition IPRiskStatusError :: string where [enum_defs]: "IPRiskStatusError = ''error''"
definition IPRiskStatusStale :: string where [enum_defs]: "IPRiskStatusStale = ''stale''"

definition IPRiskStatus_IsValid :: "string \<Rightarrow> bool" where
  "IPRiskStatus_IsValid s \<longleftrightarrow> s \<in> set [IPRiskStatusAvailable, IPRiskStatusUnknown, IPRiskStatusError, IPRiskStatusStale]"

definition ParseIPRiskStatus :: "string \<Rightarrow> string result" where
  "ParseIPRiskStatus s =
     (let status = to_lower (trim_space s)
      in if \<not> IPRiskStatus_IsValid status then Inl (new_validation_error ''invalid_ip_risk_status'') else Inr status)"

definition NetworkClassResidential :: string where [enum_defs]: "NetworkClassResidential = ''residential''"
definition NetworkClassDatacenter :: string where [enum_defs]: "NetworkClassDatacenter = ''datacenter''"
definition NetworkClassMobile :: string where [enum_defs]: "NetworkClassMobile = ''mobile''"
definition NetworkClassBusiness :: string where [enum_defs]: "NetworkClassBusiness = ''business''"
definition NetworkClassUnknown :: string where [enum_defs]: "NetworkClassUnknown = ''unknown''"

definition NetworkClass_IsValid :: "string \<Rightarrow> bool" where
  "NetworkClass_IsValid c \<longleftrightarrow>
     c \<in> set [NetworkClassResidential, NetworkClassDatacenter, NetworkClassMobile, NetworkClassBusiness, NetworkClassUnknown]"

definition ParseNetworkClass :: "string \<Rightarrow> string result" where
  "ParseNetworkClass s =
     (let class = to_lower (trim_space s)
      in if \<not> NetworkClass_IsValid class then Inl (new_validation_error ''invalid_network_class'') else Inr class)"

definition TraitProxy :: string where [enum_defs]: "TraitProxy = ''proxy''"
definition TraitVPN :: string where [enum_defs]: "TraitVPN = ''vpn''"
definition TraitTor :: string where [enum_defs]: "TraitTor = ''tor''"
definition TraitResidentialProxy :: string where [enum_defs]: "TraitResidentialProxy = ''residential_proxy''"
definition TraitHosting :: string where [enum_defs]: "TraitHosting = ''hosting''"
definition TraitUnknown :: string where [enum_defs]: "TraitUnknown = ''unknown''"

definition AnonymizerTrait_IsValid :: "string \<Rightarrow> bool" where
  "AnonymizerTrait_IsValid t \<longleftrightarrow>
     t \<in> set [TraitProxy, TraitVPN, TraitTor, TraitResidentialProxy, TraitHosting, TraitUnknown]"

definition ParseAnonymizerTrait :: "string \<Rightarrow> string result" where
  "ParseAnonymizerTrait s =
     (let trait = to_lower (trim_space s)
      in if \<not> AnonymizerTrait_IsValid trait then Inl (new_validation_error ''invalid_anonymizer_trait'') else Inr trait)"

definition RiskFusionSingleProvider :: string where [enum_defs]: "RiskFusionSingleProvider = ''single_provider''"
definition RiskFusionAllMustAllow :: string where [enum_defs]: "RiskFusionAllMustAllow = ''all_must_allow''"
definition RiskFusionHighestRisk :: string where [enum_defs]: "RiskFusionHighestRisk = ''highest_risk''"

definition RiskFusionMode_IsValid :: "string \<Rightarrow> bool" where
  "RiskFusionMode_IsValid m \<longleftrightarrow> m \<in> set [RiskFusionSingleProvider, RiskFusionAllMustAllow, RiskFusionHighestRisk]"

definition ParseRiskFusionMode :: "string \<Rightarrow> string result" where
  "ParseRiskFusionMode s =
     (let mode = to_lower (trim_space s)
      in if \<not> RiskFusionMode_IsValid mode then Inl (new_validation_error ''invalid_risk_fusion_mode'') else Inr mode)"

subsection \<open>Records\<close>

record ProviderRef =
  Ref_Provider :: string
  Ref_SchemaVersion :: string

record RiskProviderSelection =
  Sel_Mode :: string
  Sel_Providers :: "ProviderRef list"

record ScoreBand =
  SB_Min :: int
  SB_Max :: int
  SB_Band :: string
  SB_Action :: string

record TraitRule =
  TR_Trait :: string
  TR_Action :: string

record ExitIdentity =
  Exit_NodeLogicalID :: string
  Exit_ObservedAt :: time
  Exit_IdentityDigest :: string
  Exit_CountryCode :: string
  Exit_ASN :: "int option"

record IPRiskObservation =
  Risk_ID :: string
  Risk_NodeLogicalID :: string
  Risk_ExitIdentityDigest :: string
  Risk_Provider :: string
  Risk_ProviderSchemaVersion :: string
  Risk_ObservedAt :: time
  Risk_ExpiresAt :: time
  Risk_Status :: string
  Risk_Score :: "int option"
  Risk_Confidence :: "int option"
  Risk_NetworkClass :: string
  Risk_AnonymizerTraits :: "string list"
  Risk_EvidenceDigest :: string
  Risk_RedactedSummary :: string
  Risk_ProbeObservationID :: "string option"

record RiskPolicy =
  RP_RevisionID :: string
  RP_ProviderSelection :: RiskProviderSelection
  RP_MaxObservationAge :: duration
  RP_MinimumConfidence :: int
  RP_ScoreBands :: "ScoreBand list"
  RP_TraitRules :: "TraitRule list"
  RP_UnknownAction :: string
  RP_ConflictAction :: string
  RP_ReviewAction :: string
  RP_RulesDigest :: string

record IPRiskSummary =
  Sum_Decision :: string
  Sum_RiskBand :: string
  Sum_Provider :: string
  Sum_ProviderSchemaVersion :: string
  Sum_ObservedAt :: time
  Sum_ExpiresAt :: time
  Sum_Status :: string
  Sum_ReasonCode :: string
  Sum_PolicyRevisionID :: "string option"

subsection \<open>Validation of identities and observations\<close>

definition ExitIdentity_Validate :: "ExitIdentity \<Rightarrow> go_error" where
  "ExitIdentity_Validate e =
     (if \<not> IsValidLogicalID (Exit_NodeLogicalID e) then Some (new_validation_error ''invalid_exit_node_logical_id'')
      else if \<not> validDigest (Exit_IdentityDigest e) then Some (new_validation_error ''invalid_exit_identity_digest'')
      else if Exit_ObservedAt e = zero_time then Some (new_validation_error ''missing_exit_observed_at'')
      else if Exit_CountryCode e \<noteq> [] \<and> \<not> isoCountryCodeRegex (Exit_CountryCode e)
      then Some (new_validation_error ''invalid_exit_country_code'')
      else if (case Exit_ASN e of None \<Rightarrow> False | Some asn \<Rightarrow> asn \<le> 0) then Some (new_validation_error ''invalid_exit_asn'')
      else None)"

definition validatePercent :: "string \<Rightarrow> int option \<Rightarrow> go_error" where
  "validatePercent name v =
     (case v of
        None \<Rightarrow> None
      | Some n \<Rightarrow> if n < 0 \<or> n > 100 then Some (new_validation_error (''invalid_ip_risk_'' @ name)) else None)"

text \<open>A loop that refuses an invalid element and a repeated one.\<close>

fun check_unique :: "('a \<Rightarrow> go_error) \<Rightarrow> domain_error \<Rightarrow> 'a set \<Rightarrow> 'a list \<Rightarrow> go_error" where
  "check_unique f dup seen [] = None"
| "check_unique f dup seen (x # xs) =
     (case f x of
        Some e \<Rightarrow> Some e
      | None \<Rightarrow> if x \<in> seen then Some dup else check_unique f dup (insert x seen) xs)"

definition check_traits :: "string list \<Rightarrow> go_error" where
  "check_traits traits =
     (case check_unique (\<lambda>t. if AnonymizerTrait_IsValid t then None else Some (new_validation_error ''invalid_ip_risk_trait''))
             (new_validation_error ''duplicate_ip_risk_trait'') {} traits of
        Some e \<Rightarrow> Some e
      | None \<Rightarrow>
          if TraitUnknown \<in> set traits \<and> length (remdups traits) \<noteq> 1
          then Some (new_validation_error ''ambiguous_ip_risk_traits'') else None)"

definition or_else :: "go_error \<Rightarrow> go_error \<Rightarrow> go_error" where
  "or_else e f = (case e of None \<Rightarrow> f | Some _ \<Rightarrow> e)"

definition bad_interval :: "time \<Rightarrow> time \<Rightarrow> bool" where
  "bad_interval observed expires \<longleftrightarrow> observed = zero_time \<or> expires = zero_time \<or> \<not> expires > observed"

definition IPRiskObservation_Validate :: "IPRiskObservation \<Rightarrow> go_error" where
  "IPRiskObservation_Validate ob =
     (if \<not> IsValidUUIDv7 (Risk_ID ob) then Some (new_validation_error ''invalid_ip_risk_observation_id'')
      else if \<not> IsValidLogicalID (Risk_NodeLogicalID ob) then Some (new_validation_error ''invalid_ip_risk_node_logical_id'')
      else if \<not> validDigest (Risk_ExitIdentityDigest ob) \<or> \<not> validDigest (Risk_EvidenceDigest ob)
      then Some (new_validation_error ''invalid_ip_risk_digest'')
      else or_else (validateIPRiskIdentifier ''provider'' (Risk_Provider ob))
        (or_else (validateIPRiskIdentifier ''schema_version'' (Risk_ProviderSchemaVersion ob))
          (if bad_interval (Risk_ObservedAt ob) (Risk_ExpiresAt ob) then Some (new_validation_error ''invalid_ip_risk_ttl'')
           else if \<not> IPRiskStatus_IsValid (Risk_Status ob) \<or> \<not> NetworkClass_IsValid (Risk_NetworkClass ob)
           then Some (new_validation_error ''invalid_ip_risk_status'')
           else or_else (validatePercent ''score'' (Risk_Score ob))
             (or_else (validatePercent ''confidence'' (Risk_Confidence ob))
               (or_else (check_traits (Risk_AnonymizerTraits ob))
                 (validateRedactedSummary (Risk_RedactedSummary ob)))))))"

subsection \<open>Validation of policies\<close>

definition EffectiveUnknownAction :: "RiskPolicy \<Rightarrow> string" where
  "EffectiveUnknownAction p = (if isPolicyAction (RP_UnknownAction p) then RP_UnknownAction p else RiskActionReview)"

definition EffectiveConflictAction :: "RiskPolicy \<Rightarrow> string" where
  "EffectiveConflictAction p = (if isPolicyAction (RP_ConflictAction p) then RP_ConflictAction p else RiskActionReview)"

definition EffectiveReviewAction :: "RiskPolicy \<Rightarrow> string" where
  "EffectiveReviewAction p = (if isPolicyAction (RP_ReviewAction p) then RP_ReviewAction p else RiskActionReview)"

definition band_ok :: "ScoreBand \<Rightarrow> bool" where
  "band_ok b \<longleftrightarrow>
     \<not> (SB_Min b < 0 \<or> SB_Max b > 100 \<or> SB_Min b > SB_Max b \<or> \<not> RiskBand_IsValid (SB_Band b) \<or>
        SB_Band b = RiskBandUnknown \<or> \<not> isPolicyAction (SB_Action b))"

text \<open>The loop over the ordered bands, with the one before; the first has none.\<close>

fun check_bands :: "ScoreBand option \<Rightarrow> ScoreBand list \<Rightarrow> go_error" where
  "check_bands prev [] = None"
| "check_bands prev (b # bs) =
     (if \<not> band_ok b then Some (new_validation_error ''invalid_risk_score_band'')
      else if (case prev of None \<Rightarrow> False | Some p \<Rightarrow> SB_Min b \<noteq> SB_Max p + 1)
      then Some (new_validation_error ''overlapping_or_incomplete_risk_score_bands'')
      else check_bands (Some b) bs)"

text \<open>
  Package sort leaves the order of bands with equal minima open; the sort here keeps it. Such bands
  are refused in every order.
\<close>

definition validateScoreBands :: "ScoreBand list \<Rightarrow> go_error" where
  "validateScoreBands bands =
     (if length bands = 0 then Some (new_validation_error ''missing_risk_score_bands'')
      else (let ordered = sort_key SB_Min bands
            in if SB_Min (hd ordered) \<noteq> 0 then Some (new_validation_error ''incomplete_risk_score_bands'')
               else or_else (check_bands None ordered)
                 (if SB_Max (last ordered) \<noteq> 100 then Some (new_validation_error ''incomplete_risk_score_bands'') else None)))"

definition provider_key :: "string \<Rightarrow> string \<Rightarrow> string" where
  "provider_key provider schemaVersion = provider @ [CHR 0x00] @ schemaVersion"

fun check_providers :: "string set \<Rightarrow> ProviderRef list \<Rightarrow> go_error" where
  "check_providers seen [] = None"
| "check_providers seen (r # rs) =
     (if validateIPRiskIdentifier ''provider'' (Ref_Provider r) \<noteq> None \<or>
         validateIPRiskIdentifier ''schema_version'' (Ref_SchemaVersion r) \<noteq> None
      then Some (new_validation_error ''invalid_risk_provider_reference'')
      else (let key = provider_key (Ref_Provider r) (Ref_SchemaVersion r)
            in if key \<in> seen then Some (new_validation_error ''duplicate_risk_provider_reference'')
               else check_providers (insert key seen) rs))"

definition check_trait_rule :: "TraitRule \<Rightarrow> go_error" where
  "check_trait_rule r =
     (if \<not> AnonymizerTrait_IsValid (TR_Trait r) \<or> TR_Trait r = TraitUnknown \<or> \<not> isPolicyAction (TR_Action r)
      then Some (new_validation_error ''invalid_risk_trait_rule'') else None)"

fun duplicate_trait_rule :: "TraitRule list \<Rightarrow> bool" where
  "duplicate_trait_rule [] = False"
| "duplicate_trait_rule (l # rs) = (list_ex (\<lambda>r. TR_Trait l = TR_Trait r) rs \<or> duplicate_trait_rule rs)"

definition check_action :: "string \<times> string \<Rightarrow> go_error" where
  "check_action na =
     (if snd na \<noteq> [] \<and> \<not> isPolicyAction (snd na) then Some (new_validation_error (''invalid_'' @ fst na)) else None)"

text \<open>
  The three optional actions are ranged over as a Go map; when several are invalid, the one reported
  is the first in the order of the list here.
\<close>

definition RiskPolicy_Validate :: "RiskPolicy \<Rightarrow> go_error" where
  "RiskPolicy_Validate p =
     (let sel = RP_ProviderSelection p
      in if \<not> IsValidUUIDv7 (RP_RevisionID p) then Some (new_validation_error ''invalid_risk_policy_revision_id'')
         else if \<not> RiskFusionMode_IsValid (Sel_Mode sel) \<or> length (Sel_Providers sel) = 0
         then Some (new_validation_error ''invalid_risk_provider_selection'')
         else if Sel_Mode sel = RiskFusionSingleProvider \<and> length (Sel_Providers sel) \<noteq> 1
         then Some (new_validation_error ''invalid_risk_provider_selection'')
         else or_else (check_providers {} (Sel_Providers sel))
           (if RP_MaxObservationAge p \<le> 0 \<or> RP_MinimumConfidence p < 0 \<or> RP_MinimumConfidence p > 100
            then Some (new_validation_error ''invalid_risk_policy_threshold'')
            else or_else (validateScoreBands (RP_ScoreBands p))
              (or_else (first_error check_trait_rule (RP_TraitRules p))
                (if duplicate_trait_rule (RP_TraitRules p) then Some (new_validation_error ''duplicate_risk_trait_rule'')
                 else first_error check_action
                   [(''unknown_action'', RP_UnknownAction p), (''conflict_action'', RP_ConflictAction p),
                    (''review_action'', RP_ReviewAction p)]))))"

subsection \<open>Validation of decisions and summaries\<close>

definition reason_ok :: "string \<Rightarrow> bool" where
  "reason_ok r \<longleftrightarrow> \<not> (\<not> reasonCodeRegex r \<or> containsSensitiveIPRiskText r)"

definition IPRiskSummary_Validate :: "IPRiskSummary \<Rightarrow> go_error" where
  "IPRiskSummary_Validate s =
     (if \<not> RiskAction_IsValid (Sum_Decision s) \<or> \<not> RiskBand_IsValid (Sum_RiskBand s) \<or> \<not> IPRiskStatus_IsValid (Sum_Status s)
      then Some (new_validation_error ''invalid_ip_risk_summary'')
      else or_else (validateIPRiskIdentifier ''provider'' (Sum_Provider s))
        (or_else (validateIPRiskIdentifier ''schema_version'' (Sum_ProviderSchemaVersion s))
          (if bad_interval (Sum_ObservedAt s) (Sum_ExpiresAt s) then Some (new_validation_error ''invalid_ip_risk_summary_ttl'')
           else if \<not> reason_ok (Sum_ReasonCode s) then Some (new_validation_error ''invalid_ip_risk_summary_reason'')
           else if (case Sum_PolicyRevisionID s of None \<Rightarrow> False | Some r \<Rightarrow> \<not> IsValidUUIDv7 r)
           then Some (new_validation_error ''invalid_ip_risk_summary_policy'')
           else None)))"

definition RiskDecision_Validate :: "RiskDecision \<Rightarrow> go_error" where
  "RiskDecision_Validate d =
     (if \<not> IsValidLogicalID (Dec_NodeLogicalID d) \<or> \<not> IsValidUUIDv7 (Dec_PolicyRevisionID d)
      then Some (new_validation_error ''invalid_risk_decision_reference'')
      else if \<not> RiskAction_IsValid (Dec_Decision d) \<or> \<not> reason_ok (Dec_ReasonCode d) \<or> Dec_EvaluatedAt d = zero_time
      then Some (new_validation_error ''invalid_risk_decision'')
      else check_unique (\<lambda>g. if validDigest g then None else Some (new_validation_error ''invalid_risk_decision_digest''))
             (new_validation_error ''duplicate_risk_decision_digest'') {} (Dec_ObservationDigestSet d))"

subsection \<open>Stored revisions, bindings and paging\<close>

record RiskPolicyRevision =
  Rev_RiskPolicy :: RiskPolicy
  Rev_Active :: bool
  Rev_CreatedAt :: time
  Rev_ActivatedAt :: "time option"
  Rev_DeactivatedAt :: "time option"

definition RiskPolicyRevision_Validate :: "RiskPolicyRevision \<Rightarrow> go_error" where
  "RiskPolicyRevision_Validate r =
     or_else (RiskPolicy_Validate (Rev_RiskPolicy r))
       (if Rev_CreatedAt r = zero_time then Some (new_validation_error ''missing_risk_policy_created_at'') else None)"

record RiskPolicyProvider =
  RPP_RevisionID :: string
  RPP_Provider :: string
  RPP_SchemaVersion :: string
  RPP_Position :: int

definition RiskPolicyProvider_Validate :: "RiskPolicyProvider \<Rightarrow> go_error" where
  "RiskPolicyProvider_Validate p =
     (if \<not> IsValidUUIDv7 (RPP_RevisionID p) \<or> RPP_Position p < 0 then Some (new_validation_error ''invalid_risk_policy_provider'')
      else if validateIPRiskIdentifier ''provider'' (RPP_Provider p) \<noteq> None
      then Some (new_validation_error ''invalid_risk_policy_provider'')
      else if validateIPRiskIdentifier ''schema_version'' (RPP_SchemaVersion p) \<noteq> None
      then Some (new_validation_error ''invalid_risk_policy_provider'')
      else None)"

record RiskPolicyGroupBinding =
  Bind_GroupID :: string
  Bind_PolicyRevisionID :: string
  Bind_CreatedAt :: time
  Bind_UpdatedAt :: time

definition RiskPolicyGroupBinding_Validate :: "RiskPolicyGroupBinding \<Rightarrow> go_error" where
  "RiskPolicyGroupBinding_Validate b =
     (if \<not> IsValidUUIDv7 (Bind_GroupID b) then Some (new_validation_error ''invalid_group_id'')
      else if \<not> IsValidUUIDv7 (Bind_PolicyRevisionID b) then Some (new_validation_error ''invalid_policy_revision_id'')
      else if Bind_CreatedAt b = zero_time \<or> Bind_UpdatedAt b = zero_time
      then Some (new_validation_error ''missing_binding_timestamp'')
      else None)"

record IPRiskObservationFilter =
  IRF_NodeLogicalID :: string
  IRF_Provider :: string
  IRF_SchemaVersion :: string
  IRF_Status :: string
  IRF_Page :: int
  IRF_PageSize :: int

definition IPRiskObservationFilter_Normalize :: "IPRiskObservationFilter \<Rightarrow> IPRiskObservationFilter" where
  "IPRiskObservationFilter_Normalize f0 =
     (let f1 = (if IRF_Page f0 < 1 then f0\<lparr>IRF_Page := 1\<rparr> else f0);
          f2 = (if IRF_PageSize f1 < 1 then f1\<lparr>IRF_PageSize := 50\<rparr> else f1)
      in if IRF_PageSize f2 > 100 then f2\<lparr>IRF_PageSize := 100\<rparr> else f2)"

record RiskPolicyFilter =
  RPF_Active :: "bool option"
  RPF_Page :: int
  RPF_PageSize :: int

definition RiskPolicyFilter_Normalize :: "RiskPolicyFilter \<Rightarrow> RiskPolicyFilter" where
  "RiskPolicyFilter_Normalize f0 =
     (let f1 = (if RPF_Page f0 < 1 then f0\<lparr>RPF_Page := 1\<rparr> else f0);
          f2 = (if RPF_PageSize f1 < 1 then f1\<lparr>RPF_Page := 50\<rparr> else f1)
      in if RPF_PageSize f2 > 100 then f2\<lparr>RPF_Page := 100\<rparr> else f2)"

subsection \<open>The enumerations are string enumerations\<close>

lemma parse_as_enum:
  "(let v = to_lower (trim_space s) in if \<not> v \<in> set valid then Inl (new_validation_error err) else Inr v) =
   parse_enum valid err s"
  by (simp add: parse_enum_def Let_def)

interpretation risk_action_enum: string_enum
  "[RiskActionAllow, RiskActionReview, RiskActionBlock, RiskActionUnknown]" RiskAction_IsValid ParseRiskAction
  "''invalid_risk_action''"
  by unfold_locales (simp only: RiskAction_IsValid_def, simp only: ParseRiskAction_def RiskAction_IsValid_def parse_as_enum,
      erule enum_canonical[rotated], simp add: enum_defs string_defs)

interpretation risk_band_enum: string_enum
  "[RiskBandLow, RiskBandMedium, RiskBandHigh, RiskBandCritical, RiskBandUnknown]" RiskBand_IsValid ParseRiskBand
  "''invalid_risk_band''"
  by unfold_locales (simp only: RiskBand_IsValid_def, simp only: ParseRiskBand_def RiskBand_IsValid_def parse_as_enum,
      erule enum_canonical[rotated], simp add: enum_defs string_defs)

interpretation risk_status_enum: string_enum
  "[IPRiskStatusAvailable, IPRiskStatusUnknown, IPRiskStatusError, IPRiskStatusStale]" IPRiskStatus_IsValid
  ParseIPRiskStatus "''invalid_ip_risk_status''"
  by unfold_locales (simp only: IPRiskStatus_IsValid_def, simp only: ParseIPRiskStatus_def IPRiskStatus_IsValid_def parse_as_enum,
      erule enum_canonical[rotated], simp add: enum_defs string_defs)

interpretation network_class_enum: string_enum
  "[NetworkClassResidential, NetworkClassDatacenter, NetworkClassMobile, NetworkClassBusiness, NetworkClassUnknown]"
  NetworkClass_IsValid ParseNetworkClass "''invalid_network_class''"
  by unfold_locales (simp only: NetworkClass_IsValid_def, simp only: ParseNetworkClass_def NetworkClass_IsValid_def parse_as_enum,
      erule enum_canonical[rotated], simp add: enum_defs string_defs)

interpretation trait_enum: string_enum
  "[TraitProxy, TraitVPN, TraitTor, TraitResidentialProxy, TraitHosting, TraitUnknown]" AnonymizerTrait_IsValid
  ParseAnonymizerTrait "''invalid_anonymizer_trait''"
  by unfold_locales (simp only: AnonymizerTrait_IsValid_def, simp only: ParseAnonymizerTrait_def AnonymizerTrait_IsValid_def parse_as_enum,
      erule enum_canonical[rotated], simp add: enum_defs string_defs)

interpretation fusion_mode_enum: string_enum
  "[RiskFusionSingleProvider, RiskFusionAllMustAllow, RiskFusionHighestRisk]" RiskFusionMode_IsValid ParseRiskFusionMode
  "''invalid_risk_fusion_mode''"
  by unfold_locales (simp only: RiskFusionMode_IsValid_def, simp only: ParseRiskFusionMode_def RiskFusionMode_IsValid_def parse_as_enum,
      erule enum_canonical[rotated], simp add: enum_defs string_defs)

subsection \<open>Sequences of checks\<close>

lemma or_else_None [simp]: "or_else e f = None \<longleftrightarrow> e = None \<and> f = None"
  by (simp add: or_else_def split: option.split)

lemma if_Some_None [simp]: "(if b then Some e else f) = None \<longleftrightarrow> \<not> b \<and> f = None"
  by simp

lemma check_unique_None:
  "check_unique f dup seen xs = None \<longleftrightarrow> distinct xs \<and> set xs \<inter> seen = {} \<and> (\<forall>x\<in>set xs. f x = None)"
  by (induction xs arbitrary: seen) (auto split: option.splits)

subsection \<open>Score bands\<close>

definition covers :: "int \<Rightarrow> ScoreBand \<Rightarrow> bool" where
  "covers score b \<longleftrightarrow> SB_Min b \<le> score \<and> score \<le> SB_Max b"

text \<open>Bands that lie end to end from \<open>lo\<close> to 100.\<close>

fun tiles :: "int \<Rightarrow> ScoreBand list \<Rightarrow> bool" where
  "tiles lo [] \<longleftrightarrow> lo = 101"
| "tiles lo (b # bs) \<longleftrightarrow> SB_Min b = lo \<and> tiles (SB_Max b + 1) bs"

lemma check_bands_tiles:
  "check_bands (Some p) bs = None \<and> SB_Max (last (p # bs)) = 100 \<longleftrightarrow> list_all band_ok bs \<and> tiles (SB_Max p + 1) bs"
proof (induction bs arbitrary: p)
  case (Cons b bs)
  from Cons[of b] show ?case by auto
qed auto

lemma validateScoreBands_tiles:
  "validateScoreBands bands = None \<longleftrightarrow>
   bands \<noteq> [] \<and> list_all band_ok (sort_key SB_Min bands) \<and> tiles 0 (sort_key SB_Min bands)"
proof (cases "sort_key SB_Min bands")
  case Nil
  then have "bands = []" by (metis set_empty set_sort)
  then show ?thesis by (simp add: validateScoreBands_def)
next
  case (Cons b bs)
  then have "bands \<noteq> []" by auto
  with Cons check_bands_tiles[of b bs] show ?thesis
    by (auto simp: validateScoreBands_def Let_def)
qed

lemma length_filter_sort: "length (filter P (sort_key f xs)) = length (filter P xs)"
  by (metis mset_filter mset_sort size_mset)

lemma tiles_exact:
  assumes "sorted (map SB_Min bs)" "list_all band_ok bs" "0 \<le> lo" "lo \<le> 101"
  shows "tiles lo bs \<longleftrightarrow>
    (\<forall>b\<in>set bs. lo \<le> SB_Min b) \<and> (\<forall>s\<in>{lo..100}. length (filter (covers s) bs) = 1)"
  using assms
proof (induction bs arbitrary: lo)
  case Nil
  then show ?case by (cases "lo = 101") (auto intro!: bexI[of _ lo])
next
  case (Cons b bs)
  from Cons.prems have srt: "sorted (map SB_Min bs)" and first: "\<forall>c\<in>set bs. SB_Min b \<le> SB_Min c"
    and ok: "list_all band_ok bs" and "band_ok b" by auto
  then have b: "0 \<le> SB_Min b" "SB_Min b \<le> SB_Max b" "SB_Max b \<le> 100" by (auto simp: band_ok_def)
  have IH: "tiles (SB_Max b + 1) bs \<longleftrightarrow>
      (\<forall>c\<in>set bs. SB_Max b + 1 \<le> SB_Min c) \<and> (\<forall>s\<in>{SB_Max b + 1..100}. length (filter (covers s) bs) = 1)"
    using Cons.IH[OF srt ok] b by simp
  show ?case
  proof
    assume "tiles lo (b # bs)"
    then have lo: "SB_Min b = lo" and t: "tiles (SB_Max b + 1) bs" by auto
    from t IH have after: "\<forall>c\<in>set bs. SB_Max b + 1 \<le> SB_Min c"
      and one: "\<forall>s\<in>{SB_Max b + 1..100}. length (filter (covers s) bs) = 1" by auto
    have "length (filter (covers s) (b # bs)) = 1" if s: "s \<in> {lo..100}" for s
    proof (cases "s \<le> SB_Max b")
      case True
      with after have "filter (covers s) bs = []" by (auto simp: filter_empty_conv covers_def)
      with True s lo show ?thesis by (simp add: covers_def)
    next
      case False
      with one s show ?thesis by (simp add: covers_def)
    qed
    moreover have "\<forall>c\<in>set (b # bs). lo \<le> SB_Min c" using lo first by auto
    ultimately show "(\<forall>c\<in>set (b # bs). lo \<le> SB_Min c) \<and> (\<forall>s\<in>{lo..100}. length (filter (covers s) (b # bs)) = 1)"
      by blast
  next
    assume R: "(\<forall>c\<in>set (b # bs). lo \<le> SB_Min c) \<and> (\<forall>s\<in>{lo..100}. length (filter (covers s) (b # bs)) = 1)"
    then have ge: "\<forall>c\<in>set (b # bs). lo \<le> SB_Min c" and one: "\<And>s. lo \<le> s \<Longrightarrow> s \<le> 100 \<Longrightarrow> length (filter (covers s) (b # bs)) = 1"
      by auto
    from ge b have "lo \<le> 100" by simp
    from one[OF order_refl this] have "filter (covers lo) (b # bs) \<noteq> []" by auto
    then obtain c where "c \<in> set (b # bs)" "covers lo c" by (metis filter_empty_conv)
    with ge first have lo: "SB_Min b = lo" by (auto simp: covers_def)
    have after: "SB_Max b + 1 \<le> SB_Min c" if c: "c \<in> set bs" for c
    proof (rule ccontr)
      assume "\<not> SB_Max b + 1 \<le> SB_Min c"
      with c ok first lo b have in_b: "covers (SB_Min c) b" and in_c: "covers (SB_Min c) c" and "lo \<le> SB_Min c" "SB_Min c \<le> 100"
        by (auto simp: covers_def list_all_iff band_ok_def)
      with one[of "SB_Min c"] have "filter (covers (SB_Min c)) bs = []" by simp
      with c in_c show False by (auto simp: filter_empty_conv)
    qed
    moreover have "length (filter (covers s) bs) = 1" if "s \<in> {SB_Max b + 1..100}" for s
      using one[of s] that lo b by (simp add: covers_def)
    ultimately show "tiles lo (b # bs)" using IH lo by auto
  qed
qed

text \<open>
  C19. The score bands of a policy validate exactly when there is one, each lies within 0 to 100 with a
  known band and a policy action, and every score from 0 to 100 lies in exactly one of them. The order
  in which they are listed plays no part.
\<close>

theorem validateScoreBands_exact:
  "validateScoreBands bands = None \<longleftrightarrow>
   (\<forall>b\<in>set bands. band_ok b) \<and> (\<forall>s\<in>{0..100}. length (filter (covers s) bands) = 1)"
proof -
  let ?xs = "sort_key SB_Min bands"
  note len = length_filter_sort[of _ SB_Min bands]
  have "validateScoreBands bands = None \<longleftrightarrow> bands \<noteq> [] \<and> (\<forall>b\<in>set bands. band_ok b) \<and> tiles 0 ?xs"
    by (simp add: validateScoreBands_tiles list_all_iff)
  also have "\<dots> \<longleftrightarrow> bands \<noteq> [] \<and> (\<forall>b\<in>set bands. band_ok b) \<and> (\<forall>s\<in>{0..100}. length (filter (covers s) bands) = 1)"
  proof (cases "\<forall>b\<in>set bands. band_ok b")
    case True
    then have "\<forall>b\<in>set bands. 0 \<le> SB_Min b" by (auto simp: band_ok_def)
    with True tiles_exact[of ?xs 0] len show ?thesis by (auto simp: list_all_iff)
  qed auto
  also have "\<dots> \<longleftrightarrow> (\<forall>b\<in>set bands. band_ok b) \<and> (\<forall>s\<in>{0..100}. length (filter (covers s) bands) = 1)"
    by (cases bands) (auto dest!: spec[of _ 0])
  finally show ?thesis .
qed

theorem validateScoreBands_exact_witness:
  "let bands = [\<lparr>SB_Min = 51, SB_Max = 100, SB_Band = RiskBandHigh, SB_Action = RiskActionBlock\<rparr>,
                \<lparr>SB_Min = 0, SB_Max = 50, SB_Band = RiskBandLow, SB_Action = RiskActionAllow\<rparr>]
   in validateScoreBands bands = None \<and> length (filter (covers 50) bands) = 1"
proof -
  let ?bands = "[\<lparr>SB_Min = 51, SB_Max = 100, SB_Band = RiskBandHigh, SB_Action = RiskActionBlock\<rparr>,
                \<lparr>SB_Min = 0, SB_Max = 50, SB_Band = RiskBandLow, SB_Action = RiskActionAllow\<rparr>]"
  have "validateScoreBands ?bands = None" by code_simp
  with validateScoreBands_exact[of ?bands] show ?thesis by (simp add: Let_def)
qed

subsection \<open>What a valid policy guarantees\<close>

lemma check_providers_None:
  "check_providers seen rs = None \<Longrightarrow> r \<in> set rs \<Longrightarrow>
   validateIPRiskIdentifier ''provider'' (Ref_Provider r) = None \<and>
   validateIPRiskIdentifier ''schema_version'' (Ref_SchemaVersion r) = None"
  by (induction seen rs rule: check_providers.induct) (auto simp: Let_def split: if_splits)

lemma RiskPolicy_Validate_None:
  assumes "RiskPolicy_Validate p = None"
  shows "IsValidUUIDv7 (RP_RevisionID p)"
    and "RiskFusionMode_IsValid (Sel_Mode (RP_ProviderSelection p))"
    and "Sel_Providers (RP_ProviderSelection p) \<noteq> []"
    and "r \<in> set (Sel_Providers (RP_ProviderSelection p)) \<Longrightarrow>
         validateIPRiskIdentifier ''provider'' (Ref_Provider r) = None \<and>
         validateIPRiskIdentifier ''schema_version'' (Ref_SchemaVersion r) = None"
    and "0 < RP_MaxObservationAge p"
    and "validateScoreBands (RP_ScoreBands p) = None"
    and "t \<in> set (RP_TraitRules p) \<Longrightarrow> check_trait_rule t = None"
    and "Sel_Mode (RP_ProviderSelection p) = RiskFusionSingleProvider \<Longrightarrow> length (Sel_Providers (RP_ProviderSelection p)) = 1"
  using assms
  by (auto simp: RiskPolicy_Validate_def Let_def first_error_None dest: check_providers_None)

lemma score_in_one_band:
  assumes "validateScoreBands bands = None" "0 \<le> s" "s \<le> 100"
  shows "length (filter (covers s) bands) = 1" and "list_all band_ok bands"
  using assms validateScoreBands_tiles[of bands] tiles_exact[of "sort_key SB_Min bands" 0] length_filter_sort[of "covers s" SB_Min bands]
  by (auto simp: list_all_iff)

lemma score_has_band:
  assumes "validateScoreBands bands = None" "0 \<le> s" "s \<le> 100"
  obtains b where "find (covers s) bands = Some b" "b \<in> set bands" "band_ok b"
proof -
  from score_in_one_band(1)[OF assms] have "\<exists>b\<in>set bands. covers s b"
    by (metis One_nat_def filter_False list.size(3) nat.distinct(1))
  then obtain b where b: "find (covers s) bands = Some b"
    by (cases "find (covers s) bands") (auto simp: find_None_iff)
  then have "b \<in> set bands" by (auto simp: find_Some_iff)
  with b score_in_one_band(2)[OF assms] that show thesis by (auto simp: list_all_iff)
qed

subsection \<open>Paging of policies\<close>

text \<open>
  The defaults for the page size of policies are written to the page number: a request without a page
  size asks for page 50 with page size 0, where the paging of observations gives page 1 of size 50.
\<close>

theorem RiskPolicyFilter_Normalize_page:
  "RiskPolicyFilter_Normalize \<lparr>RPF_Active = a, RPF_Page = 1, RPF_PageSize = 0\<rparr> = \<lparr>RPF_Active = a, RPF_Page = 50, RPF_PageSize = 0\<rparr> \<and>
   RiskPolicyFilter_Normalize \<lparr>RPF_Active = a, RPF_Page = 1, RPF_PageSize = 1000\<rparr> = \<lparr>RPF_Active = a, RPF_Page = 100, RPF_PageSize = 1000\<rparr> \<and>
   IRF_Page (IPRiskObservationFilter_Normalize f) \<ge> 1 \<and> IRF_PageSize (IPRiskObservationFilter_Normalize f) \<in> {1..100}"
  by (auto simp: RiskPolicyFilter_Normalize_def IPRiskObservationFilter_Normalize_def Let_def)

end
