(* ===== verification/Risk_Evaluation.thy ===== *)
theory Risk_Evaluation
  imports Risk_Policy
begin

section \<open>Risk decisions (application/iprisk/service.go)\<close>

text \<open>
  The evaluation of nodes against a risk policy: the newest observation of each selected provider is
  judged, the verdicts are fused, and a batch of nodes is split into admitted and excluded ones. The
  observation and policy repositories are parameters, functions that return a value or an error, and
  the clock is an argument. \<open>None\<close> as an outcome is an index out of range; it is shown not to happen.
  The digest over the JSON text of a batch is not modelled; what it is computed from is. The second
  evaluator, \<open>evaluateObservationAgainstPolicy\<close> of \<open>repository/sqlite/node_risk.go\<close>, fills the read
  model of the inventory.
\<close>

subsection \<open>Ranks\<close>

definition bandRank :: "string \<Rightarrow> int" where
  "bandRank b =
     (if b = RiskBandCritical then 4 else if b = RiskBandHigh then 3 else if b = RiskBandMedium then 2
      else if b = RiskBandLow then 1 else 0)"

definition actionRank :: "string \<Rightarrow> int" where
  "actionRank a =
     (if a = RiskActionBlock then 3 else if a = RiskActionReview then 2 else if a = RiskActionAllow then 1 else 0)"

definition maxBand :: "string \<Rightarrow> string \<Rightarrow> string" where
  "maxBand a b = (if bandRank a \<ge> bandRank b then a else b)"

subsection \<open>One provider\<close>

record providerEvalResult =
  PE_Ref :: ProviderRef
  PE_Action :: string
  PE_RiskBand :: string
  PE_ReasonCode :: string
  PE_ObservedAt :: time
  PE_ExpiresAt :: time
  PE_Status :: string
  PE_EvidenceDigest :: string
  PE_IsAvailable :: bool

definition maxBandAcross :: "providerEvalResult list \<Rightarrow> string \<Rightarrow> string" where
  "maxBandAcross results fallback =
     foldl (\<lambda>highest r. if PE_RiskBand r \<noteq> RiskBandUnknown \<and> bandRank (PE_RiskBand r) > bandRank highest
                        then PE_RiskBand r else highest) fallback results"

text \<open>The results without a verdict differ in reason, times, status and digest.\<close>

definition unknown_result :: "ProviderRef \<Rightarrow> string \<Rightarrow> time \<Rightarrow> time \<Rightarrow> string \<Rightarrow> string \<Rightarrow> providerEvalResult" where
  "unknown_result ref reason observed expires status digest =
     \<lparr>PE_Ref = ref, PE_Action = RiskActionUnknown, PE_RiskBand = RiskBandUnknown, PE_ReasonCode = reason,
      PE_ObservedAt = observed, PE_ExpiresAt = expires, PE_Status = status, PE_EvidenceDigest = digest,
      PE_IsAvailable = False\<rparr>"

definition verdict_result :: "ProviderRef \<Rightarrow> IPRiskObservation \<Rightarrow> string \<Rightarrow> string \<Rightarrow> string \<Rightarrow> providerEvalResult" where
  "verdict_result ref ob action band reason =
     \<lparr>PE_Ref = ref, PE_Action = action, PE_RiskBand = band, PE_ReasonCode = reason,
      PE_ObservedAt = Risk_ObservedAt ob, PE_ExpiresAt = Risk_ExpiresAt ob, PE_Status = Risk_Status ob,
      PE_EvidenceDigest = Risk_EvidenceDigest ob, PE_IsAvailable = True\<rparr>"

definition trait_step :: "string \<Rightarrow> string \<times> string \<Rightarrow> TraitRule \<Rightarrow> string \<times> string" where
  "trait_step trait acc rule =
     (if TR_Trait rule = trait \<and> actionRank (TR_Action rule) > actionRank (fst acc)
      then (TR_Action rule, ''trait_rule_'' @ to_lower trait) else acc)"

definition trait_verdict :: "RiskPolicy \<Rightarrow> string list \<Rightarrow> string \<times> string" where
  "trait_verdict p traits = foldl (\<lambda>acc trait. foldl (trait_step trait) acc (RP_TraitRules p)) ([], []) traits"

definition score_verdict :: "RiskPolicy \<Rightarrow> int \<Rightarrow> string \<times> string \<times> string" where
  "score_verdict p score =
     (case find (covers score) (RP_ScoreBands p) of
        None \<Rightarrow> (RiskActionUnknown, RiskBandUnknown, [])
      | Some b \<Rightarrow> (SB_Action b, SB_Band b, ''score_band_'' @ to_lower (SB_Band b)))"

definition judge_observation :: "RiskPolicy \<Rightarrow> ProviderRef \<Rightarrow> IPRiskObservation \<Rightarrow> providerEvalResult" where
  "judge_observation p ref ob =
     (let (traitAction, traitReason) = trait_verdict p (Risk_AnonymizerTraits ob)
      in case Risk_Score ob of
           None \<Rightarrow>
             if traitAction = RiskActionBlock then verdict_result ref ob RiskActionBlock RiskBandCritical traitReason
             else unknown_result ref ''missing_score'' (Risk_ObservedAt ob) (Risk_ExpiresAt ob) (Risk_Status ob)
                    (Risk_EvidenceDigest ob)
         | Some score \<Rightarrow>
             (let (scoreAction, scoreBand, scoreReason) = score_verdict p score
              in if actionRank traitAction > actionRank scoreAction
                 then verdict_result ref ob traitAction
                        (if traitAction = RiskActionBlock then maxBand scoreBand RiskBandHigh
                         else if traitAction = RiskActionReview then maxBand scoreBand RiskBandMedium else scoreBand)
                        traitReason
                 else verdict_result ref ob scoreAction scoreBand scoreReason))"

definition evaluateSingleProviderObservation ::
  "RiskPolicy \<Rightarrow> ProviderRef \<Rightarrow> IPRiskObservation option \<Rightarrow> string \<Rightarrow> time \<Rightarrow> providerEvalResult" where
  "evaluateSingleProviderObservation p ref obs expectedExitDigest evaluatedAt =
     (let defaultTTL = (if RP_MaxObservationAge p \<le> 0 then 24 * 3600 * second else RP_MaxObservationAge p)
      in case obs of
           None \<Rightarrow>
             unknown_result ref ''missing_observation'' evaluatedAt (evaluatedAt + defaultTTL) IPRiskStatusUnknown []
         | Some ob \<Rightarrow>
             (let unknown = (\<lambda>reason status digest. unknown_result ref reason (Risk_ObservedAt ob) (Risk_ExpiresAt ob) status digest)
              in if Risk_Status ob \<noteq> IPRiskStatusAvailable
                 then unknown (''observation_status_'' @ to_lower (Risk_Status ob)) (Risk_Status ob) []
                 else if expectedExitDigest \<noteq> [] \<and> Risk_ExitIdentityDigest ob \<noteq> expectedExitDigest
                 then unknown ''exit_identity_mismatch'' IPRiskStatusUnknown []
                 else if \<not> evaluatedAt < Risk_ExpiresAt ob then unknown ''observation_expired'' IPRiskStatusStale []
                 else if RP_MaxObservationAge p > 0 \<and> time_sub evaluatedAt (Risk_ObservedAt ob) > RP_MaxObservationAge p
                 then unknown ''observation_exceeded_max_age'' IPRiskStatusStale []
                 else if RP_MinimumConfidence p > 0 \<and> Risk_Confidence ob = None
                 then unknown ''missing_confidence'' (Risk_Status ob) (Risk_EvidenceDigest ob)
                 else if RP_MinimumConfidence p > 0 \<and> the (Risk_Confidence ob) < RP_MinimumConfidence p
                 then unknown ''insufficient_confidence'' (Risk_Status ob) (Risk_EvidenceDigest ob)
                 else judge_observation p ref ob))"

subsection \<open>The newest observation of each provider\<close>

definition newer :: "IPRiskObservation \<Rightarrow> IPRiskObservation \<Rightarrow> bool" where
  "newer ob existing \<longleftrightarrow>
     Risk_ObservedAt ob > Risk_ObservedAt existing \<or>
     Risk_ObservedAt ob = Risk_ObservedAt existing \<and> Risk_ID ob > Risk_ID existing"

definition obs_key :: "IPRiskObservation \<Rightarrow> string" where
  "obs_key ob = provider_key (Risk_Provider ob) (Risk_ProviderSchemaVersion ob)"

fun keep_newest :: "('a \<Rightarrow> 'k) \<Rightarrow> ('a \<Rightarrow> 'a \<Rightarrow> bool) \<Rightarrow> ('k, 'a) gomap \<Rightarrow> 'a list \<Rightarrow> ('k, 'a) gomap" where
  "keep_newest key better m [] = m"
| "keep_newest key better m (x # xs) =
     (case gm_get m (key x) of
        None \<Rightarrow> keep_newest key better (gm_put m (key x) x) xs
      | Some y \<Rightarrow> keep_newest key better (if better x y then gm_put m (key x) x else m) xs)"

definition latestByProvider :: "string \<Rightarrow> IPRiskObservation list \<Rightarrow> (string, IPRiskObservation) gomap" where
  "latestByProvider nodeLogicalID observations =
     keep_newest obs_key newer [] (filter (\<lambda>ob. Risk_NodeLogicalID ob = nodeLogicalID) observations)"

subsection \<open>Fusion\<close>

text \<open>An outcome is a value, an error, or \<open>None\<close> for a runtime panic.\<close>

type_synonym 'a outcome = "'a result option"

record fusion =
  Fus_Action :: string
  Fus_Band :: string
  Fus_Reason :: string
  Fus_Chosen :: providerEvalResult

definition no_verdict :: "providerEvalResult \<Rightarrow> bool" where
  "no_verdict r \<longleftrightarrow> PE_Action r = RiskActionUnknown \<or> \<not> PE_IsAvailable r"

definition fuse_single :: "RiskPolicy \<Rightarrow> providerEvalResult list \<Rightarrow> fusion outcome" where
  "fuse_single p results =
     (case results of
        [] \<Rightarrow> None
      | res # _ \<Rightarrow>
          Some (Inr (if no_verdict res
                     then \<lparr>Fus_Action = EffectiveUnknownAction p, Fus_Band = RiskBandUnknown,
                           Fus_Reason = PE_ReasonCode res, Fus_Chosen = res\<rparr>
                     else \<lparr>Fus_Action = PE_Action res, Fus_Band = PE_RiskBand res,
                           Fus_Reason = PE_ReasonCode res, Fus_Chosen = res\<rparr>)))"

definition fuse_all :: "RiskPolicy \<Rightarrow> providerEvalResult list \<Rightarrow> fusion outcome" where
  "fuse_all p results =
     (case find (\<lambda>r. PE_Action r = RiskActionBlock) results of
        Some blocking \<Rightarrow>
          Some (Inr \<lparr>Fus_Action = RiskActionBlock, Fus_Band = maxBandAcross results RiskBandCritical,
                     Fus_Reason = ''all_must_allow_blocked'', Fus_Chosen = blocking\<rparr>)
      | None \<Rightarrow>
      (case find no_verdict results of
        Some unknown \<Rightarrow>
          Some (Inr \<lparr>Fus_Action = EffectiveUnknownAction p, Fus_Band = RiskBandUnknown,
                     Fus_Reason = ''all_must_allow_'' @ PE_ReasonCode unknown, Fus_Chosen = unknown\<rparr>)
      | None \<Rightarrow>
      (case find (\<lambda>r. PE_Action r = RiskActionReview) results of
        Some review \<Rightarrow>
          Some (Inr \<lparr>Fus_Action = RiskActionReview, Fus_Band = maxBandAcross results RiskBandMedium,
                     Fus_Reason = ''all_must_allow_review'', Fus_Chosen = review\<rparr>)
      | None \<Rightarrow>
      (case results of
        [] \<Rightarrow> None
      | res # _ \<Rightarrow>
          Some (Inr \<lparr>Fus_Action = RiskActionAllow, Fus_Band = maxBandAcross results RiskBandLow,
                     Fus_Reason = ''all_must_allow_passed'', Fus_Chosen = res\<rparr>)))))"

text \<open>The zero value of a result, before any blocking one is found.\<close>

definition zero_result :: providerEvalResult where
  "zero_result =
     \<lparr>PE_Ref = \<lparr>Ref_Provider = [], Ref_SchemaVersion = []\<rparr>, PE_Action = [], PE_RiskBand = [], PE_ReasonCode = [],
      PE_ObservedAt = zero_time, PE_ExpiresAt = zero_time, PE_Status = [], PE_EvidenceDigest = [], PE_IsAvailable = False\<rparr>"

definition block_step :: "providerEvalResult \<Rightarrow> providerEvalResult \<Rightarrow> providerEvalResult" where
  "block_step b r =
     (if PE_Action r = RiskActionBlock \<and>
         (Ref_Provider (PE_Ref b) = [] \<or> bandRank (PE_RiskBand r) > bandRank (PE_RiskBand b))
      then r else b)"

definition worst_block :: "providerEvalResult list \<Rightarrow> providerEvalResult" where
  "worst_block results = foldl block_step zero_result results"

definition worst_step :: "providerEvalResult \<Rightarrow> providerEvalResult \<Rightarrow> providerEvalResult" where
  "worst_step best r =
     (if bandRank (PE_RiskBand r) > bandRank (PE_RiskBand best) then r
      else if bandRank (PE_RiskBand r) = bandRank (PE_RiskBand best) \<and> actionRank (PE_Action r) > actionRank (PE_Action best)
      then r else best)"

definition fuse_highest :: "RiskPolicy \<Rightarrow> providerEvalResult list \<Rightarrow> fusion outcome" where
  "fuse_highest p results =
     (if list_ex (\<lambda>r. PE_Action r = RiskActionBlock) results
      then Some (Inr \<lparr>Fus_Action = RiskActionBlock, Fus_Band = maxBandAcross results RiskBandCritical,
                      Fus_Reason = ''highest_risk_blocked'', Fus_Chosen = worst_block results\<rparr>)
      else case find no_verdict results of
        Some unknown \<Rightarrow>
          (case find (\<lambda>r. PE_Action r = RiskActionReview) results of
             Some review \<Rightarrow>
               Some (Inr \<lparr>Fus_Action = RiskActionReview, Fus_Band = RiskBandMedium,
                          Fus_Reason = ''highest_risk_review'', Fus_Chosen = review\<rparr>)
           | None \<Rightarrow>
               Some (Inr \<lparr>Fus_Action = EffectiveUnknownAction p, Fus_Band = RiskBandUnknown,
                          Fus_Reason = ''highest_risk_'' @ PE_ReasonCode unknown, Fus_Chosen = unknown\<rparr>))
      | None \<Rightarrow>
          (case results of
             [] \<Rightarrow> None
           | res # rest \<Rightarrow>
               (let best = foldl worst_step res rest
                in Some (Inr \<lparr>Fus_Action = PE_Action best, Fus_Band = PE_RiskBand best,
                              Fus_Reason = ''highest_risk_'' @ PE_Action best, Fus_Chosen = best\<rparr>))))"

definition fuse :: "RiskPolicy \<Rightarrow> providerEvalResult list \<Rightarrow> fusion outcome" where
  "fuse p results =
     (let mode = Sel_Mode (RP_ProviderSelection p)
      in if mode = RiskFusionSingleProvider then fuse_single p results
         else if mode = RiskFusionAllMustAllow then fuse_all p results
         else if mode = RiskFusionHighestRisk then fuse_highest p results
         else Some (Inl (new_validation_error ''invalid_risk_fusion_mode'')))"

subsection \<open>One node\<close>

record NodeEvaluation =
  NE_Decision :: RiskDecision
  NE_Summary :: IPRiskSummary
  NE_RiskBand :: string
  NE_Action :: string

definition normalizeReasonCode :: "string \<Rightarrow> string" where
  "normalizeReasonCode reason =
     (let r = map (\<lambda>c. if c = CHR '' '' \<or> c = CHR ''-'' then CHR ''_'' else c) (to_lower (trim_space reason))
      in if r = [] then ''risk_decision_evaluated'' else r)"

definition provider_results ::
  "RiskPolicy \<Rightarrow> string \<Rightarrow> string \<Rightarrow> IPRiskObservation list \<Rightarrow> time \<Rightarrow> providerEvalResult list" where
  "provider_results p nodeLogicalID expectedExitDigest observations evaluatedAt =
     (let latest = latestByProvider nodeLogicalID observations
      in map (\<lambda>ref. evaluateSingleProviderObservation p ref
                      (gm_get latest (provider_key (Ref_Provider ref) (Ref_SchemaVersion ref)))
                      expectedExitDigest evaluatedAt) (Sel_Providers (RP_ProviderSelection p)))"

definition digest_set :: "providerEvalResult list \<Rightarrow> string list" where
  "digest_set results = sort (remdups (filter (\<lambda>d. d \<noteq> []) (map PE_EvidenceDigest results)))"

definition node_evaluation ::
  "RiskPolicy \<Rightarrow> string \<Rightarrow> time \<Rightarrow> string list \<Rightarrow> fusion \<Rightarrow> NodeEvaluation" where
  "node_evaluation p nodeLogicalID evaluatedAt digests f =
     (let reason = normalizeReasonCode (Fus_Reason f); chosen = Fus_Chosen f
      in \<lparr>NE_Decision =
            \<lparr>Dec_NodeLogicalID = nodeLogicalID, Dec_PolicyRevisionID = RP_RevisionID p, Dec_Decision = Fus_Action f,
             Dec_ReasonCode = reason, Dec_ObservationDigestSet = digests, Dec_EvaluatedAt = evaluatedAt\<rparr>,
          NE_Summary =
            \<lparr>Sum_Decision = Fus_Action f, Sum_RiskBand = Fus_Band f, Sum_Provider = Ref_Provider (PE_Ref chosen),
             Sum_ProviderSchemaVersion = Ref_SchemaVersion (PE_Ref chosen), Sum_ObservedAt = PE_ObservedAt chosen,
             Sum_ExpiresAt = PE_ExpiresAt chosen, Sum_Status = PE_Status chosen, Sum_ReasonCode = reason,
             Sum_PolicyRevisionID = Some (RP_RevisionID p)\<rparr>,
          NE_RiskBand = Fus_Band f, NE_Action = Fus_Action f\<rparr>)"

definition evaluateNodeCore ::
  "RiskPolicy \<Rightarrow> string \<Rightarrow> string \<Rightarrow> IPRiskObservation list \<Rightarrow> time \<Rightarrow> NodeEvaluation outcome" where
  "evaluateNodeCore p nodeLogicalID expectedExitDigest observations evaluatedAt =
     (let results = provider_results p nodeLogicalID expectedExitDigest observations evaluatedAt
      in case fuse p results of
           None \<Rightarrow> None
         | Some (Inl e) \<Rightarrow> Some (Inl e)
         | Some (Inr f) \<Rightarrow>
             (let ev = node_evaluation p nodeLogicalID evaluatedAt (digest_set results) f
              in case RiskDecision_Validate (NE_Decision ev) of
                   Some e \<Rightarrow> Some (Inl e)
                 | None \<Rightarrow> (case IPRiskSummary_Validate (NE_Summary ev) of Some e \<Rightarrow> Some (Inl e) | None \<Rightarrow> Some (Inr ev))))"

subsection \<open>The service\<close>

text \<open>Repositories of the service; \<open>None\<close> is one that was not configured.\<close>

record PolicyRepository =
  Repo_GetByID :: "string \<Rightarrow> RiskPolicyRevision result"
  Repo_GetActive :: "RiskPolicyRevision result"

type_synonym obs_repository = "(string \<Rightarrow> IPRiskObservation list result) option"

definition resolvePolicy :: "PolicyRepository option \<Rightarrow> RiskPolicy option \<Rightarrow> string \<Rightarrow> RiskPolicy result" where
  "resolvePolicy policyRepo explicit revisionID =
     (case explicit of
        Some p \<Rightarrow> Inr p
      | None \<Rightarrow>
          (case policyRepo of
             None \<Rightarrow> Inl (new_validation_error ''missing_risk_policy'')
           | Some repo \<Rightarrow>
               map_sum id Rev_RiskPolicy (if revisionID \<noteq> [] then Repo_GetByID repo revisionID else Repo_GetActive repo)))"

definition fetch_observations :: "obs_repository \<Rightarrow> string \<Rightarrow> IPRiskObservation list \<Rightarrow> IPRiskObservation list result" where
  "fetch_observations obsRepo nodeID obs =
     (case obsRepo of
        None \<Rightarrow> Inr obs
      | Some list_obs \<Rightarrow> if obs = [] then list_obs nodeID else Inr obs)"

definition evaluation_time :: "time \<Rightarrow> time \<Rightarrow> time" where
  "evaluation_time now evaluatedAt = (if evaluatedAt = zero_time then now else evaluatedAt)"

record EvaluateNodeInput =
  ENI_NodeLogicalID :: string
  ENI_ExitIdentityDigest :: string
  ENI_Policy :: "RiskPolicy option"
  ENI_PolicyRevisionID :: string
  ENI_EvaluatedAt :: time
  ENI_Observations :: "IPRiskObservation list"

definition EvaluateNode :: "obs_repository \<Rightarrow> PolicyRepository option \<Rightarrow> time \<Rightarrow> EvaluateNodeInput \<Rightarrow> NodeEvaluation outcome" where
  "EvaluateNode obsRepo policyRepo now input =
     (if \<not> IsValidLogicalID (ENI_NodeLogicalID input) then Some (Inl (new_validation_error ''invalid_node_logical_id''))
      else case resolvePolicy policyRepo (ENI_Policy input) (ENI_PolicyRevisionID input) of
             Inl e \<Rightarrow> Some (Inl e)
           | Inr p \<Rightarrow>
               (case RiskPolicy_Validate p of
                  Some e \<Rightarrow> Some (Inl e)
                | None \<Rightarrow>
                    (case fetch_observations obsRepo (ENI_NodeLogicalID input) (ENI_Observations input) of
                       Inl e \<Rightarrow> Some (Inl e)
                     | Inr observations \<Rightarrow>
                         evaluateNodeCore p (ENI_NodeLogicalID input) (ENI_ExitIdentityDigest input) observations
                           (evaluation_time now (ENI_EvaluatedAt input)))))"

subsection \<open>Batches\<close>

record EvaluateBatchInput =
  EBI_NodeLogicalIDs :: "string list"
  EBI_ExitIdentityDigests :: "(string, string) gomap"
  EBI_Policy :: "RiskPolicy option"
  EBI_PolicyRevisionID :: string
  EBI_InventoryWatermark :: string
  EBI_EvaluatedAt :: time
  EBI_Observations :: "IPRiskObservation list"

record RiskDiagnostic =
  RD_NodeLogicalID :: string
  RD_Decision :: string
  RD_RiskBand :: string
  RD_ReasonCode :: string
  RD_Message :: string

record BatchEvaluationResult =
  BER_PolicyRevisionID :: string
  BER_InventoryWatermark :: string
  BER_EvaluatedAt :: time
  BER_Decisions :: "RiskDecision list"
  BER_DecisionMap :: "(string, RiskDecision) gomap"
  BER_Summaries :: "IPRiskSummary list"
  BER_SummaryMap :: "(string, IPRiskSummary) gomap"
  BER_AdmittedNodeIDs :: "string list"
  BER_ExcludedNodeIDs :: "string list"
  BER_Diagnostics :: "RiskDiagnostic list"

text \<open>Refuse an invalid identifier and drop repeated ones.\<close>

fun collect_ids :: "string set \<Rightarrow> string list \<Rightarrow> string list result" where
  "collect_ids seen [] = Inr []"
| "collect_ids seen (nodeID # ids) =
     (if \<not> IsValidLogicalID nodeID then Inl (new_validation_error ''invalid_node_logical_id'')
      else if nodeID \<in> seen then collect_ids seen ids
      else map_sum id ((#) nodeID) (collect_ids (insert nodeID seen) ids))"

definition risk_diagnostic :: "string \<Rightarrow> NodeEvaluation \<Rightarrow> string \<Rightarrow> RiskDiagnostic" where
  "risk_diagnostic nodeID ev what =
     \<lparr>RD_NodeLogicalID = nodeID, RD_Decision = Dec_Decision (NE_Decision ev), RD_RiskBand = Sum_RiskBand (NE_Summary ev),
      RD_ReasonCode = Dec_ReasonCode (NE_Decision ev),
      RD_Message = ''node '' @ nodeID @ what @ Dec_ReasonCode (NE_Decision ev)\<rparr>"

definition admit :: "string \<Rightarrow> BatchEvaluationResult \<Rightarrow> BatchEvaluationResult" where
  "admit nodeID r = r\<lparr>BER_AdmittedNodeIDs := BER_AdmittedNodeIDs r @ [nodeID]\<rparr>"

definition exclude :: "string \<Rightarrow> BatchEvaluationResult \<Rightarrow> BatchEvaluationResult" where
  "exclude nodeID r = r\<lparr>BER_ExcludedNodeIDs := BER_ExcludedNodeIDs r @ [nodeID]\<rparr>"

definition diagnose :: "RiskDiagnostic \<Rightarrow> BatchEvaluationResult \<Rightarrow> BatchEvaluationResult" where
  "diagnose d r = r\<lparr>BER_Diagnostics := BER_Diagnostics r @ [d]\<rparr>"

definition classify :: "RiskPolicy \<Rightarrow> string \<Rightarrow> NodeEvaluation \<Rightarrow> BatchEvaluationResult \<Rightarrow> BatchEvaluationResult" where
  "classify p nodeID ev r =
     (let decision = Dec_Decision (NE_Decision ev)
      in if decision = RiskActionAllow then admit nodeID r
         else if decision = RiskActionBlock
         then diagnose (risk_diagnostic nodeID ev '' blocked by risk policy: '') (exclude nodeID r)
         else if decision = RiskActionReview
         then diagnose (risk_diagnostic nodeID ev '' requires review under risk policy: '')
                (if EffectiveReviewAction p = RiskActionAllow then admit nodeID r else exclude nodeID r)
         else diagnose (risk_diagnostic nodeID ev '' unknown risk state: '') (exclude nodeID r))"

definition record_evaluation :: "string \<Rightarrow> NodeEvaluation \<Rightarrow> BatchEvaluationResult \<Rightarrow> BatchEvaluationResult" where
  "record_evaluation nodeID ev r =
     r\<lparr>BER_Decisions := BER_Decisions r @ [NE_Decision ev],
       BER_DecisionMap := gm_put (BER_DecisionMap r) nodeID (NE_Decision ev),
       BER_Summaries := BER_Summaries r @ [NE_Summary ev],
       BER_SummaryMap := gm_put (BER_SummaryMap r) nodeID (NE_Summary ev)\<rparr>"

definition evaluate_in_batch :: "obs_repository \<Rightarrow> RiskPolicy \<Rightarrow> EvaluateBatchInput \<Rightarrow> time \<Rightarrow> string \<Rightarrow> NodeEvaluation outcome" where
  "evaluate_in_batch obsRepo p input evaluatedAt nodeID =
     (case fetch_observations obsRepo nodeID (filter (\<lambda>ob. Risk_NodeLogicalID ob = nodeID) (EBI_Observations input)) of
        Inl e \<Rightarrow> Some (Inl e)
      | Inr nodeObs \<Rightarrow>
          evaluateNodeCore p nodeID (gm_get_or [] (EBI_ExitIdentityDigests input) nodeID) nodeObs evaluatedAt)"

fun batch_loop :: "RiskPolicy \<Rightarrow> (string \<Rightarrow> NodeEvaluation outcome) \<Rightarrow> string list \<Rightarrow> BatchEvaluationResult \<Rightarrow> BatchEvaluationResult outcome" where
  "batch_loop p eval [] r = Some (Inr r)"
| "batch_loop p eval (nodeID # ids) r =
     (case eval nodeID of
        None \<Rightarrow> None
      | Some (Inl e) \<Rightarrow> Some (Inl e)
      | Some (Inr ev) \<Rightarrow> batch_loop p eval ids (classify p nodeID ev (record_evaluation nodeID ev r)))"

definition batch_start :: "RiskPolicy \<Rightarrow> EvaluateBatchInput \<Rightarrow> time \<Rightarrow> BatchEvaluationResult" where
  "batch_start p input evaluatedAt =
     \<lparr>BER_PolicyRevisionID = RP_RevisionID p, BER_InventoryWatermark = EBI_InventoryWatermark input,
      BER_EvaluatedAt = evaluatedAt, BER_Decisions = [], BER_DecisionMap = [], BER_Summaries = [],
      BER_SummaryMap = [], BER_AdmittedNodeIDs = [], BER_ExcludedNodeIDs = [], BER_Diagnostics = []\<rparr>"

definition EvaluateBatch :: "obs_repository \<Rightarrow> PolicyRepository option \<Rightarrow> time \<Rightarrow> EvaluateBatchInput \<Rightarrow> BatchEvaluationResult outcome" where
  "EvaluateBatch obsRepo policyRepo now input =
     (case resolvePolicy policyRepo (EBI_Policy input) (EBI_PolicyRevisionID input) of
        Inl e \<Rightarrow> Some (Inl e)
      | Inr p \<Rightarrow>
          (case RiskPolicy_Validate p of
             Some e \<Rightarrow> Some (Inl e)
           | None \<Rightarrow>
               (case collect_ids {} (EBI_NodeLogicalIDs input) of
                  Inl e \<Rightarrow> Some (Inl e)
                | Inr uniqueNodeIDs \<Rightarrow>
                    (let evaluatedAt = evaluation_time now (EBI_EvaluatedAt input)
                     in case batch_loop p (evaluate_in_batch obsRepo p input evaluatedAt) (sort uniqueNodeIDs)
                               (batch_start p input evaluatedAt) of
                          Some (Inr r) \<Rightarrow>
                            Some (Inr (r\<lparr>BER_AdmittedNodeIDs := sort (BER_AdmittedNodeIDs r),
                                         BER_ExcludedNodeIDs := sort (BER_ExcludedNodeIDs r)\<rparr>))
                        | other \<Rightarrow> other))))"

subsection \<open>The evaluator of the read model (repository/sqlite/node\_risk.go)\<close>

definition evaluateObservationAgainstPolicy ::
  "RiskPolicy \<Rightarrow> string \<Rightarrow> int option \<Rightarrow> int option \<Rightarrow> string \<Rightarrow> time \<Rightarrow> time \<Rightarrow> string \<times> string \<times> string \<times> string" where
  "evaluateObservationAgainstPolicy p status score confidence traitsJSON expiresAt now =
     (let unknownAction = EffectiveUnknownAction p
      in if status \<noteq> IPRiskStatusAvailable
         then (unknownAction, RiskBandUnknown, status, ''observation_status_'' @ status)
         else if \<not> now < expiresAt then (unknownAction, RiskBandUnknown, IPRiskStatusStale, ''observation_status_stale'')
         else if RP_MinimumConfidence p > 0 \<and> (case confidence of None \<Rightarrow> True | Some c \<Rightarrow> c < RP_MinimumConfidence p)
         then (unknownAction, RiskBandUnknown, IPRiskStatusAvailable, ''confidence_below_minimum'')
         else case find (\<lambda>tr. contains traitsJSON ([CHR 0x22] @ TR_Trait tr @ [CHR 0x22])) (RP_TraitRules p) of
                Some tr \<Rightarrow>
                  (TR_Action tr,
                   if TR_Action tr = RiskActionReview then RiskBandMedium
                   else if TR_Action tr = RiskActionAllow then RiskBandLow else RiskBandCritical,
                   IPRiskStatusAvailable, ''trait_rule_'' @ to_lower (TR_Trait tr))
              | None \<Rightarrow>
                  (case Option.bind score (\<lambda>s. find (covers s) (RP_ScoreBands p)) of
                     Some sb \<Rightarrow> (SB_Action sb, SB_Band sb, IPRiskStatusAvailable, ''score_band_'' @ to_lower (SB_Band sb))
                   | None \<Rightarrow> (unknownAction, RiskBandUnknown, IPRiskStatusAvailable, ''missing_score'')))"

subsection \<open>Keeping the best of each key\<close>

definition best_in :: "('a \<Rightarrow> 'k) \<Rightarrow> ('a \<Rightarrow> 'r::linorder) \<Rightarrow> 'k \<Rightarrow> 'a set \<Rightarrow> 'a \<Rightarrow> bool" where
  "best_in key rank k X x \<longleftrightarrow> x \<in> X \<and> key x = k \<and> (\<forall>y\<in>X. key y = k \<longrightarrow> rank y \<le> rank x)"

text \<open>
  A store that keeps for each key the element of the highest rank: what it holds depends on the
  elements and not on the order in which they arrive, when ranks tell elements of a key apart.
\<close>

locale ranked_store =
  fixes key :: "'a \<Rightarrow> 'k" and rank :: "'a \<Rightarrow> 'r::linorder" and better :: "'a \<Rightarrow> 'a \<Rightarrow> bool"
  assumes better_iff: "better x y \<longleftrightarrow> rank y < rank x"
begin

lemma kept_best:
  assumes "\<forall>k x. gm_get m k = Some x \<longrightarrow> best_in key rank k X x" "\<forall>k. gm_get m k = None \<longrightarrow> (\<forall>x\<in>X. key x \<noteq> k)"
  shows "gm_get (keep_newest key better m xs) k = Some x \<Longrightarrow> best_in key rank k (X \<union> set xs) x"
    and "gm_get (keep_newest key better m xs) k = None \<Longrightarrow> \<forall>x\<in>X \<union> set xs. key x \<noteq> k"
proof -
  have "(\<forall>k x. gm_get (keep_newest key better m xs) k = Some x \<longrightarrow> best_in key rank k (X \<union> set xs) x) \<and>
        (\<forall>k. gm_get (keep_newest key better m xs) k = None \<longrightarrow> (\<forall>x\<in>X \<union> set xs. key x \<noteq> k))"
    using assms
  proof (induction xs arbitrary: m X)
    case (Cons y xs)
    define m' where "m' = (case gm_get m (key y) of None \<Rightarrow> gm_put m (key y) y
      | Some z \<Rightarrow> if better y z then gm_put m (key y) y else m)"
    have step: "keep_newest key better m (y # xs) = keep_newest key better m' xs"
      by (simp add: m'_def split: option.split)
    have held: "\<forall>k x. gm_get m' k = Some x \<longrightarrow> best_in key rank k (insert y X) x"
    proof (intro allI impI)
      fix k x assume get: "gm_get m' k = Some x"
      show "best_in key rank k (insert y X) x"
      proof (cases "gm_get m (key y)")
        case None
        with get Cons.prems show ?thesis by (cases "k = key y") (auto simp: m'_def best_in_def)
      next
        case (Some z)
        with Cons.prems(1) have z: "best_in key rank (key y) X z" by simp
        show ?thesis
        proof (cases "k = key y")
          case True
          with get Some have "x = (if rank z < rank y then y else z)" by (simp add: m'_def better_iff split: if_splits)
          with z True show ?thesis by (auto simp: best_in_def split: if_splits intro: order_trans less_imp_le)
        next
          case False
          with get Some have "gm_get m k = Some x" by (simp add: m'_def split: if_splits)
          with Cons.prems(1) False show ?thesis by (auto simp: best_in_def)
        qed
      qed
    qed
    have absent: "\<forall>k. gm_get m' k = None \<longrightarrow> (\<forall>x\<in>insert y X. key x \<noteq> k)"
    proof (intro allI impI)
      fix k assume none: "gm_get m' k = None"
      have "k \<noteq> key y \<and> gm_get m k = None"
        by (cases "gm_get m (key y)"; cases "k = key y") (use none in \<open>simp_all add: m'_def split: if_splits\<close>)
      with Cons.prems(2) show "\<forall>x\<in>insert y X. key x \<noteq> k" by auto
    qed
    have union: "insert y X \<union> set xs = X \<union> set (y # xs)" by simp
    from Cons.IH[OF held absent] show ?case unfolding step union .
  qed simp
  then show "gm_get (keep_newest key better m xs) k = Some x \<Longrightarrow> best_in key rank k (X \<union> set xs) x"
    and "gm_get (keep_newest key better m xs) k = None \<Longrightarrow> \<forall>x\<in>X \<union> set xs. key x \<noteq> k" by auto
qed

lemma keep_newest_Some: "gm_get (keep_newest key better [] xs) k = Some x \<Longrightarrow> best_in key rank k (set xs) x"
  using kept_best(1)[of "[]" "{}" xs k x] by simp

lemma keep_newest_None: "gm_get (keep_newest key better [] xs) k = None \<Longrightarrow> x \<in> set xs \<Longrightarrow> key x \<noteq> k"
  using kept_best(2)[of "[]" "{}" xs k] by simp

lemma keep_newest_order:
  assumes "set xs = set ys" "inj_on (\<lambda>x. (key x, rank x)) (set xs)"
  shows "gm_get (keep_newest key better [] xs) k = gm_get (keep_newest key better [] ys) k"
proof (cases "gm_get (keep_newest key better [] xs) k")
  case None
  then have no: "\<forall>x\<in>set ys. key x \<noteq> k" using keep_newest_None[of xs k] assms(1) by auto
  show ?thesis
  proof (cases "gm_get (keep_newest key better [] ys) k")
    case (Some y)
    from keep_newest_Some[OF this] no show ?thesis by (auto simp: best_in_def)
  qed (simp add: None)
next
  case (Some x)
  from keep_newest_Some[OF Some] have x: "best_in key rank k (set ys) x" using assms(1) by simp
  show ?thesis
  proof (cases "gm_get (keep_newest key better [] ys) k")
    case None
    from keep_newest_None[OF this, of x] x show ?thesis by (auto simp: best_in_def)
  next
    case (Some y)
    from keep_newest_Some[OF this] x have "key x = key y" "rank x = rank y" "x \<in> set xs" "y \<in> set xs"
      using assms(1) by (auto simp: best_in_def intro: antisym)
    with assms(2) have "x = y" by (auto dest: inj_onD)
    with Some \<open>gm_get (keep_newest key better [] xs) k = Some x\<close> show ?thesis by simp
  qed
qed

end

definition obs_rank :: "IPRiskObservation \<Rightarrow> int \<times> string" where
  "obs_rank ob = (Risk_ObservedAt ob, Risk_ID ob)"

interpretation newest: ranked_store obs_key obs_rank newer
  by unfold_locales (auto simp: newer_def obs_rank_def less_prod_def)

subsection \<open>The verdict of one observation\<close>

definition trait_says :: "RiskPolicy \<Rightarrow> IPRiskObservation \<Rightarrow> string \<Rightarrow> bool" where
  "trait_says p ob action \<longleftrightarrow>
     (\<exists>r\<in>set (RP_TraitRules p). TR_Trait r \<in> set (Risk_AnonymizerTraits ob) \<and> TR_Action r = action)"

definition score_says :: "RiskPolicy \<Rightarrow> IPRiskObservation \<Rightarrow> string \<Rightarrow> bool" where
  "score_says p ob action \<longleftrightarrow>
     (case Risk_Score ob of
        None \<Rightarrow> False
      | Some s \<Rightarrow> \<exists>b\<in>set (RP_ScoreBands p). covers s b \<and> SB_Action b = action)"

definition says :: "RiskPolicy \<Rightarrow> IPRiskObservation \<Rightarrow> string \<Rightarrow> bool" where
  "says p ob action \<longleftrightarrow> trait_says p ob action \<or> score_says p ob action"

definition usable :: "RiskPolicy \<Rightarrow> string \<Rightarrow> time \<Rightarrow> IPRiskObservation \<Rightarrow> bool" where
  "usable p expected now ob \<longleftrightarrow>
     Risk_Status ob = IPRiskStatusAvailable \<and> (expected \<noteq> [] \<longrightarrow> Risk_ExitIdentityDigest ob = expected) \<and>
     now < Risk_ExpiresAt ob \<and> (0 < RP_MaxObservationAge p \<longrightarrow> time_sub now (Risk_ObservedAt ob) \<le> RP_MaxObservationAge p) \<and>
     (0 < RP_MinimumConfidence p \<longrightarrow>
        (case Risk_Confidence ob of None \<Rightarrow> False | Some c \<Rightarrow> RP_MinimumConfidence p \<le> c))"

lemma action_neq [simp]:
  "RiskActionAllow \<noteq> RiskActionReview" "RiskActionAllow \<noteq> RiskActionBlock" "RiskActionAllow \<noteq> RiskActionUnknown"
  "RiskActionReview \<noteq> RiskActionAllow" "RiskActionReview \<noteq> RiskActionBlock" "RiskActionReview \<noteq> RiskActionUnknown"
  "RiskActionBlock \<noteq> RiskActionAllow" "RiskActionBlock \<noteq> RiskActionReview" "RiskActionBlock \<noteq> RiskActionUnknown"
  "RiskActionUnknown \<noteq> RiskActionAllow" "RiskActionUnknown \<noteq> RiskActionReview" "RiskActionUnknown \<noteq> RiskActionBlock"
  "RiskActionAllow \<noteq> []" "RiskActionReview \<noteq> []" "RiskActionBlock \<noteq> []" "RiskActionUnknown \<noteq> []"
  "[] \<noteq> RiskActionAllow" "[] \<noteq> RiskActionReview" "[] \<noteq> RiskActionBlock" "[] \<noteq> RiskActionUnknown"
  by (simp_all add: risk_actions)

lemma actionRank_simps [simp]:
  "actionRank RiskActionBlock = 3" "actionRank RiskActionReview = 2" "actionRank RiskActionAllow = 1"
  "actionRank RiskActionUnknown = 0" "actionRank [] = 0"
  by (simp_all add: actionRank_def)

lemma isPolicyAction_cases:
  assumes "isPolicyAction a"
  obtains "a = RiskActionAllow" | "a = RiskActionReview" | "a = RiskActionBlock"
  using assms by (auto simp: isPolicyAction_def)

lemma rules_fold:
  "let res = foldl (trait_step t) acc rules
   in actionRank (fst acc) \<le> actionRank (fst res) \<and>
      (\<forall>r\<in>set rules. TR_Trait r = t \<longrightarrow> actionRank (TR_Action r) \<le> actionRank (fst res)) \<and>
      (res = acc \<or> (\<exists>r\<in>set rules. TR_Trait r = t \<and> res = (TR_Action r, ''trait_rule_'' @ to_lower t)))"
proof (induction rules arbitrary: acc)
  case (Cons r rules)
  from Cons[of "trait_step t acc r"] show ?case
    by (auto simp: Let_def trait_step_def split: if_splits)
qed simp

lemma traits_fold:
  "let res = foldl (\<lambda>acc trait. foldl (trait_step trait) acc rules) acc traits
   in actionRank (fst acc) \<le> actionRank (fst res) \<and>
      (\<forall>r\<in>set rules. TR_Trait r \<in> set traits \<longrightarrow> actionRank (TR_Action r) \<le> actionRank (fst res)) \<and>
      (res = acc \<or> (\<exists>r\<in>set rules. TR_Trait r \<in> set traits \<and> res = (TR_Action r, ''trait_rule_'' @ to_lower (TR_Trait r))))"
proof (induction traits arbitrary: acc)
  case (Cons t traits)
  define mid where "mid = foldl (trait_step t) acc rules"
  define res where "res = foldl (\<lambda>acc trait. foldl (trait_step trait) acc rules) mid traits"
  from rules_fold[of t acc rules] have one: "actionRank (fst acc) \<le> actionRank (fst mid)"
    "\<forall>r\<in>set rules. TR_Trait r = t \<longrightarrow> actionRank (TR_Action r) \<le> actionRank (fst mid)"
    "mid = acc \<or> (\<exists>r\<in>set rules. TR_Trait r = t \<and> mid = (TR_Action r, ''trait_rule_'' @ to_lower (TR_Trait r)))"
    by (simp_all add: Let_def mid_def) blast
  from Cons[of mid] have rest: "actionRank (fst mid) \<le> actionRank (fst res)"
    "\<forall>r\<in>set rules. TR_Trait r \<in> set traits \<longrightarrow> actionRank (TR_Action r) \<le> actionRank (fst res)"
    "res = mid \<or> (\<exists>r\<in>set rules. TR_Trait r \<in> set traits \<and> res = (TR_Action r, ''trait_rule_'' @ to_lower (TR_Trait r)))"
    by (simp_all add: Let_def res_def)
  have "foldl (\<lambda>acc trait. foldl (trait_step trait) acc rules) acc (t # traits) = res" by (simp add: res_def mid_def)
  moreover have "actionRank (fst acc) \<le> actionRank (fst res)" using one(1) rest(1) by linarith
  moreover have "\<forall>r\<in>set rules. TR_Trait r \<in> set (t # traits) \<longrightarrow> actionRank (TR_Action r) \<le> actionRank (fst res)"
    using one(2) rest(1,2) by fastforce
  moreover have "res = acc \<or> (\<exists>r\<in>set rules. TR_Trait r \<in> set (t # traits) \<and> res = (TR_Action r, ''trait_rule_'' @ to_lower (TR_Trait r)))"
    using one(3) rest(3) by auto
  ultimately show ?case unfolding Let_def by blast
qed simp

lemma trait_verdict_exact:
  assumes "\<And>r. r \<in> set (RP_TraitRules p) \<Longrightarrow> check_trait_rule r = None"
  shows "fst (trait_verdict p (Risk_AnonymizerTraits ob)) =
     (if trait_says p ob RiskActionBlock then RiskActionBlock
      else if trait_says p ob RiskActionReview then RiskActionReview
      else if trait_says p ob RiskActionAllow then RiskActionAllow else [])"
    (is "fst ?v = _")
proof -
  have ge: "\<forall>r\<in>set (RP_TraitRules p). TR_Trait r \<in> set (Risk_AnonymizerTraits ob) \<longrightarrow> actionRank (TR_Action r) \<le> actionRank (fst ?v)"
    and src: "?v = ([], []) \<or> (\<exists>r\<in>set (RP_TraitRules p). TR_Trait r \<in> set (Risk_AnonymizerTraits ob) \<and> fst ?v = TR_Action r)"
    using traits_fold[of "RP_TraitRules p" "([], [])" "Risk_AnonymizerTraits ob"] by (auto simp: Let_def trait_verdict_def)
  have says_le: "trait_says p ob a \<Longrightarrow> actionRank a \<le> actionRank (fst ?v)" for a
    using ge by (auto simp: trait_says_def)
  from src have "fst ?v = [] \<or> isPolicyAction (fst ?v) \<and> trait_says p ob (fst ?v)"
    using assms by (auto simp: trait_says_def check_trait_rule_def split: if_splits)
  then consider "fst ?v = []" | "fst ?v = RiskActionAllow" "trait_says p ob RiskActionAllow"
    | "fst ?v = RiskActionReview" "trait_says p ob RiskActionReview"
    | "fst ?v = RiskActionBlock" "trait_says p ob RiskActionBlock"
    by (auto simp: isPolicyAction_def)
  then show ?thesis
    using says_le[of RiskActionBlock] says_le[of RiskActionReview] says_le[of RiskActionAllow] by cases auto
qed

lemma trait_verdict_reason:
  "trait_verdict p traits = (a, reason) \<Longrightarrow> a \<noteq> [] \<Longrightarrow>
   \<exists>r\<in>set (RP_TraitRules p). reason = ''trait_rule_'' @ to_lower (TR_Trait r)"
  using traits_fold[of "RP_TraitRules p" "([], [])" traits] by (auto simp: Let_def trait_verdict_def)

lemma score_verdict_exact:
  assumes "validateScoreBands (RP_ScoreBands p) = None" "Risk_Score ob = Some s" "0 \<le> s" "s \<le> 100"
  obtains b where "score_verdict p s = (SB_Action b, SB_Band b, ''score_band_'' @ to_lower (SB_Band b))" "band_ok b"
    "\<And>a. score_says p ob a \<longleftrightarrow> a = SB_Action b"
proof -
  from assms(1,3,4) obtain b where b: "find (covers s) (RP_ScoreBands p) = Some b" "b \<in> set (RP_ScoreBands p)" "band_ok b"
    by (rule score_has_band)
  have "length (filter (covers s) (RP_ScoreBands p)) = 1"
    by (rule score_in_one_band[OF assms(1,3,4)])
  then obtain c where c: "filter (covers s) (RP_ScoreBands p) = [c]" by (auto simp: length_Suc_conv)
  moreover from b have "b \<in> set (filter (covers s) (RP_ScoreBands p))" by (auto simp: find_Some_iff)
  ultimately have "b = c" by simp
  with c have "set (filter (covers s) (RP_ScoreBands p)) = {b}" by simp
  then have "\<And>c. c \<in> set (RP_ScoreBands p) \<and> covers s c \<longleftrightarrow> c = b" by auto
  then have "score_says p ob a \<longleftrightarrow> a = SB_Action b" for a using assms(2) by (simp add: score_says_def) metis
  with b that show thesis by (simp add: score_verdict_def)
qed

lemma judge_exact:
  assumes pol: "RiskPolicy_Validate p = None" and pct: "validatePercent ''score'' (Risk_Score ob) = None"
  shows "PE_Action (judge_observation p ref ob) =
     (if says p ob RiskActionBlock then RiskActionBlock else if Risk_Score ob = None then RiskActionUnknown
      else if says p ob RiskActionReview then RiskActionReview else RiskActionAllow)" (is ?action)
    and "PE_IsAvailable (judge_observation p ref ob) \<longleftrightarrow> says p ob RiskActionBlock \<or> Risk_Score ob \<noteq> None" (is ?avail)
proof -
  obtain ta tr where tv: "trait_verdict p (Risk_AnonymizerTraits ob) = (ta, tr)" by fastforce
  note rules = RiskPolicy_Validate_None(7)[OF pol]
  from trait_verdict_exact[of p ob, OF rules] tv have ta: "ta = (if trait_says p ob RiskActionBlock then RiskActionBlock
      else if trait_says p ob RiskActionReview then RiskActionReview
      else if trait_says p ob RiskActionAllow then RiskActionAllow else [])" by simp
  have "?action \<and> ?avail"
  proof (cases "Risk_Score ob")
    case None
    then have "\<not> score_says p ob a" for a by (simp add: score_says_def)
    with None tv ta show ?thesis
      by (simp add: judge_observation_def says_def verdict_result_def unknown_result_def)
  next
    case (Some s)
    with pct have s: "0 \<le> s" "s \<le> 100" by (auto simp: validatePercent_def split: if_splits)
    obtain b where b: "score_verdict p s = (SB_Action b, SB_Band b, ''score_band_'' @ to_lower (SB_Band b))"
      "band_ok b" "\<And>a. score_says p ob a \<longleftrightarrow> a = SB_Action b"
      by (rule score_verdict_exact[OF RiskPolicy_Validate_None(6)[OF pol] Some s]) blast
    from b(2) have "isPolicyAction (SB_Action b)" by (simp add: band_ok_def)
    then show ?thesis
      using Some tv ta b(1,3)
      by (cases rule: isPolicyAction_cases)
        (simp_all add: judge_observation_def says_def verdict_result_def)
  qed
  then show ?action ?avail by auto
qed

subsection \<open>Well-formed results\<close>

definition unknown_reasons :: "string list" where
  "unknown_reasons =
     [''missing_observation'', ''observation_status_unknown'', ''observation_status_error'', ''observation_status_stale'',
      ''exit_identity_mismatch'', ''observation_expired'', ''observation_exceeded_max_age'', ''missing_confidence'',
      ''insufficient_confidence'', ''missing_score'']"

definition verdict_reasons :: "string list" where
  "verdict_reasons =
     [''trait_rule_proxy'', ''trait_rule_vpn'', ''trait_rule_tor'', ''trait_rule_residential_proxy'', ''trait_rule_hosting'',
      ''score_band_low'', ''score_band_medium'', ''score_band_high'', ''score_band_critical'']"

definition fused_reasons :: "string list" where
  "fused_reasons =
     unknown_reasons @ verdict_reasons @
     map ((@) ''all_must_allow_'') (unknown_reasons @ [''blocked'', ''review'', ''passed'']) @
     map ((@) ''highest_risk_'') (unknown_reasons @ [''blocked'', ''allow'', ''review'', ''block''])"

definition plain_code :: "string \<Rightarrow> bool" where
  "plain_code r \<longleftrightarrow> list_all plain r \<and> marker_free r \<and> r \<noteq> [] \<and> hd r \<noteq> CHR ''_''"

lemma plain_code_ok: "plain_code r \<Longrightarrow> reason_ok r"
  using plain_char plain_not_sensitive[of r]
  by (cases r) (fastforce simp: plain_code_def reason_ok_def reasonCodeRegex_def list_all_iff)+

lemma plain_code_normal: "plain_code r \<Longrightarrow> normalizeReasonCode r = r"
  using plain_char(5)
  by (force simp: plain_code_def normalizeReasonCode_def plain_trim plain_lower list_all_iff Let_def intro: map_idI)

lemma fused_reasons_plain: "list_all plain_code fused_reasons"
  by code_simp

lemma fused_reasons_ok: "r \<in> set fused_reasons \<Longrightarrow> reason_ok r \<and> normalizeReasonCode r = r"
  using fused_reasons_plain plain_code_ok plain_code_normal by (simp add: list_all_iff)

definition result_ok :: "providerEvalResult \<Rightarrow> bool" where
  "result_ok r \<longleftrightarrow>
     validateIPRiskIdentifier ''provider'' (Ref_Provider (PE_Ref r)) = None \<and>
     validateIPRiskIdentifier ''schema_version'' (Ref_SchemaVersion (PE_Ref r)) = None \<and>
     \<not> bad_interval (PE_ObservedAt r) (PE_ExpiresAt r) \<and> IPRiskStatus_IsValid (PE_Status r) \<and>
     (PE_EvidenceDigest r \<noteq> [] \<longrightarrow> validDigest (PE_EvidenceDigest r)) \<and> RiskBand_IsValid (PE_RiskBand r) \<and>
     (if PE_IsAvailable r then isPolicyAction (PE_Action r) \<and> PE_ReasonCode r \<in> set verdict_reasons
      else PE_Action r = RiskActionUnknown \<and> PE_ReasonCode r \<in> set unknown_reasons)"

definition valid_observation :: "IPRiskObservation \<Rightarrow> bool" where
  "valid_observation ob \<longleftrightarrow> IPRiskObservation_Validate ob = None"

lemma valid_observationD:
  assumes "valid_observation ob"
  shows "\<not> bad_interval (Risk_ObservedAt ob) (Risk_ExpiresAt ob)" "IPRiskStatus_IsValid (Risk_Status ob)"
    "validDigest (Risk_EvidenceDigest ob)" "validatePercent ''score'' (Risk_Score ob) = None"
  using assms by (auto simp: valid_observation_def IPRiskObservation_Validate_def)

lemma status_known [simp]: "IPRiskStatus_IsValid IPRiskStatusUnknown" "IPRiskStatus_IsValid IPRiskStatusStale"
  by (simp_all add: IPRiskStatus_IsValid_def)

lemma band_known [simp]:
  "RiskBand_IsValid RiskBandUnknown" "RiskBand_IsValid RiskBandLow" "RiskBand_IsValid RiskBandMedium"
  "RiskBand_IsValid RiskBandHigh" "RiskBand_IsValid RiskBandCritical"
  by (simp_all add: RiskBand_IsValid_def)

lemma reasons_listed:
  "list_all (\<lambda>t. ''trait_rule_'' @ to_lower t \<in> set verdict_reasons)
     [TraitProxy, TraitVPN, TraitTor, TraitResidentialProxy, TraitHosting]"
  "list_all (\<lambda>b. ''score_band_'' @ to_lower b \<in> set verdict_reasons)
     [RiskBandLow, RiskBandMedium, RiskBandHigh, RiskBandCritical]"
  "list_all (\<lambda>s. ''observation_status_'' @ to_lower s \<in> set unknown_reasons)
     [IPRiskStatusUnknown, IPRiskStatusError, IPRiskStatusStale]"
  by code_simp+

lemma trait_reason_known:
  assumes "check_trait_rule r = None"
  shows "''trait_rule_'' @ to_lower (TR_Trait r) \<in> set verdict_reasons"
proof -
  from assms have "TR_Trait r \<in> set [TraitProxy, TraitVPN, TraitTor, TraitResidentialProxy, TraitHosting]"
    by (auto simp: check_trait_rule_def AnonymizerTrait_IsValid_def split: if_splits)
  with reasons_listed(1) show ?thesis unfolding list_all_iff by blast
qed

lemma score_reason_known: "band_ok b \<Longrightarrow> ''score_band_'' @ to_lower (SB_Band b) \<in> set verdict_reasons"
  using reasons_listed(2) by (auto simp: band_ok_def RiskBand_IsValid_def)

lemma maxBand_valid: "RiskBand_IsValid a \<Longrightarrow> RiskBand_IsValid b \<Longrightarrow> RiskBand_IsValid (maxBand a b)"
  by (simp add: maxBand_def)

lemma verdict_result_ok:
  assumes "valid_observation ob" "isPolicyAction a" "RiskBand_IsValid b" "reason \<in> set verdict_reasons"
    and "validateIPRiskIdentifier ''provider'' (Ref_Provider ref) = None"
    and "validateIPRiskIdentifier ''schema_version'' (Ref_SchemaVersion ref) = None"
  shows "result_ok (verdict_result ref ob a b reason)"
  using assms valid_observationD[OF assms(1)] unfolding verdict_result_def result_ok_def by simp

lemma judge_ok:
  assumes pol: "RiskPolicy_Validate p = None" and ref: "ref \<in> set (Sel_Providers (RP_ProviderSelection p))"
    and ob: "valid_observation ob"
  shows "result_ok (judge_observation p ref ob)"
proof -
  note obs = valid_observationD[OF ob]
  note refs = RiskPolicy_Validate_None(4)[OF pol ref]
  obtain ta tr where tv: "trait_verdict p (Risk_AnonymizerTraits ob) = (ta, tr)" by fastforce
  have reason: "tr \<in> set verdict_reasons" if "ta \<noteq> []"
    using trait_verdict_reason[OF tv that] trait_reason_known RiskPolicy_Validate_None(7)[OF pol] by auto
  have "ta = [] \<or> isPolicyAction ta"
    using trait_verdict_exact[of p ob, OF RiskPolicy_Validate_None(7)[OF pol]] tv by (auto simp: isPolicyAction_def)
  show ?thesis
  proof (cases "Risk_Score ob")
    case None
    with tv reason obs refs show ?thesis
      by (auto simp: judge_observation_def verdict_result_def unknown_result_def result_ok_def isPolicyAction_def unknown_reasons_def)
  next
    case (Some s)
    with obs(4) have s: "0 \<le> s" "s \<le> 100" by (auto simp: validatePercent_def split: if_splits)
    obtain b sr where b: "score_verdict p s = (SB_Action b, SB_Band b, sr)" "band_ok b" and sr: "sr \<in> set verdict_reasons"
      by (rule score_verdict_exact[OF RiskPolicy_Validate_None(6)[OF pol] Some s]) (blast dest: score_reason_known)
    from b have band: "RiskBand_IsValid (SB_Band b)" "isPolicyAction (SB_Action b)" by (auto simp: band_ok_def)
    show ?thesis
    proof (cases "actionRank ta > actionRank (SB_Action b)")
      case True
      with band(2) have "ta \<noteq> []" by (auto elim: isPolicyAction_cases)
      with \<open>ta = [] \<or> isPolicyAction ta\<close> reason have "isPolicyAction ta" "tr \<in> set verdict_reasons" by auto
      with True Some tv b(1) band refs show ?thesis
        by (simp add: judge_observation_def verdict_result_ok[OF ob] maxBand_valid)
    next
      case False
      with Some tv b(1) sr band refs show ?thesis
        by (simp add: judge_observation_def verdict_result_ok[OF ob])
    qed
  qed
qed

lemma evaluate_usable:
  "usable p expected now ob \<Longrightarrow> evaluateSingleProviderObservation p ref (Some ob) expected now = judge_observation p ref ob"
  by (cases "Risk_Confidence ob") (auto simp: usable_def evaluateSingleProviderObservation_def Let_def)

lemma evaluate_unusable:
  assumes "\<not> usable p expected now ob" "IPRiskStatus_IsValid (Risk_Status ob)"
  obtains reason status digest where
    "evaluateSingleProviderObservation p ref (Some ob) expected now =
       unknown_result ref reason (Risk_ObservedAt ob) (Risk_ExpiresAt ob) status digest"
    "reason \<in> set unknown_reasons" "IPRiskStatus_IsValid status" "digest = [] \<or> digest = Risk_EvidenceDigest ob"
proof -
  note eval = evaluateSingleProviderObservation_def Let_def
  consider (status) "Risk_Status ob \<noteq> IPRiskStatusAvailable"
    | (exit) "Risk_Status ob = IPRiskStatusAvailable" "expected \<noteq> [] \<and> Risk_ExitIdentityDigest ob \<noteq> expected"
    | (expired) "Risk_Status ob = IPRiskStatusAvailable" "expected \<noteq> [] \<longrightarrow> Risk_ExitIdentityDigest ob = expected"
        "\<not> now < Risk_ExpiresAt ob"
    | (age) "Risk_Status ob = IPRiskStatusAvailable" "expected \<noteq> [] \<longrightarrow> Risk_ExitIdentityDigest ob = expected"
        "now < Risk_ExpiresAt ob" "0 < RP_MaxObservationAge p" "\<not> time_sub now (Risk_ObservedAt ob) \<le> RP_MaxObservationAge p"
    | (conf) "Risk_Status ob = IPRiskStatusAvailable" "expected \<noteq> [] \<longrightarrow> Risk_ExitIdentityDigest ob = expected"
        "now < Risk_ExpiresAt ob" "0 < RP_MaxObservationAge p \<longrightarrow> time_sub now (Risk_ObservedAt ob) \<le> RP_MaxObservationAge p"
        "0 < RP_MinimumConfidence p" "\<not> (case Risk_Confidence ob of None \<Rightarrow> False | Some c \<Rightarrow> RP_MinimumConfidence p \<le> c)"
    using assms(1) unfolding usable_def by blast
  then show thesis
  proof cases
    case status
    with assms(2) reasons_listed(3) have "''observation_status_'' @ to_lower (Risk_Status ob) \<in> set unknown_reasons"
      unfolding IPRiskStatus_IsValid_def list_all_iff by auto
    moreover from status have "evaluateSingleProviderObservation p ref (Some ob) expected now =
        unknown_result ref (''observation_status_'' @ to_lower (Risk_Status ob)) (Risk_ObservedAt ob) (Risk_ExpiresAt ob) (Risk_Status ob) []"
      unfolding eval by simp
    ultimately show thesis using assms(2) by (intro that) auto
  next
    case exit
    then show thesis
      by (intro that[of "''exit_identity_mismatch''" IPRiskStatusUnknown "[]"]) (simp_all add: eval unknown_reasons_def)
  next
    case expired
    then show thesis
      by (intro that[of "''observation_expired''" IPRiskStatusStale "[]"]) (auto simp: eval unknown_reasons_def)
  next
    case age
    then show thesis
      by (intro that[of "''observation_exceeded_max_age''" IPRiskStatusStale "[]"]) (auto simp: eval unknown_reasons_def)
  next
    case conf
    show thesis
    proof (cases "Risk_Confidence ob")
      case None
      with conf assms(2) show thesis
        by (intro that[of "''missing_confidence''" "Risk_Status ob" "Risk_EvidenceDigest ob"]) (auto simp: eval unknown_reasons_def)
    next
      case (Some c)
      with conf assms(2) show thesis
        by (intro that[of "''insufficient_confidence''" "Risk_Status ob" "Risk_EvidenceDigest ob"]) (auto simp: eval unknown_reasons_def)
    qed
  qed
qed

lemma single_ok:
  assumes pol: "RiskPolicy_Validate p = None" and ref: "ref \<in> set (Sel_Providers (RP_ProviderSelection p))"
    and now: "zero_time < now" and ob: "\<And>ob. obs = Some ob \<Longrightarrow> valid_observation ob"
  shows "result_ok (evaluateSingleProviderObservation p ref obs expected now)"
proof (cases obs)
  case None
  with RiskPolicy_Validate_None(4)[OF pol ref] RiskPolicy_Validate_None(5)[OF pol] now show ?thesis
    by (simp add: evaluateSingleProviderObservation_def unknown_result_def result_ok_def bad_interval_def unknown_reasons_def)
next
  case (Some x)
  note x = valid_observationD[OF ob[OF Some]]
  show ?thesis
  proof (cases "usable p expected now x")
    case True
    with judge_ok[OF pol ref ob[OF Some]] Some show ?thesis by (simp add: evaluate_usable)
  next
    case False
    from evaluate_unusable[OF this x(2)] obtain reason status digest where
      "evaluateSingleProviderObservation p ref (Some x) expected now =
         unknown_result ref reason (Risk_ObservedAt x) (Risk_ExpiresAt x) status digest"
      "reason \<in> set unknown_reasons" "IPRiskStatus_IsValid status" "digest = [] \<or> digest = Risk_EvidenceDigest x" .
    with Some x RiskPolicy_Validate_None(4)[OF pol ref] show ?thesis
      by (auto simp: unknown_result_def result_ok_def)
  qed
qed

subsection \<open>Fusion of well-formed results\<close>

definition fusion_ok :: "providerEvalResult list \<Rightarrow> fusion \<Rightarrow> bool" where
  "fusion_ok results f \<longleftrightarrow>
     isPolicyAction (Fus_Action f) \<and> RiskBand_IsValid (Fus_Band f) \<and> Fus_Reason f \<in> set fused_reasons \<and>
     Fus_Chosen f \<in> set results"

lemma maxBandAcross_valid:
  "list_all result_ok results \<Longrightarrow> RiskBand_IsValid fallback \<Longrightarrow> RiskBand_IsValid (maxBandAcross results fallback)"
  unfolding maxBandAcross_def by (induction results arbitrary: fallback) (auto simp: result_ok_def)

lemma EffectiveUnknownAction_policy: "isPolicyAction (EffectiveUnknownAction p)"
  by (simp add: EffectiveUnknownAction_def isPolicyAction_def)

lemma no_verdict_iff: "result_ok r \<Longrightarrow> no_verdict r \<longleftrightarrow> \<not> PE_IsAvailable r"
  by (auto simp: no_verdict_def result_ok_def isPolicyAction_def split: if_splits)

lemma find_result: "find P xs = Some x \<Longrightarrow> x \<in> set xs \<and> P x"
  by (auto simp: find_Some_iff)

lemma fused_reasons_mem:
  "r \<in> set unknown_reasons \<Longrightarrow> r \<in> set fused_reasons"
  "r \<in> set verdict_reasons \<Longrightarrow> r \<in> set fused_reasons"
  "r \<in> set unknown_reasons \<Longrightarrow> ''all_must_allow_'' @ r \<in> set fused_reasons"
  "r \<in> set unknown_reasons \<Longrightarrow> ''highest_risk_'' @ r \<in> set fused_reasons"
  "''all_must_allow_blocked'' \<in> set fused_reasons" "''all_must_allow_review'' \<in> set fused_reasons"
  "''all_must_allow_passed'' \<in> set fused_reasons" "''highest_risk_blocked'' \<in> set fused_reasons"
  "''highest_risk_review'' \<in> set fused_reasons"
  by (auto simp: fused_reasons_def)

lemma highest_reason: "isPolicyAction a \<Longrightarrow> ''highest_risk_'' @ a \<in> set fused_reasons"
  by (auto simp: fused_reasons_def isPolicyAction_def risk_actions)

lemma worst_step_in: "foldl worst_step x xs \<in> set (x # xs)"
proof (induction xs arbitrary: x)
  case (Cons y xs)
  from Cons[of "worst_step x y"] show ?case by (auto simp: worst_step_def split: if_splits)
qed simp

lemma block_step_keep: "foldl block_step b rs \<in> set (b # rs)"
proof (induction rs arbitrary: b)
  case (Cons r rs)
  from Cons[of "block_step b r"] show ?case by (auto simp: block_step_def split: if_splits)
qed simp

lemma worst_block_in:
  assumes "list_ex (\<lambda>r. PE_Action r = RiskActionBlock) results"
  shows "worst_block results \<in> set results"
proof -
  have "foldl block_step b rs \<in> set rs" if "Ref_Provider (PE_Ref b) = []" "list_ex (\<lambda>r. PE_Action r = RiskActionBlock) rs" for b rs
    using that
  proof (induction rs arbitrary: b)
    case (Cons r rs)
    show ?case
    proof (cases "PE_Action r = RiskActionBlock")
      case True
      with Cons.prems(1) have "block_step b r = r" by (simp add: block_step_def)
      with block_step_keep[of r rs] show ?thesis by simp
    next
      case False
      then have "block_step b r = b" by (simp add: block_step_def)
      with False Cons show ?thesis by simp
    qed
  qed simp
  with assms show ?thesis by (simp add: worst_block_def zero_result_def)
qed

lemma policy_actions [simp]:
  "isPolicyAction RiskActionBlock" "isPolicyAction RiskActionReview" "isPolicyAction RiskActionAllow"
  by (simp_all add: isPolicyAction_def)

lemma fusion_okI:
  "isPolicyAction a \<Longrightarrow> RiskBand_IsValid b \<Longrightarrow> reason \<in> set fused_reasons \<Longrightarrow> r \<in> set results \<Longrightarrow>
   fusion_ok results \<lparr>Fus_Action = a, Fus_Band = b, Fus_Reason = reason, Fus_Chosen = r\<rparr>"
  by (simp add: fusion_ok_def)

lemma unknown_found:
  assumes "list_all result_ok results" "find no_verdict results = Some r"
  shows "r \<in> set results" "PE_ReasonCode r \<in> set unknown_reasons"
proof -
  from find_result[OF assms(2)] show r: "r \<in> set results" by simp
  with assms(1) have ok: "result_ok r" by (simp add: list_all_iff)
  with find_result[OF assms(2)] have "\<not> PE_IsAvailable r" by (simp add: no_verdict_iff)
  with ok show "PE_ReasonCode r \<in> set unknown_reasons" unfolding result_ok_def by simp
qed

lemma verdicts_found:
  assumes "list_all result_ok results" "find no_verdict results = None" "r \<in> set results"
  shows "isPolicyAction (PE_Action r)" "RiskBand_IsValid (PE_RiskBand r)"
proof -
  from assms(1,3) have ok: "result_ok r" by (simp add: list_all_iff)
  with assms(2,3) have "PE_IsAvailable r" by (auto simp: find_None_iff no_verdict_iff)
  with ok show "isPolicyAction (PE_Action r)" "RiskBand_IsValid (PE_RiskBand r)" unfolding result_ok_def by simp_all
qed

lemma fuse_single_ok:
  assumes ok: "list_all result_ok results" and cons: "results = res # rest"
  shows "\<exists>f. fuse_single p results = Some (Inr f) \<and> fusion_ok results f"
proof -
  from assms have res: "result_ok res" by simp
  show ?thesis
  proof (cases "PE_IsAvailable res")
    case True
    with res have "isPolicyAction (PE_Action res)" "RiskBand_IsValid (PE_RiskBand res)" "PE_ReasonCode res \<in> set fused_reasons"
      unfolding result_ok_def by (simp_all add: fused_reasons_mem(2))
    with True res cons show ?thesis by (auto simp: fuse_single_def no_verdict_iff intro: fusion_okI)
  next
    case False
    with res have "PE_ReasonCode res \<in> set fused_reasons" unfolding result_ok_def by (simp add: fused_reasons_mem(1))
    with False res cons EffectiveUnknownAction_policy show ?thesis
      by (auto simp: fuse_single_def no_verdict_iff intro: fusion_okI)
  qed
qed

lemma fuse_all_ok:
  assumes ok: "list_all result_ok results" and cons: "results = res # rest"
  shows "\<exists>f. fuse_all p results = Some (Inr f) \<and> fusion_ok results f"
proof (cases "find (\<lambda>r. PE_Action r = RiskActionBlock) results")
  case (Some r)
  have "fusion_ok results \<lparr>Fus_Action = RiskActionBlock, Fus_Band = maxBandAcross results RiskBandCritical,
      Fus_Reason = ''all_must_allow_blocked'', Fus_Chosen = r\<rparr>"
    using find_result[OF Some] by (intro fusion_okI fused_reasons_mem(5) maxBandAcross_valid[OF ok]) simp_all
  with Some show ?thesis unfolding fuse_all_def by simp
next
  case noblock: None
  show ?thesis
  proof (cases "find no_verdict results")
    case (Some r)
    from unknown_found[OF ok Some] have "fusion_ok results \<lparr>Fus_Action = EffectiveUnknownAction p, Fus_Band = RiskBandUnknown,
        Fus_Reason = ''all_must_allow_'' @ PE_ReasonCode r, Fus_Chosen = r\<rparr>"
      by (intro fusion_okI fused_reasons_mem(3) EffectiveUnknownAction_policy) simp_all
    with noblock Some show ?thesis unfolding fuse_all_def by simp
  next
    case known: None
    show ?thesis
    proof (cases "find (\<lambda>r. PE_Action r = RiskActionReview) results")
      case (Some r)
      have "fusion_ok results \<lparr>Fus_Action = RiskActionReview, Fus_Band = maxBandAcross results RiskBandMedium,
          Fus_Reason = ''all_must_allow_review'', Fus_Chosen = r\<rparr>"
        using find_result[OF Some] by (intro fusion_okI fused_reasons_mem(6) maxBandAcross_valid[OF ok]) simp_all
      with noblock known Some show ?thesis unfolding fuse_all_def by simp
    next
      case None
      have "fusion_ok results \<lparr>Fus_Action = RiskActionAllow, Fus_Band = maxBandAcross results RiskBandLow,
          Fus_Reason = ''all_must_allow_passed'', Fus_Chosen = res\<rparr>"
        using cons by (intro fusion_okI fused_reasons_mem(7) maxBandAcross_valid[OF ok]) simp_all
      moreover have "fuse_all p results = Some (Inr \<lparr>Fus_Action = RiskActionAllow, Fus_Band = maxBandAcross results RiskBandLow,
          Fus_Reason = ''all_must_allow_passed'', Fus_Chosen = res\<rparr>)"
        unfolding fuse_all_def noblock known None by (simp add: cons)
      ultimately show ?thesis by blast
    qed
  qed
qed

lemma fuse_highest_ok:
  assumes ok: "list_all result_ok results" and cons: "results = res # rest"
  shows "\<exists>f. fuse_highest p results = Some (Inr f) \<and> fusion_ok results f"
proof (cases "list_ex (\<lambda>r. PE_Action r = RiskActionBlock) results")
  case True
  have "fusion_ok results \<lparr>Fus_Action = RiskActionBlock, Fus_Band = maxBandAcross results RiskBandCritical,
      Fus_Reason = ''highest_risk_blocked'', Fus_Chosen = worst_block results\<rparr>"
    by (intro fusion_okI fused_reasons_mem(8) maxBandAcross_valid[OF ok] worst_block_in True) simp_all
  with True show ?thesis unfolding fuse_highest_def by simp
next
  case noblock: False
  show ?thesis
  proof (cases "find no_verdict results")
    case unknown: (Some r)
    show ?thesis
    proof (cases "find (\<lambda>r. PE_Action r = RiskActionReview) results")
      case None
      from unknown_found[OF ok unknown] have "fusion_ok results \<lparr>Fus_Action = EffectiveUnknownAction p, Fus_Band = RiskBandUnknown,
          Fus_Reason = ''highest_risk_'' @ PE_ReasonCode r, Fus_Chosen = r\<rparr>"
        by (intro fusion_okI fused_reasons_mem(4) EffectiveUnknownAction_policy) simp_all
      with noblock unknown None show ?thesis unfolding fuse_highest_def by simp
    next
      case (Some v)
      have "fusion_ok results \<lparr>Fus_Action = RiskActionReview, Fus_Band = RiskBandMedium,
          Fus_Reason = ''highest_risk_review'', Fus_Chosen = v\<rparr>"
        using find_result[OF Some] by (intro fusion_okI fused_reasons_mem(9)) simp_all
      with noblock unknown Some show ?thesis unfolding fuse_highest_def by simp
    qed
  next
    case None
    let ?best = "foldl worst_step res rest"
    have best: "?best \<in> set results" using worst_step_in[of res rest] cons by simp
    note v = verdicts_found[OF ok None best]
    have "fuse_highest p results = Some (Inr \<lparr>Fus_Action = PE_Action ?best, Fus_Band = PE_RiskBand ?best,
        Fus_Reason = ''highest_risk_'' @ PE_Action ?best, Fus_Chosen = ?best\<rparr>)"
      unfolding fuse_highest_def None using noblock by (simp add: cons Let_def)
    with fusion_okI[OF v(1) v(2) highest_reason[OF v(1)] best] show ?thesis by blast
  qed
qed

lemma mode_neq [simp]:
  "RiskFusionAllMustAllow \<noteq> RiskFusionSingleProvider" "RiskFusionHighestRisk \<noteq> RiskFusionSingleProvider"
  "RiskFusionHighestRisk \<noteq> RiskFusionAllMustAllow"
  by (simp_all add: RiskFusionAllMustAllow_def RiskFusionSingleProvider_def RiskFusionHighestRisk_def)

lemma fuse_ok:
  assumes ok: "list_all result_ok results" and ne: "results \<noteq> []"
    and mode: "RiskFusionMode_IsValid (Sel_Mode (RP_ProviderSelection p))"
  shows "\<exists>f. fuse p results = Some (Inr f) \<and> fusion_ok results f"
proof -
  obtain res rest where cons: "results = res # rest" using ne by (cases results) auto
  from mode consider "Sel_Mode (RP_ProviderSelection p) = RiskFusionSingleProvider"
    | "Sel_Mode (RP_ProviderSelection p) = RiskFusionAllMustAllow" | "Sel_Mode (RP_ProviderSelection p) = RiskFusionHighestRisk"
    by (auto simp: RiskFusionMode_IsValid_def)
  then show ?thesis
    by cases (simp_all add: fuse_def fuse_single_ok[OF ok cons] fuse_all_ok[OF ok cons] fuse_highest_ok[OF ok cons])
qed

end
