(* ===== verification/Risk_Decisions.thy ===== *)
theory Risk_Decisions
  imports Risk_Evaluation
begin

section \<open>What risk decisions guarantee\<close>

text \<open>
  Properties of the evaluation in \<open>Risk_Evaluation\<close>. A valid policy and valid observations always give
  a valid decision that is not unknown; a node is allowed only on usable evidence of every selected
  provider and blocked as soon as the evidence of one says so; the order of observations plays no
  part; and the nodes a batch excludes are those that the resolver excludes on its decisions.
\<close>

subsection \<open>Results of a node\<close>

lemma latest_Some:
  assumes "gm_get (latestByProvider n obs) k = Some ob"
  shows "ob \<in> set obs" "Risk_NodeLogicalID ob = n" "obs_key ob = k"
    and "\<And>o'. o' \<in> set obs \<Longrightarrow> Risk_NodeLogicalID o' = n \<Longrightarrow> obs_key o' = k \<Longrightarrow> obs_rank o' \<le> obs_rank ob"
  using newest.keep_newest_Some[OF assms[unfolded latestByProvider_def]] by (auto simp: best_in_def)

lemma provider_results_ok:
  assumes "RiskPolicy_Validate p = None" "\<forall>ob\<in>set obs. valid_observation ob" "zero_time < now"
  shows "list_all result_ok (provider_results p n expected obs now)" and "provider_results p n expected obs now \<noteq> []"
proof -
  show "list_all result_ok (provider_results p n expected obs now)"
    using assms latest_Some(1)[of n obs] single_ok[OF assms(1) _ assms(3)]
    by (auto simp: provider_results_def Let_def list_all_iff)
  show "provider_results p n expected obs now \<noteq> []"
    using RiskPolicy_Validate_None(3)[OF assms(1)] by (simp add: provider_results_def Let_def)
qed

lemma digest_set_valid:
  "list_all result_ok results \<Longrightarrow> distinct (digest_set results) \<and> (\<forall>d\<in>set (digest_set results). validDigest d)"
  by (auto simp: digest_set_def list_all_iff result_ok_def)

lemma node_evaluation_simps [simp]:
  "NE_Action (node_evaluation p n t ds f) = Fus_Action f"
  "Dec_Decision (NE_Decision (node_evaluation p n t ds f)) = Fus_Action f"
  "Dec_NodeLogicalID (NE_Decision (node_evaluation p n t ds f)) = n"
  "Dec_PolicyRevisionID (NE_Decision (node_evaluation p n t ds f)) = RP_RevisionID p"
  by (simp_all add: node_evaluation_def Let_def)

lemma policy_action_valid: "isPolicyAction a \<Longrightarrow> RiskAction_IsValid a"
  by (auto simp: isPolicyAction_def RiskAction_IsValid_def)

lemma node_evaluation_valid:
  assumes pol: "RiskPolicy_Validate p = None" and n: "IsValidLogicalID n" and now: "zero_time < now"
    and ok: "list_all result_ok results" and f: "fusion_ok results f"
  shows "RiskDecision_Validate (NE_Decision (node_evaluation p n now (digest_set results) f)) = None"
    and "IPRiskSummary_Validate (NE_Summary (node_evaluation p n now (digest_set results) f)) = None"
proof -
  from f have act: "RiskAction_IsValid (Fus_Action f)" and band: "RiskBand_IsValid (Fus_Band f)"
    and reason: "reason_ok (normalizeReasonCode (Fus_Reason f))" and chosen: "result_ok (Fus_Chosen f)"
    using ok fused_reasons_ok[of "Fus_Reason f"] by (auto simp: fusion_ok_def policy_action_valid list_all_iff)
  note rev = RiskPolicy_Validate_None(1)[OF pol]
  show "RiskDecision_Validate (NE_Decision (node_evaluation p n now (digest_set results) f)) = None"
    using act reason rev n now digest_set_valid[OF ok]
    by (simp add: RiskDecision_Validate_def node_evaluation_def Let_def check_unique_None)
  show "IPRiskSummary_Validate (NE_Summary (node_evaluation p n now (digest_set results) f)) = None"
    using act band reason rev chosen unfolding result_ok_def
    by (simp add: IPRiskSummary_Validate_def node_evaluation_def Let_def)
qed

lemma core_eq:
  assumes pol: "RiskPolicy_Validate p = None" and n: "IsValidLogicalID n" and now: "zero_time < now"
    and obs: "\<forall>ob\<in>set obs. valid_observation ob"
  obtains f where "fuse p (provider_results p n expected obs now) = Some (Inr f)"
    "fusion_ok (provider_results p n expected obs now) f"
    "evaluateNodeCore p n expected obs now =
       Some (Inr (node_evaluation p n now (digest_set (provider_results p n expected obs now)) f))"
proof -
  let ?rs = "provider_results p n expected obs now"
  note rs = provider_results_ok[OF pol obs now, of n expected]
  from fuse_ok[OF rs RiskPolicy_Validate_None(2)[OF pol]] obtain f where
    f: "fuse p ?rs = Some (Inr f)" "fusion_ok ?rs f" by blast
  with node_evaluation_valid[OF pol n now rs(1) f(2)] that show thesis
    by (simp add: evaluateNodeCore_def Let_def)
qed

text \<open>
  C10. Under a valid policy, the evaluation of a node with a valid identifier on valid observations
  returns, whatever observations there are: it neither panics nor fails, its decision and its summary
  pass their own validation, and the decision is to allow, to review or to block.
\<close>

theorem evaluateNodeCore_returns:
  assumes "RiskPolicy_Validate p = None" "IsValidLogicalID n" "zero_time < now"
    and "\<forall>ob\<in>set obs. IPRiskObservation_Validate ob = None"
  shows "\<exists>ev. evaluateNodeCore p n expected obs now = Some (Inr ev) \<and>
     RiskDecision_Validate (NE_Decision ev) = None \<and> IPRiskSummary_Validate (NE_Summary ev) = None \<and>
     isPolicyAction (Dec_Decision (NE_Decision ev)) \<and> Dec_NodeLogicalID (NE_Decision ev) = n"
proof -
  have obs: "\<forall>ob\<in>set obs. valid_observation ob" using assms(4) by (simp add: valid_observation_def)
  from core_eq[OF assms(1-3) obs, of expected] obtain f where
    f: "fusion_ok (provider_results p n expected obs now) f"
    and ev: "evaluateNodeCore p n expected obs now =
      Some (Inr (node_evaluation p n now (digest_set (provider_results p n expected obs now)) f))" by blast
  from node_evaluation_valid[OF assms(1-3) provider_results_ok(1)[OF assms(1) obs assms(3)] f] ev f show ?thesis
    by (simp add: fusion_ok_def)
qed

definition sample_ref :: ProviderRef where
  "sample_ref = \<lparr>Ref_Provider = ''ipqs'', Ref_SchemaVersion = ''v''\<rparr>"

definition sample_policy :: RiskPolicy where
  "sample_policy =
     \<lparr>RP_RevisionID = ''01890a5d-ac96-774b-bcce-b302099a8057'',
      RP_ProviderSelection = \<lparr>Sel_Mode = RiskFusionSingleProvider, Sel_Providers = [sample_ref]\<rparr>,
      RP_MaxObservationAge = 3600 * second, RP_MinimumConfidence = 0,
      RP_ScoreBands = [\<lparr>SB_Min = 0, SB_Max = 49, SB_Band = RiskBandLow, SB_Action = RiskActionAllow\<rparr>,
                       \<lparr>SB_Min = 50, SB_Max = 100, SB_Band = RiskBandHigh, SB_Action = RiskActionBlock\<rparr>],
      RP_TraitRules = [\<lparr>TR_Trait = TraitVPN, TR_Action = RiskActionAllow\<rparr>, \<lparr>TR_Trait = TraitTor, TR_Action = RiskActionBlock\<rparr>],
      RP_UnknownAction = [], RP_ConflictAction = [], RP_ReviewAction = [], RP_RulesDigest = []\<rparr>"

definition sample_digest :: string where
  "sample_digest = ''sha256:'' @ replicate 64 CHR ''a''"

definition sample_observation :: "string list \<Rightarrow> IPRiskObservation" where
  "sample_observation traits =
     \<lparr>Risk_ID = ''01890a5d-ac96-774b-bcce-b302099a8058'', Risk_NodeLogicalID = ''0123456789abcdef'',
      Risk_ExitIdentityDigest = sample_digest, Risk_Provider = ''ipqs'', Risk_ProviderSchemaVersion = ''v'',
      Risk_ObservedAt = 1, Risk_ExpiresAt = 100, Risk_Status = IPRiskStatusAvailable, Risk_Score = Some 10,
      Risk_Confidence = None, Risk_NetworkClass = NetworkClassUnknown, Risk_AnonymizerTraits = traits,
      Risk_EvidenceDigest = sample_digest, Risk_RedactedSummary = [], Risk_ProbeObservationID = None\<rparr>"

lemma sample_digest_valid: "validDigest sample_digest"
  by code_simp

lemma sample_policy_valid: "RiskPolicy_Validate sample_policy = None"
  by code_simp

lemma sample_id_valid: "IsValidLogicalID ''0123456789abcdef''"
  by code_simp

lemma sample_observation_valid:
  "IPRiskObservation_Validate (sample_observation []) = None"
  "IPRiskObservation_Validate (sample_observation [TraitVPN, TraitTor]) = None"
  by code_simp+

theorem evaluateNodeCore_returns_witness:
  "\<exists>ev. evaluateNodeCore sample_policy ''0123456789abcdef'' [] [sample_observation []] 2 = Some (Inr ev) \<and>
     isPolicyAction (Dec_Decision (NE_Decision ev))"
proof -
  have "zero_time < 2" by (simp add: zero_time_def)
  moreover have "\<forall>ob\<in>set [sample_observation []]. IPRiskObservation_Validate ob = None"
    using sample_observation_valid(1) by simp
  ultimately show ?thesis
    using evaluateNodeCore_returns[OF sample_policy_valid sample_id_valid, of 2 "[sample_observation []]" "[]"] by blast
qed

subsection \<open>Allowing a node\<close>

lemma fuse_single_allow:
  assumes "list_all result_ok results" "length results = 1" "fuse_single p results = Some (Inr f)"
    and "Fus_Action f = RiskActionAllow" "EffectiveUnknownAction p \<noteq> RiskActionAllow" "r \<in> set results"
  shows "PE_IsAvailable r \<and> PE_Action r = RiskActionAllow"
proof -
  from assms(2,6) have rs: "results = [r]" by (auto simp: length_Suc_conv)
  with assms show ?thesis by (auto simp: fuse_single_def no_verdict_iff split: if_splits)
qed

lemma fuse_all_allow:
  assumes ok: "list_all result_ok results" and f: "fuse_all p results = Some (Inr f)"
    and allow: "Fus_Action f = RiskActionAllow" and unk: "EffectiveUnknownAction p \<noteq> RiskActionAllow" and r: "r \<in> set results"
  shows "PE_IsAvailable r \<and> PE_Action r = RiskActionAllow"
proof -
  have b: "find (\<lambda>r. PE_Action r = RiskActionBlock) results = None"
    by (rule ccontr) (use f allow in \<open>auto simp: fuse_all_def\<close>)
  have u: "find no_verdict results = None"
    by (rule ccontr) (use f allow unk b in \<open>auto simp: fuse_all_def\<close>)
  have v: "find (\<lambda>r. PE_Action r = RiskActionReview) results = None"
    by (rule ccontr) (use f allow b u in \<open>auto simp: fuse_all_def\<close>)
  from b v r have "PE_Action r \<noteq> RiskActionBlock" "PE_Action r \<noteq> RiskActionReview" by (auto simp: find_None_iff)
  moreover from ok r have "result_ok r" by (simp add: list_all_iff)
  moreover with u r have "PE_IsAvailable r" by (auto simp: find_None_iff no_verdict_iff)
  ultimately show ?thesis using verdicts_found(1)[OF ok u r] by (auto elim: isPolicyAction_cases)
qed

lemma fuse_highest_allow:
  assumes ok: "list_all result_ok results" and f: "fuse_highest p results = Some (Inr f)"
    and allow: "Fus_Action f = RiskActionAllow" and unk: "EffectiveUnknownAction p \<noteq> RiskActionAllow" and r: "r \<in> set results"
  shows "PE_IsAvailable r \<and> PE_Action r \<noteq> RiskActionBlock"
proof -
  have b: "\<not> list_ex (\<lambda>r. PE_Action r = RiskActionBlock) results"
    by (rule ccontr) (use f allow in \<open>auto simp: fuse_highest_def\<close>)
  have u: "find no_verdict results = None"
  proof (rule ccontr)
    assume "find no_verdict results \<noteq> None"
    with f allow unk b show False
      by (cases "find (\<lambda>r. PE_Action r = RiskActionReview) results") (auto simp: fuse_highest_def)
  qed
  from ok r have "result_ok r" by (simp add: list_all_iff)
  with b u r show ?thesis by (auto simp: list_ex_iff find_None_iff no_verdict_iff)
qed

lemma fuse_allow:
  assumes pol: "RiskPolicy_Validate p = None" and ok: "list_all result_ok results"
    and len: "length results = length (Sel_Providers (RP_ProviderSelection p))" and f: "fuse p results = Some (Inr f)"
    and allow: "Fus_Action f = RiskActionAllow" and unk: "EffectiveUnknownAction p \<noteq> RiskActionAllow" and r: "r \<in> set results"
  shows "PE_IsAvailable r \<and> PE_Action r \<noteq> RiskActionBlock \<and>
    (Sel_Mode (RP_ProviderSelection p) \<noteq> RiskFusionHighestRisk \<longrightarrow> PE_Action r = RiskActionAllow)"
proof -
  from RiskPolicy_Validate_None(2)[OF pol] consider (single) "Sel_Mode (RP_ProviderSelection p) = RiskFusionSingleProvider"
    | (all) "Sel_Mode (RP_ProviderSelection p) = RiskFusionAllMustAllow" | (high) "Sel_Mode (RP_ProviderSelection p) = RiskFusionHighestRisk"
    by (auto simp: RiskFusionMode_IsValid_def)
  then show ?thesis
  proof cases
    case single
    with f have "fuse_single p results = Some (Inr f)" by (simp add: fuse_def)
    with fuse_single_allow[OF ok _ this allow unk r] len RiskPolicy_Validate_None(8)[OF pol single] show ?thesis by simp
  next
    case all
    with f have "fuse_all p results = Some (Inr f)" by (simp add: fuse_def)
    with fuse_all_allow[OF ok this allow unk r] show ?thesis by simp
  next
    case high
    with f have "fuse_highest p results = Some (Inr f)" by (simp add: fuse_def)
    with fuse_highest_allow[OF ok this allow unk r] high show ?thesis by simp
  qed
qed

lemma available_evidence:
  assumes pol: "RiskPolicy_Validate p = None" and ob: "\<And>ob. got = Some ob \<Longrightarrow> valid_observation ob"
    and avail: "PE_IsAvailable (evaluateSingleProviderObservation p ref got expected now)"
  obtains ob where "got = Some ob" "usable p expected now ob"
    "PE_Action (evaluateSingleProviderObservation p ref got expected now) = PE_Action (judge_observation p ref ob)"
proof (cases got)
  case None
  with avail show ?thesis by (simp add: evaluateSingleProviderObservation_def unknown_result_def)
next
  case (Some x)
  show ?thesis
  proof (cases "usable p expected now x")
    case True
    with Some that show ?thesis by (simp add: evaluate_usable)
  next
    case False
    from evaluate_unusable[OF this valid_observationD(2)[OF ob[OF Some]], of ref] obtain reason status digest where
      "evaluateSingleProviderObservation p ref (Some x) expected now =
         unknown_result ref reason (Risk_ObservedAt x) (Risk_ExpiresAt x) status digest" by blast
    with avail Some show ?thesis by (simp add: unknown_result_def)
  qed
qed

text \<open>Identifiers hold no zero byte, so a key determines provider and schema version.\<close>

lemma identifier_no_zero:
  assumes "validateIPRiskIdentifier field v = None"
  shows "CHR 0x00 \<notin> set v"
proof
  assume "CHR 0x00 \<in> set v"
  moreover have keep: "CHR 0x00 \<in> set t \<Longrightarrow> CHR 0x00 \<in> set (dropWhile is_space t)" for t
    by (induction t) (auto simp: is_space_def)
  ultimately have "CHR 0x00 \<in> set (trim_space v)"
    using keep[of v] keep[of "rev (dropWhile is_space v)"] by (simp add: trim_space_def trim_left_def)
  moreover from assms have "ipRiskIdentifierRegex (trim_space v)"
    by (auto simp: validateIPRiskIdentifier_def Let_def split: if_splits)
  ultimately show False
    by (auto simp: ipRiskIdentifierRegex_def list_all_iff is_alnum_def is_digit_def is_upper_def is_lower_def split: list.splits)
qed

lemma provider_key_inj:
  assumes "CHR 0x00 \<notin> set a" "CHR 0x00 \<notin> set c" "provider_key a b = provider_key c d"
  shows "a = c \<and> b = d"
proof -
  have "takeWhile (\<lambda>x. x \<noteq> CHR 0x00) (provider_key x y) = x" if "CHR 0x00 \<notin> set x" for x y
    using that by (auto simp: provider_key_def takeWhile_append)
  with assms have "a = c" by metis
  with assms(3) show ?thesis by (simp add: provider_key_def)
qed

lemma valid_observation_provider:
  "valid_observation ob \<Longrightarrow> validateIPRiskIdentifier ''provider'' (Risk_Provider ob) = None"
  by (simp add: valid_observation_def IPRiskObservation_Validate_def)

text \<open>The observation that the evaluation uses for a provider: the newest of the node.\<close>

definition newest_observation :: "IPRiskObservation list \<Rightarrow> string \<Rightarrow> ProviderRef \<Rightarrow> IPRiskObservation \<Rightarrow> bool" where
  "newest_observation obs n ref ob \<longleftrightarrow>
     ob \<in> set obs \<and> Risk_NodeLogicalID ob = n \<and> Risk_Provider ob = Ref_Provider ref \<and>
     Risk_ProviderSchemaVersion ob = Ref_SchemaVersion ref \<and>
     (\<forall>ob'\<in>set obs. Risk_NodeLogicalID ob' = n \<and> Risk_Provider ob' = Ref_Provider ref \<and>
        Risk_ProviderSchemaVersion ob' = Ref_SchemaVersion ref \<longrightarrow> \<not> newer ob' ob)"

lemma latest_newest:
  assumes "gm_get (latestByProvider n obs) (provider_key (Ref_Provider ref) (Ref_SchemaVersion ref)) = Some ob"
    and "\<forall>ob\<in>set obs. valid_observation ob" "validateIPRiskIdentifier ''provider'' (Ref_Provider ref) = None"
  shows "newest_observation obs n ref ob"
proof -
  note l = latest_Some[OF assms(1)]
  have zero: "CHR 0x00 \<notin> set (Risk_Provider ob)" "CHR 0x00 \<notin> set (Ref_Provider ref)"
    using identifier_no_zero valid_observation_provider assms(2,3) l(1) by blast+
  from provider_key_inj[OF zero l(3)[unfolded obs_key_def]] have "Risk_Provider ob = Ref_Provider ref"
    "Risk_ProviderSchemaVersion ob = Ref_SchemaVersion ref" by simp_all
  moreover have "\<not> newer ob' ob" if "ob' \<in> set obs" "Risk_NodeLogicalID ob' = n" "Risk_Provider ob' = Ref_Provider ref"
    "Risk_ProviderSchemaVersion ob' = Ref_SchemaVersion ref" for ob'
    using l(4)[OF that(1,2)] that(3,4) newest.better_iff[of ob' ob] by (simp add: obs_key_def)
  ultimately show ?thesis using l(1,2) by (auto simp: newest_observation_def)
qed

text \<open>
  C8. Risk decisions fail closed. Under a valid policy whose action for missing evidence is not to
  allow, a node is allowed only if for every selected provider its newest observation of the node is
  usable (available, of the expected exit, not expired, not too old, confident enough), has a score,
  and neither its score band nor a trait rule says to block; and, unless the policy fuses by highest
  risk, none says to review either.
\<close>

theorem evaluateNodeCore_allow_evidence:
  assumes pol: "RiskPolicy_Validate p = None" and n: "IsValidLogicalID n" and now: "zero_time < now"
    and valid: "\<forall>ob\<in>set obs. IPRiskObservation_Validate ob = None"
    and unk: "EffectiveUnknownAction p \<noteq> RiskActionAllow"
    and ev: "evaluateNodeCore p n expected obs now = Some (Inr ev)" and allow: "NE_Action ev = RiskActionAllow"
    and ref: "ref \<in> set (Sel_Providers (RP_ProviderSelection p))"
  shows "\<exists>ob. newest_observation obs n ref ob \<and> usable p expected now ob \<and> Risk_Score ob \<noteq> None \<and>
     \<not> says p ob RiskActionBlock \<and>
     (Sel_Mode (RP_ProviderSelection p) \<noteq> RiskFusionHighestRisk \<longrightarrow> \<not> says p ob RiskActionReview)"
proof -
  have obs: "\<forall>ob\<in>set obs. valid_observation ob" using valid by (simp add: valid_observation_def)
  let ?rs = "provider_results p n expected obs now"
  let ?get = "gm_get (latestByProvider n obs) (provider_key (Ref_Provider ref) (Ref_SchemaVersion ref))"
  let ?r = "evaluateSingleProviderObservation p ref ?get expected now"
  from core_eq[OF pol n now obs, of expected] obtain f where f: "fuse p ?rs = Some (Inr f)"
    and eq: "evaluateNodeCore p n expected obs now = Some (Inr (node_evaluation p n now (digest_set ?rs) f))" by blast
  from eq ev allow have "Fus_Action f = RiskActionAllow" by auto
  moreover have "?r \<in> set ?rs" using ref by (auto simp: provider_results_def Let_def)
  moreover have "length ?rs = length (Sel_Providers (RP_ProviderSelection p))" by (simp add: provider_results_def Let_def)
  ultimately have r: "PE_IsAvailable ?r" "PE_Action ?r \<noteq> RiskActionBlock"
    "Sel_Mode (RP_ProviderSelection p) \<noteq> RiskFusionHighestRisk \<longrightarrow> PE_Action ?r = RiskActionAllow"
    using fuse_allow[OF pol provider_results_ok(1)[OF pol obs now] _ f _ unk] by blast+
  have vob: "\<And>ob. ?get = Some ob \<Longrightarrow> valid_observation ob" using latest_Some(1) obs by blast
  from available_evidence[OF pol vob r(1)] obtain ob where ob: "?get = Some ob" "usable p expected now ob"
    "PE_Action ?r = PE_Action (judge_observation p ref ob)" by blast
  from RiskPolicy_Validate_None(4)[OF pol ref] latest_newest[OF ob(1) obs] have new: "newest_observation obs n ref ob" by simp
  have "valid_observation ob" using vob[OF ob(1)] .
  from judge_exact(1)[OF pol valid_observationD(4)[OF this], of ref] ob(3) r
    judge_exact(2)[OF pol valid_observationD(4)[OF this], of ref] evaluate_usable[OF ob(2), of ref] ob(1)
  have "Risk_Score ob \<noteq> None" "\<not> says p ob RiskActionBlock"
    "Sel_Mode (RP_ProviderSelection p) \<noteq> RiskFusionHighestRisk \<longrightarrow> \<not> says p ob RiskActionReview"
    by (auto split: if_splits)
  with new ob(2) show ?thesis by blast
qed

lemma sample_allowed:
  "\<exists>ev. evaluateNodeCore sample_policy ''0123456789abcdef'' [] [sample_observation []] 2 = Some (Inr ev) \<and> NE_Action ev = RiskActionAllow"
proof -
  have "(case evaluateNodeCore sample_policy ''0123456789abcdef'' [] [sample_observation []] 2 of
           Some (Inr ev) \<Rightarrow> NE_Action ev = RiskActionAllow | _ \<Rightarrow> False)" by code_simp
  then show ?thesis by (auto split: option.splits sum.splits)
qed

lemma sample_facts:
  "zero_time < 2" "EffectiveUnknownAction sample_policy \<noteq> RiskActionAllow"
  "sample_ref \<in> set (Sel_Providers (RP_ProviderSelection sample_policy))"
  "\<forall>ob\<in>set [sample_observation []]. IPRiskObservation_Validate ob = None"
  "\<forall>ob\<in>set [sample_observation [TraitVPN, TraitTor]]. IPRiskObservation_Validate ob = None"
  using sample_observation_valid
  by (simp_all add: zero_time_def sample_policy_def EffectiveUnknownAction_def isPolicyAction_def)

theorem evaluateNodeCore_allow_evidence_witness:
  "\<exists>ob. newest_observation [sample_observation []] ''0123456789abcdef'' sample_ref ob \<and> usable sample_policy [] 2 ob \<and>
     \<not> says sample_policy ob RiskActionBlock"
proof -
  from sample_allowed obtain ev where
    "evaluateNodeCore sample_policy ''0123456789abcdef'' [] [sample_observation []] 2 = Some (Inr ev)" "NE_Action ev = RiskActionAllow"
    by blast
  from evaluateNodeCore_allow_evidence[OF sample_policy_valid sample_id_valid sample_facts(1,4,2) this sample_facts(3)]
  show ?thesis by blast
qed

subsection \<open>Blocking a node\<close>

lemma fuse_block:
  assumes pol: "RiskPolicy_Validate p = None" and ok: "list_all result_ok results"
    and len: "length results = length (Sel_Providers (RP_ProviderSelection p))" and f: "fuse p results = Some (Inr f)"
    and r: "r \<in> set results" "PE_Action r = RiskActionBlock"
  shows "Fus_Action f = RiskActionBlock"
proof -
  from RiskPolicy_Validate_None(2)[OF pol] consider (single) "Sel_Mode (RP_ProviderSelection p) = RiskFusionSingleProvider"
    | (all) "Sel_Mode (RP_ProviderSelection p) = RiskFusionAllMustAllow" | (high) "Sel_Mode (RP_ProviderSelection p) = RiskFusionHighestRisk"
    by (auto simp: RiskFusionMode_IsValid_def)
  then show ?thesis
  proof cases
    case single
    with RiskPolicy_Validate_None(8)[OF pol single] len r(1) have rs: "results = [r]" by (auto simp: length_Suc_conv)
    with ok have rok: "result_ok r" by simp
    have "PE_IsAvailable r" by (rule ccontr) (use rok r(2) in \<open>simp add: result_ok_def\<close>)
    with rok have "\<not> no_verdict r" by (simp add: no_verdict_iff)
    with f single rs r(2) show ?thesis by (auto simp: fuse_def fuse_single_def)
  next
    case all
    from r have "find (\<lambda>r. PE_Action r = RiskActionBlock) results \<noteq> None" by (auto simp: find_None_iff)
    with f all show ?thesis by (auto simp: fuse_def fuse_all_def)
  next
    case high
    from r have "list_ex (\<lambda>r. PE_Action r = RiskActionBlock) results" by (auto simp: list_ex_iff)
    with f high show ?thesis by (auto simp: fuse_def fuse_highest_def)
  qed
qed

text \<open>
  C16. A reason to block is never outvoted. In every fusion mode, when the newest observation of one
  selected provider is usable and its score band or one of its trait rules says to block, the decision
  is to block, whatever other rules, bands and providers say. Observations of a provider are told
  apart by time and identifier.
\<close>

theorem evaluateNodeCore_block_dominates:
  assumes pol: "RiskPolicy_Validate p = None" and n: "IsValidLogicalID n" and now: "zero_time < now"
    and valid: "\<forall>ob\<in>set obs. IPRiskObservation_Validate ob = None"
    and dist: "inj_on (\<lambda>ob. (obs_key ob, Risk_ObservedAt ob, Risk_ID ob)) (set obs)"
    and ref: "ref \<in> set (Sel_Providers (RP_ProviderSelection p))" and new: "newest_observation obs n ref ob"
    and use: "usable p expected now ob" and block: "says p ob RiskActionBlock"
  shows "\<exists>ev. evaluateNodeCore p n expected obs now = Some (Inr ev) \<and> NE_Action ev = RiskActionBlock"
proof -
  have obs: "\<forall>ob\<in>set obs. valid_observation ob" using valid by (simp add: valid_observation_def)
  let ?rs = "provider_results p n expected obs now"
  let ?k = "provider_key (Ref_Provider ref) (Ref_SchemaVersion ref)"
  from new have in_obs: "ob \<in> set obs" "Risk_NodeLogicalID ob = n" "obs_key ob = ?k" by (simp_all add: newest_observation_def obs_key_def)
  have "gm_get (latestByProvider n obs) ?k = Some ob"
  proof (cases "gm_get (latestByProvider n obs) ?k")
    case None
    with newest.keep_newest_None[of "filter (\<lambda>ob. Risk_NodeLogicalID ob = n) obs" ?k ob] in_obs show ?thesis
      by (simp add: latestByProvider_def)
  next
    case (Some x)
    note x = latest_Some[OF Some]
    from RiskPolicy_Validate_None(4)[OF pol ref] latest_newest[OF Some obs] have "newest_observation obs n ref x" by simp
    with new have "\<not> newer x ob" "\<not> newer ob x" by (auto simp: newest_observation_def)
    then have "obs_rank x = obs_rank ob" by (simp add: newest.better_iff)
    with inj_onD[OF dist _ x(1) in_obs(1)] x(3) in_obs(3) have "x = ob" by (simp add: obs_rank_def)
    with Some show ?thesis by simp
  qed
  then have "judge_observation p ref ob \<in> set ?rs"
    using ref evaluate_usable[OF use, of ref] by (force simp: provider_results_def Let_def)
  moreover have "PE_Action (judge_observation p ref ob) = RiskActionBlock"
    using judge_exact(1)[OF pol valid_observationD(4)] obs in_obs(1) block by simp
  moreover from core_eq[OF pol n now obs, of expected] obtain f where f: "fuse p ?rs = Some (Inr f)"
    and eq: "evaluateNodeCore p n expected obs now = Some (Inr (node_evaluation p n now (digest_set ?rs) f))" by blast
  moreover have "length ?rs = length (Sel_Providers (RP_ProviderSelection p))" by (simp add: provider_results_def Let_def)
  ultimately have "Fus_Action f = RiskActionBlock"
    using fuse_block[OF pol provider_results_ok(1)[OF pol obs now] _ f] by blast
  with eq show ?thesis by simp
qed

theorem evaluateNodeCore_block_dominates_witness:
  "\<exists>ev. evaluateNodeCore sample_policy ''0123456789abcdef'' [] [sample_observation [TraitVPN, TraitTor]] 2 = Some (Inr ev) \<and>
     NE_Action ev = RiskActionBlock"
proof -
  let ?ob = "sample_observation [TraitVPN, TraitTor]"
  have "newest_observation [?ob] ''0123456789abcdef'' sample_ref ?ob"
    by (simp add: newest_observation_def sample_observation_def sample_ref_def newer_def)
  moreover have "usable sample_policy [] 2 ?ob" by code_simp
  moreover have "says sample_policy ?ob RiskActionBlock"
    by (simp add: says_def trait_says_def sample_policy_def sample_observation_def)
  ultimately show ?thesis
    using evaluateNodeCore_block_dominates[OF sample_policy_valid sample_id_valid sample_facts(1,5) _ sample_facts(3)] by simp
qed

subsection \<open>The order of observations\<close>

text \<open>
  C23. The evaluation of a node depends on the set of observations and not on the order in which the
  repository lists them, as long as time and identifier tell the observations of a provider apart.
\<close>

theorem evaluateNodeCore_order:
  assumes "set obs = set obs'" "inj_on (\<lambda>ob. (obs_key ob, Risk_ObservedAt ob, Risk_ID ob)) (set obs)"
  shows "evaluateNodeCore p n expected obs now = evaluateNodeCore p n expected obs' now"
proof -
  have "gm_get (latestByProvider n obs) k = gm_get (latestByProvider n obs') k" for k
    unfolding latestByProvider_def
    by (rule newest.keep_newest_order) (use assms in \<open>auto simp: obs_rank_def inj_on_def\<close>)
  then show ?thesis by (simp add: evaluateNodeCore_def provider_results_def)
qed

theorem evaluateNodeCore_order_witness:
  "let a = sample_observation []; b = (sample_observation [TraitTor])\<lparr>Risk_ObservedAt := 2\<rparr>
   in evaluateNodeCore sample_policy ''0123456789abcdef'' [] [a, b] 3 = evaluateNodeCore sample_policy ''0123456789abcdef'' [] [b, a] 3"
  unfolding Let_def by (rule evaluateNodeCore_order) (auto simp: inj_on_def sample_observation_def)

subsection \<open>Batches\<close>

definition admits :: "RiskPolicy \<Rightarrow> string \<Rightarrow> bool" where
  "admits p decision \<longleftrightarrow> decision = RiskActionAllow \<or> decision = RiskActionReview \<and> EffectiveReviewAction p = RiskActionAllow"

lemma classify_lists:
  "BER_AdmittedNodeIDs (classify p i ev r) = BER_AdmittedNodeIDs r @ (if admits p (Dec_Decision (NE_Decision ev)) then [i] else [])"
  "BER_ExcludedNodeIDs (classify p i ev r) = BER_ExcludedNodeIDs r @ (if admits p (Dec_Decision (NE_Decision ev)) then [] else [i])"
  "BER_Decisions (classify p i ev r) = BER_Decisions r"
  by (auto simp: classify_def admits_def admit_def exclude_def diagnose_def Let_def)

lemma record_evaluation_lists [simp]:
  "BER_AdmittedNodeIDs (record_evaluation i ev r) = BER_AdmittedNodeIDs r"
  "BER_ExcludedNodeIDs (record_evaluation i ev r) = BER_ExcludedNodeIDs r"
  "BER_Decisions (record_evaluation i ev r) = BER_Decisions r @ [NE_Decision ev]"
  by (simp_all add: record_evaluation_def)

lemma batch_loop_result:
  assumes "\<forall>i\<in>set ids. eval i = Some (Inr (evf i))"
  shows "\<exists>r'. batch_loop p eval ids r = Some (Inr r') \<and>
    BER_Decisions r' = BER_Decisions r @ map (NE_Decision \<circ> evf) ids \<and>
    BER_AdmittedNodeIDs r' = BER_AdmittedNodeIDs r @ filter (\<lambda>i. admits p (Dec_Decision (NE_Decision (evf i)))) ids \<and>
    BER_ExcludedNodeIDs r' = BER_ExcludedNodeIDs r @ filter (\<lambda>i. \<not> admits p (Dec_Decision (NE_Decision (evf i)))) ids"
  using assms
proof (induction ids arbitrary: r)
  case (Cons i ids)
  from Cons.IH[of "classify p i (evf i) (record_evaluation i (evf i) r)"] Cons.prems show ?case
    by (auto simp: classify_lists)
qed simp

lemma collect_ids_ok:
  "\<forall>i\<in>set ids. IsValidLogicalID i \<Longrightarrow>
   \<exists>us. collect_ids seen ids = Inr us \<and> distinct us \<and> set us = set ids - seen"
proof (induction ids arbitrary: seen)
  case (Cons i ids)
  show ?case
  proof (cases "i \<in> seen")
    case True
    with Cons show ?thesis by (auto dest: spec[of _ seen])
  next
    case False
    from Cons.IH[of "insert i seen"] Cons.prems obtain us where
      "collect_ids (insert i seen) ids = Inr us" "distinct us" "set us = set ids - insert i seen" by auto
    with False Cons.prems show ?thesis by auto
  qed
qed simp

definition supplies_valid :: "obs_repository \<Rightarrow> string list \<Rightarrow> bool" where
  "supplies_valid obsRepo ids \<longleftrightarrow>
     (case obsRepo of
        None \<Rightarrow> True
      | Some list_obs \<Rightarrow>
          list_all (\<lambda>i. case list_obs i of Inl e \<Rightarrow> False | Inr obs \<Rightarrow> list_all (\<lambda>ob. IPRiskObservation_Validate ob = None) obs) ids)"

lemma batch_node:
  assumes pol: "RiskPolicy_Validate p = None" and i: "IsValidLogicalID i" "i \<in> set ids" and now: "zero_time < now"
    and valid: "\<forall>ob\<in>set (EBI_Observations input). IPRiskObservation_Validate ob = None" and repo: "supplies_valid obsRepo ids"
  shows "\<exists>ev. evaluate_in_batch obsRepo p input now i = Some (Inr ev) \<and>
    Dec_NodeLogicalID (NE_Decision ev) = i \<and> Dec_PolicyRevisionID (NE_Decision ev) = RP_RevisionID p \<and>
    isPolicyAction (Dec_Decision (NE_Decision ev))"
proof -
  let ?given = "filter (\<lambda>ob. Risk_NodeLogicalID ob = i) (EBI_Observations input)"
  obtain nodeObs where fetch: "fetch_observations obsRepo i ?given = Inr nodeObs" and obs: "\<forall>ob\<in>set nodeObs. valid_observation ob"
  proof (cases "obsRepo = None \<or> ?given \<noteq> []")
    case True
    then have "fetch_observations obsRepo i ?given = Inr ?given" by (auto simp: fetch_observations_def split: option.split)
    with valid that show thesis by (auto simp: valid_observation_def)
  next
    case False
    then obtain list_obs where l: "obsRepo = Some list_obs" "?given = []" by auto
    with repo i(2) obtain os where "list_obs i = Inr os" "\<forall>ob\<in>set os. IPRiskObservation_Validate ob = None"
      by (cases "list_obs i") (fastforce simp: supplies_valid_def list_all_iff split: sum.splits)+
    with l that show thesis by (simp add: fetch_observations_def valid_observation_def)
  qed
  let ?exit = "gm_get_or [] (EBI_ExitIdentityDigests input) i"
  from core_eq[OF pol i(1) now obs, of ?exit] obtain f where "fusion_ok (provider_results p i ?exit nodeObs now) f"
    "evaluateNodeCore p i ?exit nodeObs now =
       Some (Inr (node_evaluation p i now (digest_set (provider_results p i ?exit nodeObs now)) f))" by blast
  with fetch show ?thesis by (simp add: evaluate_in_batch_def fusion_ok_def)
qed

lemma uuid_not_empty: "IsValidUUIDv7 s \<Longrightarrow> s \<noteq> []"
  by (auto simp: IsValidUUIDv7_def matches_all_def uuidv7Regex_def)

lemma admission_of_decisions:
  assumes "revision \<noteq> []" "set decisions = dec ` I" "I \<subseteq> Node_LogicalID ` set nodes"
    and dec: "\<And>i. i \<in> I \<Longrightarrow> Dec_NodeLogicalID (dec i) = i \<and> Dec_PolicyRevisionID (dec i) = revision \<and> isPolicyAction (Dec_Decision (dec i))"
  shows "set (fst (evaluateRiskAdmission nodes revision decisions (EffectiveReviewAction p))) = {i \<in> I. \<not> admits p (Dec_Decision (dec i))}"
proof -
  have excl: "decision_excludes (EffectiveReviewAction p) (dec i) \<longleftrightarrow> \<not> admits p (Dec_Decision (dec i))" if "i \<in> I" for i
    using dec[OF that] by (auto simp: decision_excludes_def admits_def isPolicyAction_def)
  have "{d \<in> dec ` I. Dec_PolicyRevisionID d = revision \<and> Dec_NodeLogicalID d \<in> Node_LogicalID ` set nodes \<and>
          decision_excludes (EffectiveReviewAction p) d} = dec ` {i \<in> I. \<not> admits p (Dec_Decision (dec i))}"
  proof (intro set_eqI iffI)
    fix d assume "d \<in> {d \<in> dec ` I. Dec_PolicyRevisionID d = revision \<and> Dec_NodeLogicalID d \<in> Node_LogicalID ` set nodes \<and>
          decision_excludes (EffectiveReviewAction p) d}"
    then obtain i where "i \<in> I" "d = dec i" "decision_excludes (EffectiveReviewAction p) d" by auto
    with excl show "d \<in> dec ` {i \<in> I. \<not> admits p (Dec_Decision (dec i))}" by blast
  next
    fix d assume "d \<in> dec ` {i \<in> I. \<not> admits p (Dec_Decision (dec i))}"
    then obtain i where "i \<in> I" "\<not> admits p (Dec_Decision (dec i))" "d = dec i" by blast
    with dec[of i] assms(3) excl[of i] show "d \<in> {d \<in> dec ` I. Dec_PolicyRevisionID d = revision \<and>
        Dec_NodeLogicalID d \<in> Node_LogicalID ` set nodes \<and> decision_excludes (EffectiveReviewAction p) d}" by auto
  qed
  moreover have "Dec_NodeLogicalID ` dec ` {i \<in> I. \<not> admits p (Dec_Decision (dec i))} = {i \<in> I. \<not> admits p (Dec_Decision (dec i))}"
    unfolding image_image using dec by (intro image_cong[where g = id, simplified]) auto
  ultimately show ?thesis using assms(1,2) by (simp add: evaluateRiskAdmission_set)
qed

text \<open>
  C9. A batch of valid node identifiers, under a valid policy and on valid observations, returns, and
  splits the nodes into admitted and excluded ones, each list sorted and without duplicates. The
  excluded nodes are exactly those that the resolver's risk admission excludes when it is given the
  decisions of the batch, the revision of the policy and its review action.
\<close>

theorem EvaluateBatch_admission:
  assumes res: "resolvePolicy policyRepo (EBI_Policy input) (EBI_PolicyRevisionID input) = Inr p"
    and pol: "RiskPolicy_Validate p = None" and now: "zero_time < evaluation_time clock (EBI_EvaluatedAt input)"
    and ids: "\<forall>i\<in>set (EBI_NodeLogicalIDs input). IsValidLogicalID i"
    and valid: "\<forall>ob\<in>set (EBI_Observations input). IPRiskObservation_Validate ob = None"
    and repo: "supplies_valid obsRepo (EBI_NodeLogicalIDs input)"
    and nodes: "set (map Node_LogicalID nodes) = set (EBI_NodeLogicalIDs input)"
  shows "\<exists>r. EvaluateBatch obsRepo policyRepo clock input = Some (Inr r) \<and>
    sorted (BER_AdmittedNodeIDs r) \<and> distinct (BER_AdmittedNodeIDs r) \<and>
    set (BER_AdmittedNodeIDs r) \<union> set (BER_ExcludedNodeIDs r) = set (EBI_NodeLogicalIDs input) \<and>
    set (BER_AdmittedNodeIDs r) \<inter> set (BER_ExcludedNodeIDs r) = {} \<and>
    BER_ExcludedNodeIDs r = fst (evaluateRiskAdmission nodes (RP_RevisionID p) (BER_Decisions r) (EffectiveReviewAction p))"
proof -
  let ?now = "evaluation_time clock (EBI_EvaluatedAt input)"
  let ?eval = "evaluate_in_batch obsRepo p input ?now"
  from collect_ids_ok[OF ids, of "{}"] obtain us where us: "collect_ids {} (EBI_NodeLogicalIDs input) = Inr us"
    "distinct us" "set us = set (EBI_NodeLogicalIDs input)" by auto
  have "\<forall>i. \<exists>ev. i \<in> set (EBI_NodeLogicalIDs input) \<longrightarrow> ?eval i = Some (Inr ev) \<and> Dec_NodeLogicalID (NE_Decision ev) = i \<and>
      Dec_PolicyRevisionID (NE_Decision ev) = RP_RevisionID p \<and> isPolicyAction (Dec_Decision (NE_Decision ev))"
    using batch_node[OF pol _ _ now valid repo] ids by blast
  then obtain evf where evf: "\<And>i. i \<in> set (EBI_NodeLogicalIDs input) \<Longrightarrow> ?eval i = Some (Inr (evf i)) \<and>
      Dec_NodeLogicalID (NE_Decision (evf i)) = i \<and> Dec_PolicyRevisionID (NE_Decision (evf i)) = RP_RevisionID p \<and>
      isPolicyAction (Dec_Decision (NE_Decision (evf i)))" by metis
  let ?adm = "\<lambda>i. admits p (Dec_Decision (NE_Decision (evf i)))"
  have "\<forall>i\<in>set (sort us). ?eval i = Some (Inr (evf i))" using evf us(3) by simp
  from batch_loop_result[OF this, of p "batch_start p input ?now"] obtain r0 where
    r0: "batch_loop p ?eval (sort us) (batch_start p input ?now) = Some (Inr r0)"
      "BER_Decisions r0 = map (NE_Decision \<circ> evf) (sort us)" "BER_AdmittedNodeIDs r0 = filter ?adm (sort us)"
      "BER_ExcludedNodeIDs r0 = filter (\<lambda>i. \<not> ?adm i) (sort us)" by (auto simp: batch_start_def)
  then obtain r where
    r: "EvaluateBatch obsRepo policyRepo clock input = Some (Inr r)" "BER_Decisions r = map (NE_Decision \<circ> evf) (sort us)"
      "BER_AdmittedNodeIDs r = sort (filter ?adm (sort us))" "BER_ExcludedNodeIDs r = sort (filter (\<lambda>i. \<not> ?adm i) (sort us))"
    using res pol us(1) by (simp add: EvaluateBatch_def)
  let ?ex = "fst (evaluateRiskAdmission nodes (RP_RevisionID p) (BER_Decisions r) (EffectiveReviewAction p))"
  have ex: "set ?ex = {i \<in> set us. \<not> ?adm i}"
    by (rule admission_of_decisions[OF uuid_not_empty[OF RiskPolicy_Validate_None(1)[OF pol]]])
      (use evf us(3) nodes r(2) in auto)
  have "BER_ExcludedNodeIDs r = ?ex"
    by (rule sorted_distinct_set_unique)
      (use r(4) us(2) ex in \<open>auto simp: evaluateRiskAdmission_sorted evaluateRiskAdmission_distinct\<close>)
  with r us show ?thesis by auto
qed

definition sample_batch :: EvaluateBatchInput where
  "sample_batch =
     \<lparr>EBI_NodeLogicalIDs = [''0123456789abcdef''], EBI_ExitIdentityDigests = [], EBI_Policy = Some sample_policy,
      EBI_PolicyRevisionID = [], EBI_InventoryWatermark = [], EBI_EvaluatedAt = 2,
      EBI_Observations = [sample_observation [TraitVPN, TraitTor]]\<rparr>"

definition sample_node :: Node where
  "sample_node = zero_Node\<lparr>Node_LogicalID := ''0123456789abcdef'', Node_Active := True\<rparr>"

theorem EvaluateBatch_admission_witness:
  "\<exists>r. EvaluateBatch None None 2 sample_batch = Some (Inr r) \<and>
     BER_ExcludedNodeIDs r =
       fst (evaluateRiskAdmission [sample_node] (RP_RevisionID sample_policy) (BER_Decisions r) (EffectiveReviewAction sample_policy))"
proof -
  have "resolvePolicy None (EBI_Policy sample_batch) (EBI_PolicyRevisionID sample_batch) = Inr sample_policy"
    "zero_time < evaluation_time 2 (EBI_EvaluatedAt sample_batch)"
    "set (map Node_LogicalID [sample_node]) = set (EBI_NodeLogicalIDs sample_batch)"
    "supplies_valid None (EBI_NodeLogicalIDs sample_batch)"
    by (simp_all add: resolvePolicy_def sample_batch_def evaluation_time_def zero_time_def sample_node_def supplies_valid_def)
  moreover have "\<forall>i\<in>set (EBI_NodeLogicalIDs sample_batch). IsValidLogicalID i"
    "\<forall>ob\<in>set (EBI_Observations sample_batch). IPRiskObservation_Validate ob = None"
    using sample_id_valid sample_observation_valid by (simp_all add: sample_batch_def)
  ultimately show ?thesis
    using EvaluateBatch_admission[OF _ sample_policy_valid, of None sample_batch 2 None "[sample_node]"] by blast
qed

subsection \<open>Two evaluators\<close>

text \<open>
  The evaluator of the read model takes the first trait rule that matches, where the service takes the
  strictest. On an observation with both the traits \<open>vpn\<close> and \<open>tor\<close>, under a policy that allows the
  first and blocks the second, the inventory shows the node as allowed while the decision blocks it.
\<close>

theorem evaluators_disagree:
  "fst (evaluateObservationAgainstPolicy sample_policy IPRiskStatusAvailable (Some 10) None
          ([CHR ''['', CHR 0x22] @ TraitVPN @ [CHR 0x22, CHR '','', CHR 0x22] @ TraitTor @ [CHR 0x22, CHR '']'']) 100 2) = RiskActionAllow \<and>
   PE_Action (evaluateSingleProviderObservation sample_policy sample_ref (Some (sample_observation [TraitVPN, TraitTor])) [] 2) = RiskActionBlock"
proof (rule conjI)
  show "fst (evaluateObservationAgainstPolicy sample_policy IPRiskStatusAvailable (Some 10) None
      ([CHR ''['', CHR 0x22] @ TraitVPN @ [CHR 0x22, CHR '','', CHR 0x22] @ TraitTor @ [CHR 0x22, CHR '']'']) 100 2) = RiskActionAllow"
    by code_simp
  show "PE_Action (evaluateSingleProviderObservation sample_policy sample_ref (Some (sample_observation [TraitVPN, TraitTor])) [] 2) = RiskActionBlock"
    by code_simp
qed

end
