(* ===== verification/Spec2Isabelle.thy ===== *)
theory Spec2Isabelle
  imports Group_Pruning Probe_Pool Probe_Lifecycle Fetch_Policy Risk_Decisions
begin

text \<open>
  \<^bold>\<open>A verification of the core of clash-sub-parser.\<close> The program collects proxy nodes from
  subscriptions, filters and groups them under a policy, renders the result for several proxy
  clients, and probes the nodes in the background. This development models the parts that decide:
  which nodes are published and in which groups, which requests may leave the host, and how probes
  are scheduled and judged. All definitions are executable and follow the Go source under
  \<open>src/internal\<close>; they carry its names where that is possible.

  \<^bold>\<open>Theories and sources.\<close>
  \<^item> \<open>Go_Prelude\<close>: strings as byte lists, number parsing, times as nanoseconds, Go maps as association
    lists (\<open>gm_get\<close>, \<open>gm_put\<close>), and the domain errors of \<open>domain/errors.go\<close> without their message text.
  \<^item> \<open>Domain_Enums\<close> (\<open>domain/enums.go\<close>): the string enumerations; their parsers share the locale
    \<open>string_enum\<close>.
  \<^item> \<open>Sha256\<close>, \<open>Identifiers\<close> (\<open>domain/id.go\<close>): UUIDv7 and logical identifiers on bytes and words.
  \<^item> \<open>Domain_Model\<close> (\<open>domain/node.go\<close>, \<open>node_credential.go\<close>): nodes, sources, observations.
  \<^item> \<open>Node_Filter\<close> (\<open>domain/node_filter.go\<close>): validation and evaluation of filter conditions.
  \<^item> \<open>Policy_Graph\<close> (\<open>domain/policy.go\<close>, \<open>policy_sources.go\<close>, \<open>application/policy/graph.go\<close>): validation
    of groups, edges and rules, with the depth-first search for cycles.
  \<^item> \<open>Node_Admission\<close> (\<open>resolver/admission.go\<close>, \<open>risk_admission.go\<close>): admission rules and risk decisions.
  \<^item> \<open>Group_Resolution\<close>, \<open>Policy_Resolver\<close> (\<open>resolver/graph.go\<close>, \<open>resolver.go\<close>, \<open>types.go\<close>): from
    a resolver input to a snapshot.
  \<^item> \<open>Group_Pruning\<close> (\<open>compiler/prune.go\<close>): dropping empty optional groups from a snapshot.
  \<^item> \<open>Probe_Queue\<close>, \<open>Probe_Scheduler\<close>, \<open>Probe_Steps\<close>, \<open>Probe_Pool\<close> (\<open>probe/queue/scheduler.go\<close>): the
    state and critical sections of the scheduler, its invariant, the step relation with the
    properties of every interleaving, and the abstract pool it refines.
  \<^item> \<open>Probe_Lifecycle\<close> (\<open>domain/probe.go\<close>, \<open>probe_schedule.go\<close>, \<open>probe_health.go\<close>): the state machines
    of runs and batches under the locale \<open>lifecycle\<close>, schedules, and node health.
  \<^item> \<open>Fetch_Policy\<close> (\<open>fetch/policy.go\<close>): which addresses a download may contact, with the parsers
    and predicates of package net that it uses.
  \<^item> \<open>Risk_Text\<close>, \<open>Risk_Policy\<close> (\<open>domain/iprisk.go\<close>, \<open>iprisk_repository.go\<close>): sensitive text, and the
    records and validation of the risk domain.
  \<^item> \<open>Risk_Evaluation\<close>, \<open>Risk_Decisions\<close> (\<open>application/iprisk/service.go\<close>, and one function of
    \<open>repository/sqlite/node_risk.go\<close>): the evaluation of nodes against a risk policy, and its properties;
    the newest observation of each provider is kept under the locale \<open>ranked_store\<close>.

  \<^bold>\<open>How the parts interact.\<close> The resolver validates the policy graph, admits nodes, expands groups and
  emits a snapshot; publication may prune the snapshot before rendering, which is the composition
  proved here. Risk decisions are made in batches from observations and enter the resolver as input of
  risk admission; the two agree on who is excluded. Probe tasks run under the scheduler and leave observations, which filters and node
  health read.

  \<^bold>\<open>What is shown.\<close> For the resolver: it returns on every input, lists only nodes that may be
  published, and its snapshots are closed, complete and consistent; pruning keeps members closed, but
  not the lists of child groups. For the graph search: it is
  exact. For the scheduler: bounds, conservation of tasks, conflicts, preemption, progress,
  cancellation, draining and wake-ups, in all reachable states, and refinement of the pool; one
  wake-up is missing, \<open>refused_promotion_is_silent\<close> exhibits it and \<open>step_signals\<close> shows that there is no other. For
  the fetch policy: the exact set of addresses that pass. For risk decisions: they are always
  produced and valid, allow only on usable evidence, never outvote a reason to block, and do not
  depend on the order of observations. Further, round trips of identifiers and
  legacy edges, and theorems that document places where code and comment disagree.

  \<^bold>\<open>Parameters and bounds.\<close> The two regular expression engines, the DNS resolver and the repositories of
  the risk service are arguments. The
  graph search and the group expansion recurse with fuel equal to the number of groups and a
  little more; \<open>Resolve_returns\<close> and \<open>detect_cycle_exact\<close> show that it never runs out. The rounds of
  pruning are those of the source, and \<open>Prune_fixed_point\<close> shows that they suffice. The loop that
  evicts node records runs at most once per record. Letters are folded in ASCII, except where risk
  text is searched, and map iteration
  follows the order of the association list.

  \<^bold>\<open>Simplifications in the scheduler.\<close> A critical section reads the clock once, where cancelling
  and closing read it per task. The cleanup after a panic in task code is left out. Liveness
  statements speak of what a step does or of what some run can reach; no fair scheduling of
  goroutines is assumed or proved.

  \<^bold>\<open>Not modelled.\<close> Message texts and their redaction; the digests of snapshots, connections and
  risk decisions, which hash JSON encodings; proxy endpoints and the HTTP client of package fetch; the renderers of
  package compiler and the subscription parsers, which build and read YAML, JSON and URLs; the
  SQLite repositories, whose behaviour is SQL; the application services that coordinate them, among
  them the administration of risk policies; the
  HTTP transport; the probe runners, which drive network connections and third-party engines; the
  commands, and the web client. These are input and output, coordination around a database, or
  formats defined by libraries outside the repository.
\<close>

section \<open>Resolving and pruning together\<close>

lemma resolved_closed:
  assumes "Resolve eng ctxErr now input = Some (Inr snap)"
    and "\<forall>g \<in> set (Snap_Groups snap). RG_ID g \<noteq> [] \<and> trim_space (RG_ID g) = RG_ID g"
  shows "snapshot_closed snap"
  unfolding snapshot_closed_def
proof (intro ballI impI)
  fix g m assume gm: "g \<in> set (Snap_Groups snap)" "m \<in> set (RG_Members g)" "Mem_Kind m = MemberKindGroup"
  note inv = snapshot_groups(1)[OF assms(1), rule_format, OF gm(1), THEN conjunct1]
  have "Mem_TargetID m \<in> RG_ID ` set (Snap_Groups snap)" by (rule rg_inv_member(2)[OF inv gm(2,3)])
  with assms(2) show "Mem_TargetID m \<noteq> [] \<and> trim_space (Mem_TargetID m) = Mem_TargetID m \<and>
      Mem_TargetID m \<in> RG_ID ` set (Snap_Groups snap)" by auto
qed

text \<open>
  C2. Pruning a resolved snapshot, as publication does, keeps what the resolver guarantees: every node
  that a remaining group lists, as a member, directly or through the groups below it, is still one that
  may be published; the remaining groups are groups of the resolver that lost members and nothing else,
  so their lists of child groups and nodes are untouched; and where identifiers and names tell the
  groups apart and identifiers are trimmed and not empty, no member refers to a group that is gone.
  The lists of child groups carry no such promise, and the example below shows one that names a group
  that was pruned.
\<close>

theorem Resolve_then_Prune:
  assumes "Resolve eng ctxErr now input = Some (Inr snap)"
  shows "(\<forall>rg \<in> set (Snap_Groups (fst (PruneUnavailableOptionalGroups snap))).
            set (RG_NodeLogicalIDs rg) \<union> set (RG_AllNodeLogicalIDs rg) \<union>
              Mem_TargetID ` {m \<in> set (RG_Members rg). Mem_Kind m = MemberKindNode}
            \<subseteq> Node_LogicalID ` {n. publishable eng now input n}) \<and>
         (\<forall>rg \<in> set (Snap_Groups (fst (PruneUnavailableOptionalGroups snap))). \<exists>g \<in> set (Snap_Groups snap).
            set (RG_Members rg) \<subseteq> set (RG_Members g) \<and> rg = g\<lparr>RG_Members := RG_Members rg\<rparr>) \<and>
         (unambiguous snap \<and> (\<forall>g \<in> set (Snap_Groups snap). RG_ID g \<noteq> [] \<and> trim_space (RG_ID g) = RG_ID g) \<longrightarrow>
            snapshot_closed (fst (PruneUnavailableOptionalGroups snap)))"
proof (intro conjI impI)
  note shrink = Prune_shrinks[of snap, unfolded shrinks_def]
  then show "\<forall>rg \<in> set (Snap_Groups (fst (PruneUnavailableOptionalGroups snap))). \<exists>g \<in> set (Snap_Groups snap).
      set (RG_Members rg) \<subseteq> set (RG_Members g) \<and> rg = g\<lparr>RG_Members := RG_Members rg\<rparr>" .
  show "\<forall>rg \<in> set (Snap_Groups (fst (PruneUnavailableOptionalGroups snap))).
      set (RG_NodeLogicalIDs rg) \<union> set (RG_AllNodeLogicalIDs rg) \<union>
        Mem_TargetID ` {m \<in> set (RG_Members rg). Mem_Kind m = MemberKindNode} \<subseteq> Node_LogicalID ` {n. publishable eng now input n}"
  proof
    fix rg assume "rg \<in> set (Snap_Groups (fst (PruneUnavailableOptionalGroups snap)))"
    with shrink obtain g where g: "g \<in> set (Snap_Groups snap)" "set (RG_Members rg) \<subseteq> set (RG_Members g)"
      "rg = g\<lparr>RG_Members := RG_Members rg\<rparr>" by blast
    have same: "RG_NodeLogicalIDs rg = RG_NodeLogicalIDs g" "RG_AllNodeLogicalIDs rg = RG_AllNodeLogicalIDs g"
      using arg_cong[OF g(3), of RG_NodeLogicalIDs] arg_cong[OF g(3), of RG_AllNodeLogicalIDs] by simp_all
    note inv = snapshot_groups(1)[OF assms, rule_format, OF g(1)]
    show "set (RG_NodeLogicalIDs rg) \<union> set (RG_AllNodeLogicalIDs rg) \<union>
        Mem_TargetID ` {m \<in> set (RG_Members rg). Mem_Kind m = MemberKindNode} \<subseteq> Node_LogicalID ` {n. publishable eng now input n}"
      using inv g(2) rg_inv_nodes[OF inv[THEN conjunct1]] rg_inv_member(1)[OF inv[THEN conjunct1]] unfolding same by blast
  qed
qed (use Prune_closed resolved_closed[OF assms] in blast)

text \<open>
  A policy whose selector offers a group with one active node and an empty group.
  The second is pruned, and the selector still counts it among its child groups.
\<close>

definition optional_input :: ResolveInput where
  "optional_input = example_input\<lparr>In_Groups :=
     [(example_group (example_id CHR ''1'') [example_ref (example_id CHR ''2''), example_ref (example_id CHR ''3'')])\<lparr>Group_Name := ''auto''\<rparr>,
      (example_group (example_id CHR ''2'')
         [(example_ref [])\<lparr>Src_Kind := SourceKindManualNode, Src_TargetGroupID := None,
                          Src_NodeLogicalID := Some (replicate 64 CHR ''a'')\<rparr>])\<lparr>Group_Name := ''main''\<rparr>,
      (example_group (example_id CHR ''3'') [])\<lparr>Group_Name := ''warp''\<rparr>]\<rparr>"

lemma optional_resolved:
  "case Resolve literal_engines None 5 optional_input of
     Some (Inr snap) \<Rightarrow>
       (let snap' = fst (PruneUnavailableOptionalGroups snap)
        in unambiguous snap \<and> (\<forall>g \<in> set (Snap_Groups snap). RG_ID g \<noteq> [] \<and> trim_space (RG_ID g) = RG_ID g) \<and>
           map RG_ID (Snap_Groups snap) = [example_id CHR ''1'', example_id CHR ''2'', example_id CHR ''3''] \<and>
           map RG_ID (Snap_Groups snap') = [example_id CHR ''1'', example_id CHR ''2''] \<and>
           map Mem_TargetID (RG_Members (hd (Snap_Groups snap'))) = [example_id CHR ''2''] \<and>
           RG_ChildGroupIDs (hd (Snap_Groups snap')) = [example_id CHR ''2'', example_id CHR ''3''])
   | _ \<Rightarrow> False"
  by code_simp

theorem Resolve_then_Prune_witness:
  "\<exists>snap. Resolve literal_engines None 5 optional_input = Some (Inr snap) \<and>
     (let groups = Snap_Groups (fst (PruneUnavailableOptionalGroups snap))
      in length (Snap_Groups snap) = 3 \<and> length groups = 2 \<and>
         (\<forall>rg \<in> set groups. set (RG_AllNodeLogicalIDs rg) \<subseteq> Node_LogicalID ` {n. publishable literal_engines 5 optional_input n}) \<and>
         snapshot_closed (fst (PruneUnavailableOptionalGroups snap)))"
proof -
  from optional_resolved obtain snap where s: "Resolve literal_engines None 5 optional_input = Some (Inr snap)"
    and ok: "unambiguous snap \<and> (\<forall>g \<in> set (Snap_Groups snap). RG_ID g \<noteq> [] \<and> trim_space (RG_ID g) = RG_ID g)"
    and n: "map RG_ID (Snap_Groups snap) = [example_id CHR ''1'', example_id CHR ''2'', example_id CHR ''3'']"
      "map RG_ID (Snap_Groups (fst (PruneUnavailableOptionalGroups snap))) = [example_id CHR ''1'', example_id CHR ''2'']"
    by (simp add: Let_def split: option.splits sum.splits)
  have "length (Snap_Groups snap) = 3" "length (Snap_Groups (fst (PruneUnavailableOptionalGroups snap))) = 2"
    using arg_cong[OF n(1), of length] arg_cong[OF n(2), of length] by simp_all
  note len = this
  note safe = Resolve_then_Prune[OF s]
  have "\<forall>rg \<in> set (Snap_Groups (fst (PruneUnavailableOptionalGroups snap))).
      set (RG_AllNodeLogicalIDs rg) \<subseteq> Node_LogicalID ` {n. publishable literal_engines 5 optional_input n}"
    using safe[THEN conjunct1] by blast
  moreover have "snapshot_closed (fst (PruneUnavailableOptionalGroups snap))"
    by (rule safe[THEN conjunct2, THEN conjunct2, rule_format, OF ok])
  ultimately show ?thesis unfolding Let_def by (intro exI[of _ snap] conjI s len)
qed

end
